(* ===== verification/Prelude.thy ===== *)
theory Prelude
  imports Main "HOL-Library.AList" "HOL-Library.Word"
begin

text \<open>
  Shared notions of the development: the result type of fallible code, the hash map the Rust
  code uses (an association list with distinct keys, whose order stands for the unspecified
  iteration order), machine integers, vector helpers, and the two locales that lift a
  one-step invariant to runs of a component.
\<close>

named_theorems model_defs \<open>definitions unfolded by the component proofs\<close>
named_theorems frame \<open>which parts of a state an operation leaves alone\<close>

type_synonym u64 = "64 word"
type_synonym u32 = "32 word"
type_synonym u8 = "8 word"
type_synonym ('e, 'a) outcome = "'e + 'a"

section \<open>Results\<close>

text \<open>The \<open>?\<close> operator on \<open>Result\<close>, and \<open>ok_or\<close>.\<close>

fun and_then :: "'e + 'a \<Rightarrow> ('a \<Rightarrow> 'e + 'b) \<Rightarrow> 'e + 'b" where
  "and_then (Inl e) f = Inl e"
| "and_then (Inr a) f = f a"

fun ok_or :: "'e \<Rightarrow> 'a option \<Rightarrow> 'e + 'a" where
  "ok_or e None = Inl e"
| "ok_or e (Some a) = Inr a"

lemma and_then_Inr_iff:
  "and_then r f = Inr b \<longleftrightarrow> (\<exists>a. r = Inr a \<and> f a = Inr b)"
  by (cases r) auto

lemma and_then_Inl_iff:
  "and_then r f = Inl e \<longleftrightarrow> r = Inl e \<or> (\<exists>a. r = Inr a \<and> f a = Inl e)"
  by (cases r) auto

lemma ok_or_Inr_iff [simp]: "ok_or e x = Inr a \<longleftrightarrow> x = Some a"
  by (cases x) auto

lemma ok_or_Inl_iff [simp]: "ok_or e x = Inl f \<longleftrightarrow> x = None \<and> f = e"
  by (cases x) auto

lemmas result_simps = and_then_Inr_iff and_then_Inl_iff

section \<open>Machine integers\<close>

definition sat_succ :: "u64 \<Rightarrow> u64" where
  "sat_succ n = (if n = - 1 then n else n + 1)"

lemma sat_succ_below: "n \<noteq> - 1 \<Longrightarrow> n < sat_succ n"
proof -
  assume "n \<noteq> - 1"
  then have "1 + n \<noteq> 0"
    by (simp add: add_eq_0_iff)
  with \<open>n \<noteq> - 1\<close> show ?thesis
    by (simp add: sat_succ_def word_less_nat_alt unatSuc add.commute)
qed

lemma unat_sat_succ_le: "unat (sat_succ n) \<le> Suc (unat n)"
  by (simp add: sat_succ_def unat_word_ariths) 

section \<open>Vectors\<close>

fun position :: "('a \<Rightarrow> bool) \<Rightarrow> 'a list \<Rightarrow> nat option" where
  "position p [] = None"
| "position p (x # xs) = (if p x then Some 0 else map_option Suc (position p xs))"

definition remove_at :: "nat \<Rightarrow> 'a list \<Rightarrow> 'a list" where
  "remove_at i xs = take i xs @ drop (Suc i) xs"

lemma position_None_iff: "position p xs = None \<longleftrightarrow> (\<forall>x \<in> set xs. \<not> p x)"
  by (induction xs) auto

lemma position_SomeD:
  "position p xs = Some i \<Longrightarrow> i < length xs \<and> p (xs ! i)"
  by (induction xs arbitrary: i) (auto split: if_splits)

lemma remove_at_Cons [simp]:
  "remove_at 0 (x # xs) = xs" "remove_at (Suc i) (x # xs) = x # remove_at i xs"
  by (auto simp: remove_at_def)

lemma remove_at_position:
  "distinct (map f xs) \<Longrightarrow> position (\<lambda>x. f x = k) xs = Some i \<Longrightarrow>
     remove_at i xs = filter (\<lambda>x. f x \<noteq> k) xs"
proof (induction xs arbitrary: i)
  case Nil
  then show ?case by simp
next
  case (Cons x xs)
  show ?case
  proof (cases "f x = k")
    case True
    then have "filter (\<lambda>x. f x \<noteq> k) xs = xs"
      using Cons.prems(1) by (auto simp: filter_id_conv image_iff)
    with True Cons.prems(2) show ?thesis by simp
  next
    case False
    with Cons show ?thesis by auto
  qed
qed

section \<open>Hash maps\<close>

type_synonym ('k, 'v) hash_map = "('k \<times> 'v) list"

abbreviation hm_get :: "('k, 'v) hash_map \<Rightarrow> 'k \<Rightarrow> 'v option" where
  "hm_get m k \<equiv> map_of m k"

abbreviation hm_contains :: "('k, 'v) hash_map \<Rightarrow> 'k \<Rightarrow> bool" where
  "hm_contains m k \<equiv> map_of m k \<noteq> None"

abbreviation hm_insert :: "'k \<Rightarrow> 'v \<Rightarrow> ('k, 'v) hash_map \<Rightarrow> ('k, 'v) hash_map" where
  "hm_insert k v m \<equiv> AList.update k v m"

abbreviation hm_remove :: "'k \<Rightarrow> ('k, 'v) hash_map \<Rightarrow> ('k, 'v) hash_map" where
  "hm_remove k m \<equiv> AList.delete k m"

abbreviation hm_keys :: "('k, 'v) hash_map \<Rightarrow> 'k list" where
  "hm_keys m \<equiv> map fst m"

abbreviation hm_ok :: "('k, 'v) hash_map \<Rightarrow> bool" where
  "hm_ok m \<equiv> distinct (map fst m)"

lemma hm_insert_fresh: "map_of m k = None \<Longrightarrow> hm_insert k v m = m @ [(k, v)]"
  by (induction m) (auto split: if_splits)

lemma hm_remove_absent: "map_of m k = None \<Longrightarrow> hm_remove k m = m"
  by (rule AList.delete_id) (simp add: map_of_eq_None_iff)

lemma hm_remove_fresh: "map_of m k = None \<Longrightarrow> hm_remove k (m @ [(k, v)]) = m"
  by (induction m) (auto split: if_splits)

lemma hm_get_iff_mem: "hm_ok m \<Longrightarrow> map_of m k = Some v \<longleftrightarrow> (k, v) \<in> set m"
  by (metis map_of_SomeD map_of_is_SomeI)

lemma length_hm_remove:
  "hm_ok m \<Longrightarrow> map_of m k = Some v \<Longrightarrow> Suc (length (hm_remove k m)) = length m"
proof (induction m)
  case Nil
  then show ?case by simp
next
  case (Cons p m)
  then show ?case
    by (cases p) (auto simp: hm_remove_absent map_of_eq_None_iff split: if_splits)
qed

text \<open>Removing a list of keys one after the other, as the drain loops of the code do.\<close>

definition hm_remove_all :: "'k list \<Rightarrow> ('k, 'v) hash_map \<Rightarrow> ('k, 'v) hash_map" where
  "hm_remove_all ks m = fold hm_remove ks m"

lemma hm_remove_all_eq: "hm_remove_all ks m = filter (\<lambda>(k, v). k \<notin> set ks) m"
  unfolding hm_remove_all_def
  by (induction ks arbitrary: m) (auto simp: AList.delete_eq intro!: filter_cong)

text \<open>The table interface the registry and the pending map are clients of.\<close>

locale keyed_table =
  fixes get :: "'m \<Rightarrow> 'k \<Rightarrow> 'v option"
    and put :: "'k \<Rightarrow> 'v \<Rightarrow> 'm \<Rightarrow> 'm"
    and del :: "'k \<Rightarrow> 'm \<Rightarrow> 'm"
    and ok :: "'m \<Rightarrow> bool"
  assumes get_put: "ok m \<Longrightarrow> get (put k v m) = (get m)(k \<mapsto> v)"
    and get_del: "ok m \<Longrightarrow> get (del k m) = (get m)(k := None)"
    and ok_put: "ok m \<Longrightarrow> ok (put k v m)"
    and ok_del: "ok m \<Longrightarrow> ok (del k m)"
begin

lemma get_del_put: "ok m \<Longrightarrow> get m k = None \<Longrightarrow> get (del k (put k v m)) = get m"
  by (auto simp: get_put get_del ok_put)

lemma put_other: "ok m \<Longrightarrow> k \<noteq> k' \<Longrightarrow> get (put k v m) k' = get m k'"
  by (simp add: get_put)

lemma del_other: "ok m \<Longrightarrow> k \<noteq> k' \<Longrightarrow> get (del k m) k' = get m k'"
  by (simp add: get_del)

lemma del_all_ok: "ok m \<Longrightarrow> ok (fold del ks m)"
  by (induction ks arbitrary: m) (simp_all add: ok_del)

lemma get_del_all: "ok m \<Longrightarrow> get (fold del ks m) k = (if k \<in> set ks then None else get m k)"
  by (induction ks arbitrary: m) (simp_all add: ok_del get_del)

end

interpretation hash: keyed_table map_of hm_insert hm_remove hm_ok
  by unfold_locales
    (auto simp: update_conv' delete_conv' distinct_update distinct_delete)

section \<open>Invariants of runs\<close>

text \<open>
  A component is a state, a step function on events, and an invariant. The guarded form
  allows a step only where a guard holds (an identifier counter that has not saturated).
\<close>

locale guarded_machine =
  fixes step :: "'s \<Rightarrow> 'e \<Rightarrow> 's"
    and inv :: "'s \<Rightarrow> bool"
    and can :: "'s \<Rightarrow> 'e \<Rightarrow> bool"
  assumes guarded_step_inv: "inv s \<Longrightarrow> can s e \<Longrightarrow> inv (step s e)"
begin

lemma guarded_run_inv:
  assumes "inv s" and "\<And>i. i < length es \<Longrightarrow> can (foldl step s (take i es)) (es ! i)"
  shows "inv (foldl step s es)"
  using assms
proof (induction es rule: rev_induct)
  case Nil
  then show ?case by simp
next
  case (snoc e es)
  have "inv (foldl step s es)"
  proof (rule snoc.IH [OF snoc.prems(1)])
    fix i
    assume "i < length es"
    then show "can (foldl step s (take i es)) (es ! i)"
      using snoc.prems(2) [of i] by (simp add: nth_append)
  qed
  moreover have "can (foldl step s es) e"
    using snoc.prems(2) [of "length es"] by simp
  ultimately show ?case by (simp add: guarded_step_inv)
qed

end

locale machine =
  fixes step :: "'s \<Rightarrow> 'e \<Rightarrow> 's"
    and inv :: "'s \<Rightarrow> bool"
  assumes step_inv: "inv s \<Longrightarrow> inv (step s e)"
begin

sublocale guarded: guarded_machine step inv "\<lambda>_ _. True"
  by unfold_locales (rule step_inv)

lemma run_inv: "inv s \<Longrightarrow> inv (foldl step s es)"
  by (rule guarded.guarded_run_inv) simp_all

end

end
