(* ===== verification/Config.thy ===== *)
theory Config
  imports Prelude
begin

text \<open>
  The reviewed limits (\<open>crates/protocol/src/limits.rs\<close>) and the broker configuration
  (\<open>crates/broker/src/config.rs\<close>): the transport limits with their production ceilings,
  the checked constructor, and the loopback addresses. Byte counts and queue lengths are
  \<open>usize\<close> values read as \<^typ>\<open>nat\<close>; durations are \<^typ>\<open>nat\<close> milliseconds.
\<close>

section \<open>Limits of the protocol\<close>

definition MAX_DEPTH :: nat where "MAX_DEPTH = 6"
definition MAX_INPUT_IDS :: nat where "MAX_INPUT_IDS = 2000"
definition MAX_PAGE_IDS :: nat where "MAX_PAGE_IDS = 100"
definition MAX_IDENTIFIER_BYTES :: nat where "MAX_IDENTIFIER_BYTES = 256"
definition MAX_QUERY_BYTES :: nat where "MAX_QUERY_BYTES = 1024"
definition MAX_SEARCH_CURSOR_BYTES :: nat where "MAX_SEARCH_CURSOR_BYTES = 64 * 1024"
definition MAX_DISPLAY_TEXT_BYTES :: nat where "MAX_DISPLAY_TEXT_BYTES = 1024"
definition MAX_RETURNED_NODES :: nat where "MAX_RETURNED_NODES = 2000"
definition MAX_TEXT_BYTES :: nat where "MAX_TEXT_BYTES = 8 * 1024 * 1024"
definition MAX_ENVELOPE_BYTES :: nat where "MAX_ENVELOPE_BYTES = 24 * 1024 * 1024"
definition MAX_RASTER_SIDE :: nat where "MAX_RASTER_SIDE = 4096"
definition MAX_RASTER_PIXELS :: nat where "MAX_RASTER_PIXELS = 16000000"
definition MAX_RASTER_DECODED_BYTES :: nat where "MAX_RASTER_DECODED_BYTES = 12 * 1024 * 1024"
definition MAX_RASTER_BASE64_BYTES :: nat where "MAX_RASTER_BASE64_BYTES = 16 * 1024 * 1024"
definition MAX_SVG_BYTES :: nat where "MAX_SVG_BYTES = 4 * 1024 * 1024"
definition MAX_IN_FLIGHT :: nat where "MAX_IN_FLIGHT = 4"
definition MAX_QUEUE :: nat where "MAX_QUEUE = 16"
definition INACTIVITY_TIMEOUT_SECS :: nat where "INACTIVITY_TIMEOUT_SECS = 15"
definition TOTAL_TIMEOUT_SECS :: nat where "TOTAL_TIMEOUT_SECS = 120"
definition HEARTBEAT_SECS :: nat where "HEARTBEAT_SECS = 5"
definition STALE_SESSION_SECS :: nat where "STALE_SESSION_SECS = 20"
definition IDLE_GRACE_SECS :: nat where "IDLE_GRACE_SECS = 30"
definition BACKEND_READY_MS :: nat where "BACKEND_READY_MS = 1000"

lemmas limit_defs [model_defs] =
  MAX_DEPTH_def MAX_INPUT_IDS_def MAX_PAGE_IDS_def MAX_IDENTIFIER_BYTES_def MAX_QUERY_BYTES_def
  MAX_SEARCH_CURSOR_BYTES_def MAX_DISPLAY_TEXT_BYTES_def MAX_RETURNED_NODES_def
  MAX_TEXT_BYTES_def MAX_ENVELOPE_BYTES_def MAX_RASTER_SIDE_def MAX_RASTER_PIXELS_def
  MAX_RASTER_DECODED_BYTES_def MAX_RASTER_BASE64_BYTES_def MAX_SVG_BYTES_def
  MAX_IN_FLIGHT_def MAX_QUEUE_def INACTIVITY_TIMEOUT_SECS_def TOTAL_TIMEOUT_SECS_def
  HEARTBEAT_SECS_def STALE_SESSION_SECS_def IDLE_GRACE_SECS_def BACKEND_READY_MS_def

text \<open>The constant \<open>from_secs\<close> of the standard library's durations, in milliseconds.\<close>

definition from_secs :: "nat \<Rightarrow> nat" where
  "from_secs s = 1000 * s"

section \<open>Addresses\<close>

datatype ip_addr = V4 u8 u8 u8 u8 | V6 "128 word"

datatype socket_addr = SocketAddr (addr_ip: ip_addr) (addr_port: "16 word")

definition LOCALHOST_V4 :: ip_addr where "LOCALHOST_V4 = V4 127 0 0 1"
definition LOCALHOST_V6 :: ip_addr where "LOCALHOST_V6 = V6 1"

fun is_loopback :: "ip_addr \<Rightarrow> bool" where
  "is_loopback (V4 a b c d) = (a = 127)"
| "is_loopback (V6 w) = (w = 1)"

definition PLUGIN_ADDRESS :: socket_addr where
  "PLUGIN_ADDRESS = SocketAddr LOCALHOST_V4 3056"

definition FRONTEND_ADDRESS :: socket_addr where
  "FRONTEND_ADDRESS = SocketAddr LOCALHOST_V4 3057"

definition PLUGIN_PROTOCOL_VERSION :: string where
  "PLUGIN_PROTOCOL_VERSION = ''4''"

section \<open>Transport limits\<close>

record limits =
  max_frame_bytes :: nat
  max_message_bytes :: nat
  outbound_queue :: nat
  heartbeat_interval :: nat
  stale_after :: nat

datatype config_error = AboveProductionCeiling

definition limits_production :: limits where
  "limits_production =
     \<lparr>max_frame_bytes = MAX_ENVELOPE_BYTES,
      max_message_bytes = MAX_ENVELOPE_BYTES,
      outbound_queue = MAX_QUEUE,
      heartbeat_interval = from_secs HEARTBEAT_SECS,
      stale_after = from_secs STALE_SESSION_SECS\<rparr>"

definition limits_reduced_for_test :: limits where
  "limits_reduced_for_test =
     \<lparr>max_frame_bytes = 64 * 1024,
      max_message_bytes = 64 * 1024,
      outbound_queue = 4,
      heartbeat_interval = 25,
      stale_after = 100\<rparr>"

definition limits_checked :: "nat \<Rightarrow> nat \<Rightarrow> nat \<Rightarrow> nat \<Rightarrow> nat \<Rightarrow> config_error + limits" where
  "limits_checked frame message queue heartbeat stale =
     (let production = limits_production in
      if frame = 0
         \<or> frame > max_frame_bytes production
         \<or> message = 0
         \<or> message > max_message_bytes production
         \<or> queue = 0
         \<or> queue > outbound_queue production
         \<or> heartbeat = 0
         \<or> heartbeat > heartbeat_interval production
         \<or> stale = 0
         \<or> stale > stale_after production
      then Inl AboveProductionCeiling
      else Inr \<lparr>max_frame_bytes = frame, max_message_bytes = message, outbound_queue = queue,
                heartbeat_interval = heartbeat, stale_after = stale\<rparr>)"

record broker_config =
  plugin_address :: socket_addr
  frontend_address :: socket_addr
  cfg_limits :: limits

definition config_production :: broker_config where
  "config_production =
     \<lparr>plugin_address = PLUGIN_ADDRESS, frontend_address = FRONTEND_ADDRESS,
      cfg_limits = limits_production\<rparr>"

definition config_for_test :: "limits \<Rightarrow> config_error + broker_config" where
  "config_for_test l =
     and_then
       (limits_checked (max_frame_bytes l) (max_message_bytes l) (outbound_queue l)
          (heartbeat_interval l) (stale_after l))
       (\<lambda>_. Inr \<lparr>plugin_address = SocketAddr LOCALHOST_V4 0,
                 frontend_address = SocketAddr LOCALHOST_V4 0, cfg_limits = l\<rparr>)"

text \<open>What every accepted configuration satisfies.\<close>

definition limits_sound :: "limits \<Rightarrow> bool" where
  "limits_sound l \<longleftrightarrow>
     0 < max_frame_bytes l \<and> max_frame_bytes l \<le> MAX_ENVELOPE_BYTES \<and>
     0 < max_message_bytes l \<and> max_message_bytes l \<le> MAX_ENVELOPE_BYTES \<and>
     0 < outbound_queue l \<and> outbound_queue l \<le> MAX_QUEUE \<and>
     0 < heartbeat_interval l \<and> heartbeat_interval l \<le> from_secs HEARTBEAT_SECS \<and>
     0 < stale_after l \<and> stale_after l \<le> from_secs STALE_SESSION_SECS"

lemma limits_checked_iff:
  "(\<exists>l'. limits_checked (max_frame_bytes l) (max_message_bytes l) (outbound_queue l)
     (heartbeat_interval l) (stale_after l) = Inr l') \<longleftrightarrow> limits_sound l"
  by (auto simp: limits_checked_def limits_sound_def limits_production_def Let_def not_less)

lemma limits_production_sound [simp]: "limits_sound limits_production"
  by (simp add: limits_sound_def limits_production_def from_secs_def limit_defs)

lemma config_for_test_iff:
  "(\<exists>c. config_for_test l = Inr c) \<longleftrightarrow> limits_sound l"
  unfolding limits_checked_iff [symmetric] config_for_test_def
  by (auto simp: and_then_Inr_iff)

end
