(* ===== verification/Json.thy ===== *)
theory Json
  imports Config "HOL-Library.Monad_Syntax" "HOL-Library.Multiset" "HOL-Library.Char_ord"
begin

text \<open>
  JSON values as the deserializers of the protocol see them, and the pieces of serde they are
  made of: derived struct decoders, optional fields, unit enum tags, bounded strings and bounded
  lists (\<open>crates/protocol/src/domain/common.rs\<close>).

  A value carries the length in bytes of its source text, which is what \<open>RawValue::get().len()\<close>
  reads; strings are their UTF-8 bytes. A decoder returns \<^const>\<open>None\<close> where the Rust one returns
  an error: the text of a decode error is not modelled.
\<close>

section \<open>Values\<close>

text \<open>The three number forms of the parser; a float is its IEEE bit pattern.\<close>

datatype jnum = PosInt u64 | NegInt u64 | Float u64

datatype json = Json (src_len: nat) (body: jbody)
  and jbody = JNull | JBool bool | JNum jnum | JStr string | JArr "json list"
    | JObj "(string \<times> json) list"

text \<open>Compact output, as the serializer of the protocol writes it.\<close>

definition escape_len :: "char \<Rightarrow> nat" where
  "escape_len c =
     (let n = (of_char c :: nat) in
      if n \<in> {34, 92, 8, 9, 10, 12, 13} then 2 else if n < 32 then 6 else 1)"

definition quoted_len :: "string \<Rightarrow> nat" where
  "quoted_len s = 2 + sum_list (map escape_len s)"

fun digits_len :: "nat \<Rightarrow> nat" where
  "digits_len n = (if n < 10 then 1 else Suc (digits_len (n div 10)))"

declare digits_len.simps [simp del]

definition commas :: "'a list \<Rightarrow> nat" where
  "commas xs = length xs - 1"

definition js_null :: json where "js_null = Json 4 JNull"
definition js_bool :: "bool \<Rightarrow> json" where "js_bool b = Json (if b then 4 else 5) (JBool b)"
definition js_str :: "string \<Rightarrow> json" where "js_str s = Json (quoted_len s) (JStr s)"

definition js_uint :: "u64 \<Rightarrow> json" where
  "js_uint n = Json (digits_len (unat n)) (JNum (PosInt n))"

definition js_arr :: "json list \<Rightarrow> json" where
  "js_arr xs = Json (2 + sum_list (map src_len xs) + commas xs) (JArr xs)"

definition js_obj :: "(string \<times> json) list \<Rightarrow> json" where
  "js_obj kvs =
     Json (2 + sum_list (map (\<lambda>(k, v). quoted_len k + 1 + src_len v) kvs) + commas kvs) (JObj kvs)"

lemmas js_defs = js_null_def js_bool_def js_str_def js_uint_def js_arr_def js_obj_def

lemma body_js [simp]:
  "body js_null = JNull" "body (js_bool b) = JBool b" "body (js_str s) = JStr s"
  "body (js_uint n) = JNum (PosInt n)" "body (js_arr xs) = JArr xs" "body (js_obj kvs) = JObj kvs"
  by (simp_all add: js_defs)

section \<open>Primitive decoders\<close>

definition dec_str :: "json \<Rightarrow> string option" where
  "dec_str j = (case body j of JStr s \<Rightarrow> Some s | _ \<Rightarrow> None)"

definition dec_bool :: "json \<Rightarrow> bool option" where
  "dec_bool j = (case body j of JBool b \<Rightarrow> Some b | _ \<Rightarrow> None)"

definition dec_u64 :: "json \<Rightarrow> u64 option" where
  "dec_u64 j = (case body j of JNum (PosInt n) \<Rightarrow> Some n | _ \<Rightarrow> None)"

definition dec_u32 :: "json \<Rightarrow> u32 option" where
  "dec_u32 j = do { n \<leftarrow> dec_u64 j; if n < 2 ^ 32 then Some (ucast n) else None }"

definition dec_unit :: "json \<Rightarrow> unit option" where
  "dec_unit j = (if body j = JNull then Some () else None)"

text \<open>\<open>Option<T>\<close> of a present field.\<close>

definition dec_option :: "(json \<Rightarrow> 'a option) \<Rightarrow> json \<Rightarrow> 'a option option" where
  "dec_option d j = (if body j = JNull then Some None else map_option Some (d j))"

text \<open>
  A derived enum of unit variants: the tag as a string, or the one-entry object form
  \<open>{"tag": null}\<close> that the parser accepts for any enum.
\<close>

definition dec_unit_enum :: "(string \<times> 'a) list \<Rightarrow> json \<Rightarrow> 'a option" where
  "dec_unit_enum tags j = (case body j of
     JStr s \<Rightarrow> map_of tags s
   | JObj [(k, v)] \<Rightarrow> do { a \<leftarrow> map_of tags k; dec_unit v; Some a }
   | _ \<Rightarrow> None)"

lemma dec_js [simp]:
  "dec_str (js_str s) = Some s" "dec_bool (js_bool b) = Some b" "dec_u64 (js_uint n) = Some n"
  "dec_unit_enum tags (js_str s) = map_of tags s"
  by (simp_all add: dec_str_def dec_bool_def dec_u64_def dec_unit_enum_def)

section \<open>Derived structs\<close>

text \<open>
  A struct with \<open>deny_unknown_fields\<close>: the object form, where a field may come once and in any
  place, and the positional form that derived structs also accept. A specification lists the
  fields in order, each with whether the declaration gives it a default.
\<close>

type_synonym field_spec = "(string \<times> bool) list"

definition struct_fields :: "field_spec \<Rightarrow> json \<Rightarrow> (string \<Rightarrow> json option) option" where
  "struct_fields spec j = (case body j of
     JObj kvs \<Rightarrow>
       if distinct (map fst kvs) \<and> set (map fst kvs) \<subseteq> set (map fst spec)
       then Some (map_of kvs) else None
   | JArr xs \<Rightarrow>
       if length xs \<le> length spec \<and> (\<forall>(f, dflt) \<in> set (drop (length xs) spec). dflt)
       then Some (map_of (zip (map fst spec) xs)) else None
   | _ \<Rightarrow> None)"

definition field_req :: "(string \<Rightarrow> json option) \<Rightarrow> string \<Rightarrow> (json \<Rightarrow> 'a option) \<Rightarrow> 'a option" where
  "field_req m f d = Option.bind (m f) d"

text \<open>A field with a default.\<close>

definition field_default ::
    "(string \<Rightarrow> json option) \<Rightarrow> string \<Rightarrow> 'a \<Rightarrow> (json \<Rightarrow> 'a option) \<Rightarrow> 'a option" where
  "field_default m f dflt d = (case m f of None \<Rightarrow> Some dflt | Some j \<Rightarrow> d j)"

definition field_opt ::
    "(string \<Rightarrow> json option) \<Rightarrow> string \<Rightarrow> (json \<Rightarrow> 'a option) \<Rightarrow> 'a option option" where
  "field_opt m f d = field_default m f None (dec_option d)"

text \<open>\<open>skip_serializing_if = "Option::is_none"\<close>.\<close>

definition enc_opt :: "string \<Rightarrow> ('a \<Rightarrow> json) \<Rightarrow> 'a option \<Rightarrow> (string \<times> json) list" where
  "enc_opt f e x = (case x of None \<Rightarrow> [] | Some a \<Rightarrow> [(f, e a)])"

lemma enc_opt_simps [simp]: "enc_opt f e None = []" "enc_opt f e (Some a) = [(f, e a)]"
  by (simp_all add: enc_opt_def)

lemma struct_fields_js_obj [simp]:
  "struct_fields spec (js_obj kvs) =
    (if distinct (map fst kvs) \<and> set (map fst kvs) \<subseteq> set (map fst spec)
     then Some (map_of kvs) else None)"
  by (simp add: struct_fields_def)

text \<open>The order of the fields of an object does not matter to a derived struct.\<close>

lemma keys_mset_cong:
  assumes "mset kvs = mset kvs'"
  shows "distinct (map fst kvs) = distinct (map fst kvs')"
    and "set (map fst kvs) = set (map fst kvs')"
proof -
  have "mset (map fst kvs) = mset (map fst kvs')" using assms by simp
  then show "distinct (map fst kvs) = distinct (map fst kvs')"
    by (rule mset_eq_imp_distinct_iff)
  show "set (map fst kvs) = set (map fst kvs')"
    using mset_eq_setD [OF assms] by simp
qed

lemma map_of_mset_cong:
  assumes "mset kvs = mset kvs'" and "distinct (map fst kvs)"
  shows "map_of kvs = map_of kvs'"
proof -
  have "distinct (map fst kvs')" using keys_mset_cong(1) [OF assms(1)] assms(2) by blast
  then show ?thesis
    using assms(2) mset_eq_setD [OF assms(1)] by (simp add: map_of_inject_set)
qed

lemma struct_fields_perm:
  assumes "mset kvs = mset kvs'"
  shows "struct_fields spec (Json n (JObj kvs)) = struct_fields spec (Json n' (JObj kvs'))"
proof (cases "distinct (map fst kvs)")
  case True
  then have "map_of kvs = map_of kvs'" by (rule map_of_mset_cong [OF assms])
  then show ?thesis
    unfolding struct_fields_def json.sel jbody.case keys_mset_cong [OF assms] by simp
next
  case False
  then have "\<not> distinct (map fst kvs')" using keys_mset_cong(1) [OF assms] by blast
  with False show ?thesis by (simp add: struct_fields_def)
qed

section \<open>Bounded strings\<close>

datatype boundary_error =
    BoundaryEmpty string
  | BoundaryTooLong string nat nat
  | BoundaryTooMany string nat nat
  | BoundaryTooDeep u8 u8
  | BoundaryMalformedUuid string

definition validate_boundary_string ::
    "string \<Rightarrow> nat \<Rightarrow> string \<Rightarrow> bool \<Rightarrow> boundary_error + unit" where
  "validate_boundary_string v maximum_bytes label allow_empty =
     (if \<not> allow_empty \<and> v = [] then Inl (BoundaryEmpty label)
      else if length v > maximum_bytes
      then Inl (BoundaryTooLong label (length v) maximum_bytes)
      else Inr ())"

text \<open>The macro \<open>bounded_string_newtype\<close>: what a newtype is, its constructor and its decoder.\<close>

record string_newtype =
  st_maximum :: nat
  st_label :: string
  st_allow_empty :: bool

definition bounded_try_from :: "string_newtype \<Rightarrow> string \<Rightarrow> boundary_error + string" where
  "bounded_try_from t v =
     and_then (validate_boundary_string v (st_maximum t) (st_label t) (st_allow_empty t))
       (\<lambda>_. Inr v)"

definition bounded_deserialize :: "string_newtype \<Rightarrow> json \<Rightarrow> string option" where
  "bounded_deserialize t j =
     do { s \<leftarrow> dec_str j;
          case bounded_try_from t s of Inr v \<Rightarrow> Some v | Inl e \<Rightarrow> None }"

definition REQUEST_ID :: string_newtype where
  "REQUEST_ID = \<lparr>st_maximum = MAX_IDENTIFIER_BYTES, st_label = ''plugin request identifier'',
     st_allow_empty = False\<rparr>"
definition NODE_ID :: string_newtype where
  "NODE_ID = \<lparr>st_maximum = MAX_IDENTIFIER_BYTES, st_label = ''node identifier'',
     st_allow_empty = False\<rparr>"
definition PAGE_ID :: string_newtype where
  "PAGE_ID = \<lparr>st_maximum = MAX_IDENTIFIER_BYTES, st_label = ''page identifier'',
     st_allow_empty = False\<rparr>"
definition NODE_TYPE_NAME :: string_newtype where
  "NODE_TYPE_NAME = \<lparr>st_maximum = MAX_IDENTIFIER_BYTES, st_label = ''node type name'',
     st_allow_empty = False\<rparr>"
definition FILE_KEY :: string_newtype where
  "FILE_KEY = \<lparr>st_maximum = MAX_IDENTIFIER_BYTES, st_label = ''file key'',
     st_allow_empty = False\<rparr>"
definition PROTOCOL_VERSION :: string_newtype where
  "PROTOCOL_VERSION = \<lparr>st_maximum = MAX_IDENTIFIER_BYTES, st_label = ''protocol version'',
     st_allow_empty = False\<rparr>"
definition ITEM_IDENTIFIER :: string_newtype where
  "ITEM_IDENTIFIER = \<lparr>st_maximum = MAX_IDENTIFIER_BYTES, st_label = ''item identifier'',
     st_allow_empty = False\<rparr>"
definition QUERY_TEXT :: string_newtype where
  "QUERY_TEXT = \<lparr>st_maximum = MAX_QUERY_BYTES, st_label = ''query text'', st_allow_empty = True\<rparr>"
definition SEARCH_CURSOR :: string_newtype where
  "SEARCH_CURSOR = \<lparr>st_maximum = MAX_SEARCH_CURSOR_BYTES, st_label = ''opaque search cursor'',
     st_allow_empty = False\<rparr>"
definition DISPLAY_TEXT :: string_newtype where
  "DISPLAY_TEXT = \<lparr>st_maximum = MAX_DISPLAY_TEXT_BYTES, st_label = ''display text'',
     st_allow_empty = True\<rparr>"
definition RASTER_BASE64 :: string_newtype where
  "RASTER_BASE64 = \<lparr>st_maximum = MAX_RASTER_BASE64_BYTES, st_label = ''raster base64 payload'',
     st_allow_empty = True\<rparr>"
definition SVG_SOURCE :: string_newtype where
  "SVG_SOURCE = \<lparr>st_maximum = MAX_SVG_BYTES, st_label = ''SVG source'', st_allow_empty = True\<rparr>"
definition SVG_REJECTION_NAME :: string_newtype where
  "SVG_REJECTION_NAME = \<lparr>st_maximum = MAX_IDENTIFIER_BYTES,
     st_label = ''SVG element or attribute local name'', st_allow_empty = False\<rparr>"

lemmas newtype_defs [model_defs] =
  REQUEST_ID_def NODE_ID_def PAGE_ID_def NODE_TYPE_NAME_def FILE_KEY_def PROTOCOL_VERSION_def
  ITEM_IDENTIFIER_def QUERY_TEXT_def SEARCH_CURSOR_def DISPLAY_TEXT_def RASTER_BASE64_def
  SVG_SOURCE_def SVG_REJECTION_NAME_def

text \<open>The values a newtype can hold.\<close>

definition bounded_ok :: "string_newtype \<Rightarrow> string \<Rightarrow> bool" where
  "bounded_ok t s \<longleftrightarrow> (st_allow_empty t \<or> s \<noteq> []) \<and> length s \<le> st_maximum t"

lemma bounded_try_from_iff [simp]:
  "bounded_try_from t s = Inr v \<longleftrightarrow> v = s \<and> bounded_ok t s"
  by (auto simp: bounded_try_from_def validate_boundary_string_def bounded_ok_def)

lemma bounded_deserialize_iff:
  "bounded_deserialize t j = Some v \<longleftrightarrow> body j = JStr v \<and> bounded_ok t v"
  by (auto simp: bounded_deserialize_def dec_str_def split: jbody.splits sum.splits)
    (metis Inl_Inr_False bounded_try_from_iff)+

lemma bounded_deserialize_js [simp]:
  "bounded_ok t v \<Longrightarrow> bounded_deserialize t (js_str v) = Some v"
  by (simp add: bounded_deserialize_iff)

section \<open>Bounded lists\<close>

text \<open>
  The sequence visitor: at most \<open>n\<close> elements are decoded, and one more element of any shape
  is an error.
\<close>

fun visit_seq :: "(json \<Rightarrow> 'a option) \<Rightarrow> nat \<Rightarrow> json list \<Rightarrow> 'a list option" where
  "visit_seq d n [] = Some []"
| "visit_seq d 0 (x # xs) = None"
| "visit_seq d (Suc n) (x # xs) = do { y \<leftarrow> d x; ys \<leftarrow> visit_seq d n xs; Some (y # ys) }"

definition dec_bounded_list :: "nat \<Rightarrow> (json \<Rightarrow> 'a option) \<Rightarrow> json \<Rightarrow> 'a list option" where
  "dec_bounded_list maximum_items d j =
     (case body j of JArr xs \<Rightarrow> visit_seq d maximum_items xs | _ \<Rightarrow> None)"

definition bounded_list_try_from :: "nat \<Rightarrow> string \<Rightarrow> 'a list \<Rightarrow> boundary_error + 'a list" where
  "bounded_list_try_from maximum label values =
     (if length values > maximum
      then Inl (BoundaryTooMany label (length values) maximum)
      else Inr values)"

lemma visit_seq_iff:
  "visit_seq d n xs = Some ys \<longleftrightarrow> length xs \<le> n \<and> map d xs = map Some ys"
proof (induction d n xs arbitrary: ys rule: visit_seq.induct)
  case (3 d n x xs)
  then show ?case by (cases ys) (auto simp: bind_eq_Some_conv)
qed auto

lemma visit_seq_map [simp]:
  assumes "length ys \<le> n" and "\<And>y. y \<in> set ys \<Longrightarrow> d (e y) = Some y"
  shows "visit_seq d n (map e ys) = Some ys"
  using assms by (simp add: visit_seq_iff)

end
