(* ===== verification/Deferred.thy ===== *)
theory Deferred
  imports Json
begin

text \<open>
  Bounded raw deferral (\<open>crates/protocol/src/deferred.rs\<close>): a visitor that must know the tag of a
  message before it can decode the other fields keeps those as raw text, writes them out again as
  one object, and decodes that. The running estimate of the object's size is what bounds it.
\<close>

record deferred_object =
  do_fields :: "(string \<times> json) list"
  do_encoded_bytes :: nat

datatype deferred_error = DuplicateField string | LengthOverflow | ExceedsEnvelope

definition field_cost :: "nat \<Rightarrow> nat \<Rightarrow> bool \<Rightarrow> nat" where
  "field_cost name_len value_len is_first =
     (let separator = (if is_first then 0 else 1) in name_len + 3 + value_len + separator)"

definition deferred_new :: deferred_object where
  "deferred_new = \<lparr>do_fields = [], do_encoded_bytes = 2\<rparr>"

definition checked_add :: "nat \<Rightarrow> nat \<Rightarrow> nat option" where
  "checked_add a b = (if a + b < 2 ^ 64 then Some (a + b) else None)"

definition deferred_insert ::
    "string \<Rightarrow> json \<Rightarrow> deferred_object \<Rightarrow> deferred_error + deferred_object" where
  "deferred_insert name value obj =
     (if \<exists>f \<in> set (do_fields obj). fst f = name then Inl (DuplicateField name)
      else
        let cost = field_cost (length name) (src_len value) (do_fields obj = []) in
        and_then (ok_or LengthOverflow (checked_add (do_encoded_bytes obj) cost)) (\<lambda>next.
        if next > MAX_ENVELOPE_BYTES then Inl ExceedsEnvelope
        else Inr (obj\<lparr>do_encoded_bytes := next, do_fields := do_fields obj @ [(name, value)]\<rparr>)))"

text \<open>
  The bytes \<open>decode\<close> pushes, counted push by push: the opening brace, for every field but the
  first a comma, the quoted name with its colon, the raw value, and the closing brace.
\<close>

definition pushed_len :: "nat \<times> (string \<times> json) \<Rightarrow> nat" where
  "pushed_len = (\<lambda>(index, name, value).
     (if index \<noteq> 0 then 1 else 0) + 1 + length name + 2 + src_len value)"

definition deferred_encoded :: "deferred_object \<Rightarrow> json" where
  "deferred_encoded obj =
     Json (1 + sum_list (map pushed_len (enumerate 0 (do_fields obj))) + 1) (JObj (do_fields obj))"

definition deferred_decode :: "(json \<Rightarrow> 'a option) \<Rightarrow> deferred_object \<Rightarrow> 'a option" where
  "deferred_decode d obj =
     (let encoded = deferred_encoded obj in
      if src_len encoded > MAX_ENVELOPE_BYTES then None else d encoded)"

definition decode_raw :: "(json \<Rightarrow> 'a option) \<Rightarrow> json \<Rightarrow> 'a option" where
  "decode_raw d raw = (if src_len raw > MAX_ENVELOPE_BYTES then None else d raw)"

section \<open>The estimate\<close>

definition deferred_ok :: "deferred_object \<Rightarrow> bool" where
  "deferred_ok obj \<longleftrightarrow>
     do_encoded_bytes obj = src_len (deferred_encoded obj) \<and>
     do_encoded_bytes obj \<le> MAX_ENVELOPE_BYTES \<and> distinct (map fst (do_fields obj))"

lemma deferred_new_ok [simp]: "deferred_ok deferred_new"
  by (simp add: deferred_ok_def deferred_new_def deferred_encoded_def limit_defs)

lemma deferred_insert_ok:
  assumes "deferred_ok obj" and "deferred_insert name value obj = Inr obj'"
  shows "deferred_ok obj'"
  using assms
  by (auto simp: deferred_ok_def deferred_insert_def deferred_encoded_def field_cost_def
      pushed_len_def enumerate_append_eq Let_def and_then_Inr_iff checked_add_def
      split: if_splits)

fun insert_all :: "(string \<times> json) list \<Rightarrow> deferred_object \<Rightarrow> deferred_error + deferred_object" where
  "insert_all [] obj = Inr obj"
| "insert_all ((name, value) # kvs) obj =
     and_then (deferred_insert name value obj) (insert_all kvs)"

lemma insert_all_ok:
  "deferred_ok obj \<Longrightarrow> insert_all kvs obj = Inr obj' \<Longrightarrow>
     deferred_ok obj' \<and> do_fields obj' = do_fields obj @ kvs"
proof (induction kvs obj rule: insert_all.induct)
  case (2 name raw kvs obj)
  then obtain obj'' where *: "deferred_insert name raw obj = Inr obj''"
    and "insert_all kvs obj'' = Inr obj'"
    by (auto simp: and_then_Inr_iff)
  with 2 have "deferred_ok obj' \<and> do_fields obj' = do_fields obj'' @ kvs"
    using deferred_insert_ok by blast
  then show ?case
    using * by (auto simp: deferred_insert_def Let_def and_then_Inr_iff split: if_splits)
qed simp

text \<open>The bytes a list of fields needs: what the source of an object that holds them has at least.\<close>

definition fields_need :: "(string \<times> json) list \<Rightarrow> nat" where
  "fields_need kvs = sum_list (map (\<lambda>(k, v). length k + 4 + src_len v) kvs)"

lemma fields_need_simps [simp]:
  "fields_need [] = 0" "fields_need (kv # kvs) = length (fst kv) + 4 + src_len (snd kv) + fields_need kvs"
  "fields_need (kvs @ kvs') = fields_need kvs + fields_need kvs'"
  by (simp_all add: fields_need_def split: prod.split)

text \<open>
  Inserting succeeds for every list of distinct names that fits: the only refusals are a name
  that comes twice and an object too large.
\<close>

lemma deferred_len_le:
  "do_fields obj \<noteq> [] \<Longrightarrow>
     src_len (deferred_encoded obj) = 1 + fields_need (do_fields obj)"
proof -
  have "sum_list (map pushed_len (enumerate n kvs)) = fields_need kvs" if "0 < n" for n kvs
    using that by (induction kvs arbitrary: n) (auto simp: pushed_len_def)
  then show "do_fields obj \<noteq> [] \<Longrightarrow> ?thesis"
    by (cases "do_fields obj") (auto simp: deferred_encoded_def pushed_len_def)
qed

lemma insert_all_fits:
  assumes "deferred_ok obj" and "distinct (map fst (do_fields obj @ kvs))"
    and "1 + fields_need (do_fields obj @ kvs) \<le> MAX_ENVELOPE_BYTES"
  shows "\<exists>obj'. insert_all kvs obj = Inr obj' \<and> deferred_ok obj' \<and>
    do_fields obj' = do_fields obj @ kvs"
  using assms
proof (induction kvs arbitrary: obj)
  case Nil
  then show ?case by simp
next
  case (Cons kv kvs)
  obtain name raw where kv: "kv = (name, raw)" by (cases kv)
  let ?obj = "obj\<lparr>do_encoded_bytes := do_encoded_bytes obj +
                field_cost (length name) (src_len raw) (do_fields obj = []),
              do_fields := do_fields obj @ [(name, raw)]\<rparr>"
  have bytes: "do_encoded_bytes obj \<le> 1 + fields_need (do_fields obj) + (if do_fields obj = [] then 1 else 0)"
    using Cons.prems(1) deferred_len_le [of obj]
    by (cases "do_fields obj = []") (auto simp: deferred_ok_def deferred_encoded_def)
  then have le: "do_encoded_bytes obj + field_cost (length name) (src_len raw) (do_fields obj = [])
      \<le> MAX_ENVELOPE_BYTES"
    using Cons.prems(3) by (auto simp: field_cost_def kv)
  then have ins: "deferred_insert name raw obj = Inr ?obj"
    using Cons.prems(2)
    by (auto simp: deferred_insert_def Let_def kv checked_add_def limit_defs image_iff)
  then have ok: "deferred_ok ?obj" using Cons.prems(1) deferred_insert_ok by blast
  have "\<exists>obj'. insert_all kvs ?obj = Inr obj' \<and> deferred_ok obj' \<and>
      do_fields obj' = do_fields ?obj @ kvs"
    using Cons.prems(2,3) by (intro Cons.IH ok) (auto simp: kv)
  then show ?case by (simp add: kv ins)
qed

section \<open>Properties\<close>

text \<open>
  The estimate that the insertions add up is exactly the number of bytes that decoding writes,
  it never passes the envelope limit, and so the second size check, in the decoder, never fires
  on an object that was built by insertions.
\<close>

theorem deferred_estimate_exact:
  assumes "insert_all kvs deferred_new = Inr obj"
  shows "do_encoded_bytes obj = src_len (deferred_encoded obj)
    \<and> do_encoded_bytes obj \<le> MAX_ENVELOPE_BYTES
    \<and> deferred_decode d obj = d (Json (do_encoded_bytes obj) (JObj kvs))"
proof -
  have ok: "deferred_ok obj" "do_fields obj = kvs"
    using insert_all_ok [OF deferred_new_ok assms] by (simp_all add: deferred_new_def)
  have "deferred_encoded obj = Json (do_encoded_bytes obj) (JObj kvs)"
    using ok by (cases "deferred_encoded obj") (auto simp: deferred_ok_def deferred_encoded_def)
  then show ?thesis
    using ok(1) by (auto simp: deferred_ok_def deferred_decode_def Let_def)
qed

definition two_fields :: "(string \<times> json) list" where
  "two_fields = [(''nonce'', js_uint 7), (''completed'', js_uint 12)]"

theorem deferred_estimate_exact_witness:
  "\<exists>obj. insert_all two_fields deferred_new = Inr obj \<and> do_encoded_bytes obj = 26
     \<and> deferred_decode Some obj = Some (Json 26 (JObj two_fields))"
proof -
  let ?obj = "\<lparr>do_fields = two_fields, do_encoded_bytes = 26\<rparr>"
  have ins: "insert_all two_fields deferred_new = Inr ?obj"
    by (simp add: two_fields_def deferred_new_def deferred_insert_def field_cost_def Let_def
        js_uint_def digits_len.simps checked_add_def limit_defs)
  show ?thesis using deferred_estimate_exact [OF ins, of Some] ins by auto
qed

end
