(* ===== verification/Errors.thy ===== *)
theory Errors
  imports Json
begin

text \<open>
  The stable errors that cross a boundary (\<open>crates/protocol/src/error.rs\<close>): the closed set of
  codes with one canonical message each, item and tool errors with their wire form, and the
  message-free failure a plugin may report.
\<close>

section \<open>Codes\<close>

datatype error_code =
    NoFigmaConnection | AmbiguousConnection | ConnectionNotFound | ConnectionLost
  | ProtocolMismatch | NodeNotFound | NodeNotVisible | PageNotFound | UnsupportedNode
  | EmptyNodeBounds | CapabilityUnavailable | UnsafeSvg | InvalidCursor | LimitExceeded
  | Timeout | Cancelled | InternalError

definition ALL_CODES :: "error_code list" where
  "ALL_CODES =
     [NoFigmaConnection, AmbiguousConnection, ConnectionNotFound, ConnectionLost,
      ProtocolMismatch, NodeNotFound, NodeNotVisible, PageNotFound, UnsupportedNode,
      EmptyNodeBounds, CapabilityUnavailable, UnsafeSvg, InvalidCursor, LimitExceeded,
      Timeout, Cancelled, InternalError]"

text \<open>The derived wire name: \<open>rename_all = "SCREAMING_SNAKE_CASE"\<close>.\<close>

fun code_name :: "error_code \<Rightarrow> string" where
  "code_name NoFigmaConnection = ''NO_FIGMA_CONNECTION''"
| "code_name AmbiguousConnection = ''AMBIGUOUS_CONNECTION''"
| "code_name ConnectionNotFound = ''CONNECTION_NOT_FOUND''"
| "code_name ConnectionLost = ''CONNECTION_LOST''"
| "code_name ProtocolMismatch = ''PROTOCOL_MISMATCH''"
| "code_name NodeNotFound = ''NODE_NOT_FOUND''"
| "code_name NodeNotVisible = ''NODE_NOT_VISIBLE''"
| "code_name PageNotFound = ''PAGE_NOT_FOUND''"
| "code_name UnsupportedNode = ''UNSUPPORTED_NODE''"
| "code_name EmptyNodeBounds = ''EMPTY_NODE_BOUNDS''"
| "code_name CapabilityUnavailable = ''CAPABILITY_UNAVAILABLE''"
| "code_name UnsafeSvg = ''UNSAFE_SVG''"
| "code_name InvalidCursor = ''INVALID_CURSOR''"
| "code_name LimitExceeded = ''LIMIT_EXCEEDED''"
| "code_name Timeout = ''TIMEOUT''"
| "code_name Cancelled = ''CANCELLED''"
| "code_name InternalError = ''INTERNAL_ERROR''"

fun canonical_message :: "error_code \<Rightarrow> string" where
  "canonical_message NoFigmaConnection = ''No Figma connection is available.''"
| "canonical_message AmbiguousConnection =
     ''More than one Figma connection matches the request.''"
| "canonical_message ConnectionNotFound = ''The requested Figma connection was not found.''"
| "canonical_message ConnectionLost = ''The Figma connection was lost.''"
| "canonical_message ProtocolMismatch = ''The plugin protocol version is not supported.''"
| "canonical_message NodeNotFound = ''The requested node was not found.''"
| "canonical_message NodeNotVisible =
     ''The requested node exists but is switched off, so it renders nothing.''"
| "canonical_message PageNotFound = ''The requested page was not found.''"
| "canonical_message UnsupportedNode = ''The requested node type is not supported.''"
| "canonical_message EmptyNodeBounds = ''The requested node renders nothing.''"
| "canonical_message CapabilityUnavailable = ''The required Figma capability is unavailable.''"
| "canonical_message UnsafeSvg = ''The SVG was rejected by the safety policy.''"
| "canonical_message InvalidCursor = ''The search cursor is invalid or stale.''"
| "canonical_message LimitExceeded = ''The operation exceeded a safety limit.''"
| "canonical_message Timeout = ''The operation timed out.''"
| "canonical_message Cancelled = ''The operation was cancelled.''"
| "canonical_message InternalError = ''The operation failed.''"

definition code_tags :: "(string \<times> error_code) list" where
  "code_tags = map (\<lambda>c. (code_name c, c)) ALL_CODES"

definition enc_code :: "error_code \<Rightarrow> json" where
  "enc_code c = js_str (code_name c)"

definition dec_code :: "json \<Rightarrow> error_code option" where
  "dec_code = dec_unit_enum code_tags"

lemma map_of_code_tags [simp]: "map_of code_tags (code_name c) = Some c"
  by (cases c) (simp_all add: code_tags_def ALL_CODES_def)

lemma dec_enc_code [simp]: "dec_code (enc_code c) = Some c"
  by (simp add: dec_code_def enc_code_def)

lemma canonical_message_bounded [simp]: "bounded_ok DISPLAY_TEXT (canonical_message c)"
  by (cases c) (simp_all add: bounded_ok_def newtype_defs limit_defs)

section \<open>Item and tool errors\<close>

record item_error =
  ie_index :: u64
  ie_id :: "string option"
  ie_code :: error_code
  ie_retryable :: bool

record tool_error =
  te_code :: error_code
  te_retryable :: bool
  te_items :: "item_error list option"

definition item_error_new :: "u64 \<Rightarrow> string option \<Rightarrow> error_code \<Rightarrow> bool \<Rightarrow> item_error" where
  "item_error_new index ident code retryable =
     \<lparr>ie_index = index, ie_id = ident, ie_code = code, ie_retryable = retryable\<rparr>"

definition tool_error_new :: "error_code \<Rightarrow> bool \<Rightarrow> tool_error" where
  "tool_error_new code retryable =
     \<lparr>te_code = code, te_retryable = retryable, te_items = None\<rparr>"

definition validate_item_count :: "nat \<Rightarrow> boundary_error + unit" where
  "validate_item_count n =
     (if n > MAX_INPUT_IDS
      then Inl (BoundaryTooMany ''error items'' n MAX_INPUT_IDS)
      else Inr ())"

definition tool_error_with_items ::
    "tool_error \<Rightarrow> item_error list \<Rightarrow> boundary_error + tool_error" where
  "tool_error_with_items e items =
     and_then (validate_item_count (length items)) (\<lambda>_. Inr (e\<lparr>te_items := Some items\<rparr>))"

definition enc_item_error :: "item_error \<Rightarrow> json" where
  "enc_item_error e = js_obj
     ([(''index'', js_uint (ie_index e))]
      @ enc_opt ''id'' js_str (ie_id e)
      @ [(''code'', enc_code (ie_code e)),
         (''message'', js_str (canonical_message (ie_code e))),
         (''retryable'', js_bool (ie_retryable e))])"

definition dec_item_error :: "json \<Rightarrow> item_error option" where
  "dec_item_error j =
     do { m \<leftarrow> struct_fields [(''index'', False), (''id'', True), (''code'', False),
                               (''message'', False), (''retryable'', False)] j;
          index \<leftarrow> field_req m ''index'' dec_u64;
          ident \<leftarrow> field_opt m ''id'' (bounded_deserialize ITEM_IDENTIFIER);
          code \<leftarrow> field_req m ''code'' dec_code;
          message \<leftarrow> field_req m ''message'' (bounded_deserialize DISPLAY_TEXT);
          retryable \<leftarrow> field_req m ''retryable'' dec_bool;
          if message \<noteq> canonical_message code then None
          else Some (item_error_new index ident code retryable) }"

definition enc_tool_error :: "tool_error \<Rightarrow> json" where
  "enc_tool_error e = js_obj
     ([(''code'', enc_code (te_code e)),
       (''message'', js_str (canonical_message (te_code e))),
       (''retryable'', js_bool (te_retryable e))]
      @ enc_opt ''items'' (\<lambda>items. js_arr (map enc_item_error items)) (te_items e))"

text \<open>The list of items of a failure, whose visitor is generic in the item; it may be absent or null.\<close>

definition dec_error_items :: "(json \<Rightarrow> 'a option) \<Rightarrow> json \<Rightarrow> 'a list option" where
  "dec_error_items d = dec_bounded_list MAX_INPUT_IDS d"

definition dec_tool_error :: "json \<Rightarrow> tool_error option" where
  "dec_tool_error j =
     do { m \<leftarrow> struct_fields [(''code'', False), (''message'', False),
                               (''retryable'', False), (''items'', True)] j;
          code \<leftarrow> field_req m ''code'' dec_code;
          message \<leftarrow> field_req m ''message'' (bounded_deserialize DISPLAY_TEXT);
          retryable \<leftarrow> field_req m ''retryable'' dec_bool;
          items \<leftarrow> field_opt m ''items'' (dec_error_items dec_item_error);
          if message \<noteq> canonical_message code then None
          else Some \<lparr>te_code = code, te_retryable = retryable, te_items = items\<rparr> }"

section \<open>Plugin failures\<close>

record plugin_item_failure =
  pif_index :: u64
  pif_id :: "string option"
  pif_code :: error_code
  pif_retryable :: bool

record plugin_failure =
  pf_code :: error_code
  pf_retryable :: bool
  pf_items :: "plugin_item_failure list option"

definition enc_plugin_item_failure :: "plugin_item_failure \<Rightarrow> json" where
  "enc_plugin_item_failure e = js_obj
     ([(''index'', js_uint (pif_index e))]
      @ enc_opt ''id'' js_str (pif_id e)
      @ [(''code'', enc_code (pif_code e)), (''retryable'', js_bool (pif_retryable e))])"

definition dec_plugin_item_failure :: "json \<Rightarrow> plugin_item_failure option" where
  "dec_plugin_item_failure j =
     do { m \<leftarrow> struct_fields [(''index'', False), (''id'', True), (''code'', False),
                               (''retryable'', False)] j;
          index \<leftarrow> field_req m ''index'' dec_u64;
          ident \<leftarrow> field_opt m ''id'' (bounded_deserialize ITEM_IDENTIFIER);
          code \<leftarrow> field_req m ''code'' dec_code;
          retryable \<leftarrow> field_req m ''retryable'' dec_bool;
          Some \<lparr>pif_index = index, pif_id = ident, pif_code = code, pif_retryable = retryable\<rparr> }"

definition enc_plugin_failure :: "plugin_failure \<Rightarrow> json" where
  "enc_plugin_failure e = js_obj
     ([(''code'', enc_code (pf_code e)), (''retryable'', js_bool (pf_retryable e))]
      @ enc_opt ''items'' (\<lambda>items. js_arr (map enc_plugin_item_failure items)) (pf_items e))"

definition dec_plugin_failure :: "json \<Rightarrow> plugin_failure option" where
  "dec_plugin_failure j =
     do { m \<leftarrow> struct_fields [(''code'', False), (''retryable'', False), (''items'', True)] j;
          code \<leftarrow> field_req m ''code'' dec_code;
          retryable \<leftarrow> field_req m ''retryable'' dec_bool;
          items \<leftarrow> field_opt m ''items'' (dec_error_items dec_plugin_item_failure);
          Some \<lparr>pf_code = code, pf_retryable = retryable, pf_items = items\<rparr> }"

definition tool_error_from :: "plugin_failure \<Rightarrow> tool_error" where
  "tool_error_from failure =
     \<lparr>te_code = pf_code failure, te_retryable = pf_retryable failure,
      te_items = map_option
        (map (\<lambda>item. item_error_new (pif_index item) (pif_id item) (pif_code item)
                      (pif_retryable item)))
        (pf_items failure)\<rparr>"

section \<open>The wire forms\<close>

text \<open>What the constructors of the code can build.\<close>

definition item_error_ok :: "item_error \<Rightarrow> bool" where
  "item_error_ok e \<longleftrightarrow> pred_option (bounded_ok ITEM_IDENTIFIER) (ie_id e)"

definition tool_error_ok :: "tool_error \<Rightarrow> bool" where
  "tool_error_ok e \<longleftrightarrow>
     pred_option (\<lambda>items. length items \<le> MAX_INPUT_IDS \<and> list_all item_error_ok items) (te_items e)"

lemma tool_error_new_ok [simp]: "tool_error_ok (tool_error_new c r)"
  by (simp add: tool_error_ok_def tool_error_new_def)

lemma tool_error_new_simps [simp]:
  "te_code (tool_error_new c r) = c" "te_retryable (tool_error_new c r) = r"
  by (simp_all add: tool_error_new_def)

lemmas field_defs = field_req_def field_opt_def field_default_def dec_option_def

lemma dec_enc_item_error:
  assumes "item_error_ok e"
  shows "dec_item_error (enc_item_error e) = Some e"
  using assms
  by (cases e; cases "ie_id e")
    (simp_all add: dec_item_error_def enc_item_error_def field_defs item_error_ok_def
      item_error_new_def)

lemma dec_enc_tool_error:
  assumes "tool_error_ok e"
  shows "dec_tool_error (enc_tool_error e) = Some e"
proof -
  have items: "visit_seq dec_item_error MAX_INPUT_IDS (map enc_item_error items) = Some items"
    if "te_items e = Some items" for items
    using assms that
    by (intro visit_seq_map) (auto simp: tool_error_ok_def list_all_iff dec_enc_item_error)
  show ?thesis
    using items
    by (cases e; cases "te_items e")
      (simp_all add: dec_tool_error_def enc_tool_error_def field_defs dec_error_items_def dec_bounded_list_def)
qed

lemma dec_item_error_ok:
  "dec_item_error j = Some e \<Longrightarrow> item_error_ok e"
  by (auto simp: dec_item_error_def bind_eq_Some_conv field_defs item_error_ok_def
      item_error_new_def bounded_deserialize_iff split: if_splits option.splits)

lemma dec_tool_error_ok:
  assumes "dec_tool_error j = Some e"
  shows "tool_error_ok e"
proof (cases "te_items e")
  case None
  then show ?thesis by (simp add: tool_error_ok_def)
next
  case (Some items)
  then obtain xs where "visit_seq dec_item_error MAX_INPUT_IDS xs = Some items"
    using assms
    by (auto simp: dec_tool_error_def bind_eq_Some_conv field_defs dec_error_items_def dec_bounded_list_def
        split: if_splits option.splits jbody.splits)
  then have "length xs \<le> MAX_INPUT_IDS" "map dec_item_error xs = map Some items"
    by (simp_all add: visit_seq_iff)
  moreover from this have "length items \<le> MAX_INPUT_IDS" by (metis length_map)
  moreover have "item_error_ok i" if "i \<in> set items" for i
  proof -
    have "Some i \<in> set (map dec_item_error xs)" using that calculation(2) by simp
    then show ?thesis by (auto dest: dec_item_error_ok [OF sym])
  qed
  ultimately show ?thesis using Some by (simp add: tool_error_ok_def list_all_iff)
qed

section \<open>Properties\<close>

text \<open>
  C39. The wire form of a tool error is exact: what the code can build decodes back to itself,
  and whatever decodes is something the code could have built (at most 2000 items, each with an
  identifier within its bounds).
\<close>

theorem tool_error_roundtrip:
  "(tool_error_ok e \<longrightarrow> dec_tool_error (enc_tool_error e) = Some e)
    \<and> (dec_tool_error j = Some e \<longrightarrow> tool_error_ok e)"
  using dec_enc_tool_error dec_tool_error_ok by blast

theorem tool_error_roundtrip_witness:
  "dec_tool_error (enc_tool_error (tool_error_new Timeout True)) = Some (tool_error_new Timeout True)"
  using tool_error_roundtrip [of "tool_error_new Timeout True" js_null] by simp

text \<open>
  The canonical messages are closed: a decoded error always carries, in its message field,
  the one message of its code, different codes have different messages and names, and every
  code is in the list that tests sweep, once.
\<close>

theorem canonical_messages_closed:
  "(dec_tool_error (Json n (JObj kvs)) = Some e \<longrightarrow>
      (\<exists>l. map_of kvs ''message'' = Some (Json l (JStr (canonical_message (te_code e))))))
    \<and> inj canonical_message \<and> inj code_name \<and> distinct ALL_CODES \<and> set ALL_CODES = UNIV"
proof (intro conjI impI)
  assume "dec_tool_error (Json n (JObj kvs)) = Some e"
  then obtain j where "map_of kvs ''message'' = Some j"
    and "bounded_deserialize DISPLAY_TEXT j = Some (canonical_message (te_code e))"
    by (auto simp: dec_tool_error_def bind_eq_Some_conv field_req_def struct_fields_def
        split: if_splits)
  then show "\<exists>l. map_of kvs ''message'' = Some (Json l (JStr (canonical_message (te_code e))))"
    by (cases j) (auto simp: bounded_deserialize_iff)
next
  show "inj code_name" by (rule inj_on_inverseI [of _ "\<lambda>s. the (map_of code_tags s)"]) simp
next
  define tags where "tags = map (\<lambda>c. (canonical_message c, c)) ALL_CODES"
  have "map_of tags (canonical_message c) = Some c" for c
    by (cases c) (simp_all add: tags_def ALL_CODES_def)
  then show "inj canonical_message"
    by (intro inj_on_inverseI [of _ "\<lambda>s. the (map_of tags s)"]) simp
next
  show "distinct ALL_CODES" by (simp add: ALL_CODES_def)
next
  show "set ALL_CODES = UNIV"
  proof (intro equalityI subsetI UNIV_I)
    fix c :: error_code
    show "c \<in> set ALL_CODES" by (cases c) (simp_all add: ALL_CODES_def)
  qed
qed

theorem canonical_messages_closed_witness:
  "distinct ALL_CODES \<and> canonical_message Timeout \<noteq> canonical_message Cancelled"
  using canonical_messages_closed [of 4 "[]" "tool_error_new Timeout True"]
  by (simp add: inj_eq)

end
