(* ===== verification/Identifiers.thy ===== *)
theory Identifiers
  imports Json
begin

text \<open>
  Identifiers and small shared values of the domain (\<open>crates/protocol/src/domain/common.rs\<close>): the
  canonical connection identifier, bounded identifier lists, the selector union with its visitor,
  and the bounded numbers of an input. Parsing and printing a UUID is the \<open>uuid\<close> crate's: the
  argument \<open>hyphenated\<close> stands for \<open>Uuid::parse_str\<close> followed by \<open>hyphenated().to_string()\<close>.
\<close>

section \<open>Connection identifiers\<close>

definition byte_in :: "char \<Rightarrow> char \<Rightarrow> char \<Rightarrow> bool" where
  "byte_in a b c \<longleftrightarrow> (of_char a :: nat) \<le> of_char c \<and> (of_char c :: nat) \<le> of_char b"

definition is_ascii_hexdigit :: "char \<Rightarrow> bool" where
  "is_ascii_hexdigit c \<longleftrightarrow>
     byte_in CHR ''0'' CHR ''9'' c \<or> byte_in CHR ''a'' CHR ''f'' c \<or> byte_in CHR ''A'' CHR ''F'' c"

definition byte_at :: "string \<Rightarrow> nat \<Rightarrow> char option" where
  "byte_at s i = (if i < length s then Some (s ! i) else None)"

definition is_canonical_rfc4122_uuid :: "string \<Rightarrow> bool" where
  "is_canonical_rfc4122_uuid v =
     (if length v \<noteq> 36
         \<or> byte_at v 8 \<noteq> Some CHR ''-''
         \<or> byte_at v 13 \<noteq> Some CHR ''-''
         \<or> byte_at v 18 \<noteq> Some CHR ''-''
         \<or> byte_at v 23 \<noteq> Some CHR ''-''
      then False
      else if list_ex (\<lambda>(index, byte). index \<notin> {8, 13, 18, 23} \<and> \<not> is_ascii_hexdigit byte)
                (enumerate 0 v)
      then False
      else byte_in CHR ''1'' CHR ''8'' (v ! 14) \<and> v ! 19 \<in> set ''89abAB'')"

definition connection_id_try_from ::
    "(string \<Rightarrow> string option) \<Rightarrow> string \<Rightarrow> boundary_error + string" where
  "connection_id_try_from hyphenated v =
     and_then (validate_boundary_string v MAX_IDENTIFIER_BYTES ''connection identifier'' False) (\<lambda>_.
     if \<not> is_canonical_rfc4122_uuid v
     then Inl (BoundaryMalformedUuid ''connection identifier'')
     else ok_or (BoundaryMalformedUuid ''connection identifier'') (hyphenated v))"

definition dec_connection_id :: "(string \<Rightarrow> string option) \<Rightarrow> json \<Rightarrow> string option" where
  "dec_connection_id hyphenated j =
     do { s \<leftarrow> dec_str j;
          case connection_id_try_from hyphenated s of Inr v \<Rightarrow> Some v | Inl e \<Rightarrow> None }"

text \<open>The documented behaviour of the crate on the strings the code passes: lower case.\<close>

definition ascii_lower :: "char \<Rightarrow> char" where
  "ascii_lower c = (if byte_in CHR ''A'' CHR ''Z'' c then char_of ((of_char c :: nat) + 32) else c)"

definition uuid_lowercases :: "(string \<Rightarrow> string option) \<Rightarrow> bool" where
  "uuid_lowercases hyphenated \<longleftrightarrow>
     (\<forall>s. is_canonical_rfc4122_uuid s \<longrightarrow> hyphenated s = Some (map ascii_lower s))"

lemma connection_id_try_from_iff:
  "connection_id_try_from hyphenated s = Inr v \<longleftrightarrow>
     is_canonical_rfc4122_uuid s \<and> hyphenated s = Some v"
proof -
  have "validate_boundary_string s MAX_IDENTIFIER_BYTES ''connection identifier'' False = Inr ()"
    if "is_canonical_rfc4122_uuid s"
    using that by (auto simp: validate_boundary_string_def is_canonical_rfc4122_uuid_def limit_defs
        split: if_splits)
  then show ?thesis
    by (auto simp: connection_id_try_from_def and_then_Inr_iff split: if_splits)
qed

lemma ascii_lower_fixed:
  "\<not> byte_in CHR ''A'' CHR ''Z'' c \<Longrightarrow> ascii_lower c = c"
  by (simp add: ascii_lower_def)

lemma ascii_lower_hex:
  assumes "is_ascii_hexdigit c"
  shows "is_ascii_hexdigit (ascii_lower c) \<and> \<not> byte_in CHR ''A'' CHR ''Z'' (ascii_lower c)"
proof (cases "byte_in CHR ''A'' CHR ''Z'' c")
  case True
  then have "(of_char c :: nat) \<in> {65..70}"
    using assms by (auto simp: is_ascii_hexdigit_def byte_in_def)
  then have "(of_char (ascii_lower c) :: nat) = of_char c + 32"
    using True by (simp add: ascii_lower_def)
  then show ?thesis
    using \<open>(of_char c :: nat) \<in> {65..70}\<close> by (auto simp: is_ascii_hexdigit_def byte_in_def)
next
  case False
  then show ?thesis using assms by (simp add: ascii_lower_fixed)
qed

lemma canonical_uuid_iff:
  "is_canonical_rfc4122_uuid v \<longleftrightarrow>
     length v = 36 \<and> (\<forall>i \<in> {8, 13, 18, 23}. v ! i = CHR ''-'') \<and>
     (\<forall>i < 36. i \<notin> {8, 13, 18, 23} \<longrightarrow> is_ascii_hexdigit (v ! i)) \<and>
     byte_in CHR ''1'' CHR ''8'' (v ! 14) \<and> v ! 19 \<in> set ''89abAB''"
  by (auto simp: is_canonical_rfc4122_uuid_def byte_at_def list_ex_iff in_set_enumerate_eq
      split: if_splits)

lemma canonical_uuid_lower:
  assumes "is_canonical_rfc4122_uuid v"
  shows "is_canonical_rfc4122_uuid (map ascii_lower v)"
proof -
  have v: "length v = 36" "\<forall>i \<in> {8, 13, 18, 23}. v ! i = CHR ''-''"
    "\<forall>i < 36. i \<notin> {8, 13, 18, 23} \<longrightarrow> is_ascii_hexdigit (v ! i)"
    "byte_in CHR ''1'' CHR ''8'' (v ! 14)" "v ! 19 \<in> set ''89abAB''"
    using assms unfolding canonical_uuid_iff by blast+
  have "ascii_lower (v ! 14) = v ! 14"
    using v(4) by (intro ascii_lower_fixed) (auto simp: byte_in_def)
  moreover have "ascii_lower (v ! 19) \<in> set ''89abAB''"
  proof -
    have "list_all (\<lambda>c. ascii_lower c \<in> set ''89abAB'') ''89abAB''" by code_simp
    then show ?thesis using v(5) unfolding list_all_iff by blast
  qed
  moreover have "ascii_lower CHR ''-'' = CHR ''-''"
    by (simp add: ascii_lower_def byte_in_def)
  moreover have "is_ascii_hexdigit (ascii_lower (v ! i))" if "i < 36" "i \<notin> {8, 13, 18, 23}" for i
    using that v(3) ascii_lower_hex by blast
  moreover have at: "map ascii_lower v ! i = ascii_lower (v ! i)" if "i < 36" for i
    using that v(1) by simp
  moreover have "\<forall>i \<in> {8, 13, 18, 23}. map ascii_lower v ! i = CHR ''-''"
    using v(2) calculation(3) by (simp add: at)
  ultimately show ?thesis
    using v(1,4) unfolding canonical_uuid_iff by (intro conjI allI impI) simp_all
qed

lemma ascii_lower_idem: "is_canonical_rfc4122_uuid v \<Longrightarrow> map ascii_lower (map ascii_lower v) = map ascii_lower v"
proof (rule nth_equalityI)
  fix i
  assume v: "is_canonical_rfc4122_uuid v" and "i < length (map ascii_lower (map ascii_lower v))"
  then have "i < 36" "length v = 36" by (auto simp: canonical_uuid_iff)
  moreover have "ascii_lower (ascii_lower (v ! i)) = ascii_lower (v ! i)"
  proof (cases "i \<in> {8, 13, 18, 23}")
    case True
    then have "v ! i = CHR ''-''" using v unfolding canonical_uuid_iff by blast
    then show ?thesis by (simp add: ascii_lower_def byte_in_def)
  next
    case False
    then have "is_ascii_hexdigit (v ! i)" using v \<open>i < 36\<close> unfolding canonical_uuid_iff by blast
    then show ?thesis using ascii_lower_hex ascii_lower_fixed by blast
  qed
  ultimately show "map ascii_lower (map ascii_lower v) ! i = map ascii_lower v ! i" by simp
qed simp

section \<open>Bounded numbers and lists\<close>

definition dec_u8 :: "json \<Rightarrow> u8 option" where
  "dec_u8 j = do { n \<leftarrow> dec_u64 j; if n < 2 ^ 8 then Some (ucast n) else None }"

definition dec_u16 :: "json \<Rightarrow> 16 word option" where
  "dec_u16 j = do { n \<leftarrow> dec_u64 j; if n < 2 ^ 16 then Some (ucast n) else None }"

definition deserialize_optional_depth :: "json \<Rightarrow> u8 option option" where
  "deserialize_optional_depth j =
     do { v \<leftarrow> dec_option dec_u8 j;
          if pred_option (\<lambda>depth. unat depth \<le> MAX_DEPTH) v then Some v else None }"

definition deserialize_search_limit :: "json \<Rightarrow> 16 word option" where
  "deserialize_search_limit j =
     do { v \<leftarrow> dec_u16 j;
          if v = 0 \<or> unat v > MAX_RETURNED_NODES then None else Some v }"

definition dec_node_id_list :: "json \<Rightarrow> string list option" where
  "dec_node_id_list = dec_bounded_list MAX_INPUT_IDS (bounded_deserialize NODE_ID)"

definition dec_page_id_list :: "json \<Rightarrow> string list option" where
  "dec_page_id_list = dec_bounded_list MAX_PAGE_IDS (bounded_deserialize PAGE_ID)"

definition dec_node_type_list :: "json \<Rightarrow> string list option" where
  "dec_node_type_list = dec_bounded_list MAX_INPUT_IDS (bounded_deserialize NODE_TYPE_NAME)"

definition dec_returned_list :: "(json \<Rightarrow> 'a option) \<Rightarrow> json \<Rightarrow> 'a list option" where
  "dec_returned_list d = dec_bounded_list MAX_RETURNED_NODES d"

section \<open>Selectors\<close>

text \<open>\<open>SelectionFlag\<close> holds nothing: it is the literal \<open>true\<close>.\<close>

datatype selection_flag = SelectionFlag

definition dec_selection_flag :: "json \<Rightarrow> selection_flag option" where
  "dec_selection_flag j = do { b \<leftarrow> dec_bool j; if b then Some SelectionFlag else None }"

datatype selector =
    SelSelection selection_flag
  | SelPage string
  | SelPages "string list"
  | SelNode string
  | SelNodes "string list"

fun selector_visit :: "(string \<times> json) list \<Rightarrow> selector option \<Rightarrow> selector option" where
  "selector_visit [] sel = sel"
| "selector_visit ((field, v) # kvs) sel =
     (if field \<notin> {''selection'', ''pageId'', ''pageIds'', ''nodeId'', ''nodeIds''} then None
      else if sel \<noteq> None then None
      else do {
        s \<leftarrow> (if field = ''selection'' then map_option SelSelection (dec_selection_flag v)
             else if field = ''pageId'' then map_option SelPage (bounded_deserialize PAGE_ID v)
             else if field = ''pageIds'' then map_option SelPages (dec_page_id_list v)
             else if field = ''nodeId'' then map_option SelNode (bounded_deserialize NODE_ID v)
             else map_option SelNodes (dec_node_id_list v));
        selector_visit kvs (Some s) })"

definition dec_selector :: "json \<Rightarrow> selector option" where
  "dec_selector j = (case body j of JObj kvs \<Rightarrow> selector_visit kvs None | _ \<Rightarrow> None)"

fun enc_selector :: "selector \<Rightarrow> json" where
  "enc_selector (SelSelection f) = js_obj [(''selection'', js_bool True)]"
| "enc_selector (SelPage p) = js_obj [(''pageId'', js_str p)]"
| "enc_selector (SelPages ps) = js_obj [(''pageIds'', js_arr (map js_str ps))]"
| "enc_selector (SelNode n) = js_obj [(''nodeId'', js_str n)]"
| "enc_selector (SelNodes ns) = js_obj [(''nodeIds'', js_arr (map js_str ns))]"

fun selector_ok :: "selector \<Rightarrow> bool" where
  "selector_ok (SelSelection f) = True"
| "selector_ok (SelPage p) = bounded_ok PAGE_ID p"
| "selector_ok (SelPages ps) = (length ps \<le> MAX_PAGE_IDS \<and> list_all (bounded_ok PAGE_ID) ps)"
| "selector_ok (SelNode n) = bounded_ok NODE_ID n"
| "selector_ok (SelNodes ns) = (length ns \<le> MAX_INPUT_IDS \<and> list_all (bounded_ok NODE_ID) ns)"

lemma selector_visit_Some: "selector_visit kvs (Some s) = (if kvs = [] then Some s else None)"
  by (cases kvs) auto

lemma dec_selector_single:
  "dec_selector j = Some s \<Longrightarrow> \<exists>field v. body j = JObj [(field, v)]"
proof -
  assume "dec_selector j = Some s"
  then obtain kvs where kvs: "body j = JObj kvs" "selector_visit kvs None = Some s"
    by (auto simp: dec_selector_def split: jbody.splits)
  then obtain field v kvs' where "kvs = (field, v) # kvs'" by (cases kvs) auto
  with kvs show ?thesis
    by (auto simp: selector_visit_Some bind_eq_Some_conv split: if_splits)
qed

lemma bounded_list_items:
  "dec_bounded_list n (bounded_deserialize t) j = Some vs \<Longrightarrow>
     length vs \<le> n \<and> list_all (bounded_ok t) vs"
proof -
  assume "dec_bounded_list n (bounded_deserialize t) j = Some vs"
  then obtain xs where "length xs \<le> n" and xs: "map (bounded_deserialize t) xs = map Some vs"
    by (auto simp: dec_bounded_list_def visit_seq_iff split: jbody.splits)
  moreover have "length vs = length xs" using xs by (metis length_map)
  moreover have "bounded_ok t v" if "v \<in> set vs" for v
  proof -
    have "Some v \<in> set (map (bounded_deserialize t) xs)" using that xs by simp
    then show ?thesis by (auto dest!: sym [of "Some v"] simp: bounded_deserialize_iff)
  qed
  ultimately show ?thesis by (simp add: list_all_iff)
qed

lemma dec_selector_ok: "dec_selector j = Some s \<Longrightarrow> selector_ok s"
proof -
  assume s: "dec_selector j = Some s"
  then obtain field v where "body j = JObj [(field, v)]" using dec_selector_single by blast
  with s show "selector_ok s"
    by (auto simp: dec_selector_def bind_eq_Some_conv bounded_deserialize_iff
        dec_page_id_list_def dec_node_id_list_def dest: bounded_list_items split: if_splits)
qed

lemma dec_enc_selector:
  assumes "selector_ok s"
  shows "dec_selector (enc_selector s) = Some s"
proof (cases s)
  case (SelSelection f)
  then show ?thesis by (cases f) (simp add: dec_selector_def dec_selection_flag_def)
qed (use assms in \<open>simp_all add: dec_selector_def dec_page_id_list_def dec_node_id_list_def
      dec_bounded_list_def list_all_iff\<close>)

section \<open>Properties\<close>

text \<open>
  A connection identifier is canonical: whatever spelling is accepted, the identifier held is
  itself accepted and unchanged by parsing again, and two spellings that differ only in the case
  of their hexadecimal digits are one identifier.
\<close>

theorem connection_id_canonical:
  assumes "uuid_lowercases hyphenated"
    and "connection_id_try_from hyphenated s = Inr v"
  shows "connection_id_try_from hyphenated v = Inr v
    \<and> length v = 36
    \<and> (\<forall>s'. is_canonical_rfc4122_uuid s' \<and> map ascii_lower s' = map ascii_lower s \<longrightarrow>
          connection_id_try_from hyphenated s' = Inr v)"
proof -
  have s: "is_canonical_rfc4122_uuid s" "v = map ascii_lower s"
    using assms by (auto simp: connection_id_try_from_iff uuid_lowercases_def)
  then show ?thesis
    using assms(1) canonical_uuid_lower [OF s(1)] ascii_lower_idem [OF s(1)]
    by (auto simp: connection_id_try_from_iff uuid_lowercases_def canonical_uuid_iff)
qed

definition lower_hyphenated :: "string \<Rightarrow> string option" where
  "lower_hyphenated s = Some (map ascii_lower s)"

theorem connection_id_canonical_witness:
  "connection_id_try_from lower_hyphenated ''01234567-89ab-4def-8123-456789abcdef''
     = Inr ''01234567-89ab-4def-8123-456789abcdef''"
proof -
  have "connection_id_try_from lower_hyphenated ''01234567-89AB-4def-8123-456789abcdef''
     = Inr ''01234567-89ab-4def-8123-456789abcdef''"
    by code_simp
  moreover have "uuid_lowercases lower_hyphenated"
    by (simp add: uuid_lowercases_def lower_hyphenated_def)
  ultimately show ?thesis using connection_id_canonical by blast
qed

text \<open>
  A selector is closed: an input decodes to a selector only if it has exactly one field, every
  identifier and list in the result is within its bounds, and every selector within those bounds
  decodes back from its wire form.
\<close>

theorem selector_closed:
  "(dec_selector j = Some s \<longrightarrow> selector_ok s \<and> (\<exists>field v. body j = JObj [(field, v)]))
    \<and> (selector_ok s \<longrightarrow> dec_selector (enc_selector s) = Some s)"
  using dec_selector_ok dec_selector_single dec_enc_selector by blast

theorem selector_closed_witness:
  "dec_selector (enc_selector (SelNodes [''1:2'', ''3:4''])) = Some (SelNodes [''1:2'', ''3:4''])"
  using selector_closed [of js_null "SelNodes [''1:2'', ''3:4'']"]
  by (simp add: bounded_ok_def newtype_defs limit_defs)

end
