(* ===== verification/Wire.thy ===== *)
theory Wire
  imports Deferred Errors Identifiers
begin

text \<open>
  The closed messages of the plugin socket and the calls of the front ends
  (\<open>crates/protocol/src/wire.rs\<close>). The thirteen read operations share one tag; the inputs and
  results they carry are types of their own, so the decoders of those payloads are arguments here,
  one per tag. \<open>hyphenated\<close> is the \<open>uuid\<close> crate's parser and printer.
\<close>

section \<open>Messages\<close>

record page_summary =
  ps_id :: string
  ps_name :: string

record capability_set =
  cap_annotations :: bool
  cap_dev_resources :: bool
  cap_motion :: bool
  cap_svg_string_export :: bool
  cap_variable_code_syntax :: bool

record hello =
  h_protocol_version :: string
  h_connection_id :: string
  h_display_name :: string
  h_file_key :: "string option"
  h_file_name :: string
  h_current_page :: page_summary
  h_editor_type :: string
  h_plugin_version :: string
  h_capabilities :: capability_set

record progress =
  p_request_id :: string
  p_completed :: u32
  p_total :: "u32 option"
  p_message :: "string option"

record 'r response =
  r_request_id :: string
  r_result :: 'r

record wire_error =
  we_request_id :: string
  we_error :: plugin_failure

record 'i request =
  rq_request_id :: string
  rq_deadline_ms :: u64
  rq_target :: "string option"
  rq_operation :: 'i

datatype 'r plugin_to_broker =
    PHello hello | PProgress progress | PResponse "'r response" | PError wire_error | PPong u64

datatype 'i broker_to_plugin = BRequest "'i request" | BCancel string | BPing u64

section \<open>Struct decoders\<close>

definition dec_page_summary :: "json \<Rightarrow> page_summary option" where
  "dec_page_summary j =
     do { m \<leftarrow> struct_fields [(''id'', False), (''name'', False)] j;
          i \<leftarrow> field_req m ''id'' (bounded_deserialize PAGE_ID);
          n \<leftarrow> field_req m ''name'' (bounded_deserialize DISPLAY_TEXT);
          Some \<lparr>ps_id = i, ps_name = n\<rparr> }"

definition dec_capability_set :: "json \<Rightarrow> capability_set option" where
  "dec_capability_set j =
     do { m \<leftarrow> struct_fields [(''annotations'', True), (''devResources'', True), (''motion'', True),
                               (''svgStringExport'', True), (''variableCodeSyntax'', True)] j;
          a \<leftarrow> field_default m ''annotations'' False dec_bool;
          d \<leftarrow> field_default m ''devResources'' False dec_bool;
          mo \<leftarrow> field_default m ''motion'' False dec_bool;
          s \<leftarrow> field_default m ''svgStringExport'' False dec_bool;
          v \<leftarrow> field_default m ''variableCodeSyntax'' False dec_bool;
          Some \<lparr>cap_annotations = a, cap_dev_resources = d, cap_motion = mo,
                cap_svg_string_export = s, cap_variable_code_syntax = v\<rparr> }"

definition dec_hello :: "(string \<Rightarrow> string option) \<Rightarrow> json \<Rightarrow> hello option" where
  "dec_hello hyphenated j =
     do { m \<leftarrow> struct_fields
            [(''protocolVersion'', False), (''connectionId'', False), (''displayName'', False),
             (''fileKey'', True), (''fileName'', False), (''currentPage'', False),
             (''editorType'', False), (''pluginVersion'', False), (''capabilities'', False)] j;
          protocol_version \<leftarrow> field_req m ''protocolVersion'' (bounded_deserialize PROTOCOL_VERSION);
          connection_id \<leftarrow> field_req m ''connectionId'' (dec_connection_id hyphenated);
          display_name \<leftarrow> field_req m ''displayName'' (bounded_deserialize DISPLAY_TEXT);
          file_key \<leftarrow> field_opt m ''fileKey'' (bounded_deserialize FILE_KEY);
          file_name \<leftarrow> field_req m ''fileName'' (bounded_deserialize DISPLAY_TEXT);
          current_page \<leftarrow> field_req m ''currentPage'' dec_page_summary;
          editor_type \<leftarrow> field_req m ''editorType'' (bounded_deserialize DISPLAY_TEXT);
          plugin_version \<leftarrow> field_req m ''pluginVersion'' (bounded_deserialize DISPLAY_TEXT);
          capabilities \<leftarrow> field_req m ''capabilities'' dec_capability_set;
          Some \<lparr>h_protocol_version = protocol_version, h_connection_id = connection_id,
                h_display_name = display_name, h_file_key = file_key, h_file_name = file_name,
                h_current_page = current_page, h_editor_type = editor_type,
                h_plugin_version = plugin_version, h_capabilities = capabilities\<rparr> }"

definition dec_progress :: "json \<Rightarrow> progress option" where
  "dec_progress j =
     do { m \<leftarrow> struct_fields [(''requestId'', False), (''completed'', False),
                               (''total'', True), (''message'', True)] j;
          request_id \<leftarrow> field_req m ''requestId'' (bounded_deserialize REQUEST_ID);
          completed \<leftarrow> field_req m ''completed'' dec_u32;
          total \<leftarrow> field_opt m ''total'' dec_u32;
          message \<leftarrow> field_opt m ''message'' (bounded_deserialize DISPLAY_TEXT);
          Some \<lparr>p_request_id = request_id, p_completed = completed, p_total = total,
                p_message = message\<rparr> }"

definition dec_response :: "(json \<Rightarrow> 'r option) \<Rightarrow> json \<Rightarrow> 'r response option" where
  "dec_response dr j =
     do { m \<leftarrow> struct_fields [(''requestId'', False), (''result'', False)] j;
          request_id \<leftarrow> field_req m ''requestId'' (bounded_deserialize REQUEST_ID);
          result \<leftarrow> field_req m ''result'' dr;
          Some \<lparr>r_request_id = request_id, r_result = result\<rparr> }"

definition dec_wire_error :: "json \<Rightarrow> wire_error option" where
  "dec_wire_error j =
     do { m \<leftarrow> struct_fields [(''requestId'', False), (''error'', False)] j;
          request_id \<leftarrow> field_req m ''requestId'' (bounded_deserialize REQUEST_ID);
          error \<leftarrow> field_req m ''error'' dec_plugin_failure;
          Some \<lparr>we_request_id = request_id, we_error = error\<rparr> }"

text \<open>\<open>Ping\<close> and \<open>Pong\<close> have the same single field.\<close>

definition dec_nonce :: "json \<Rightarrow> u64 option" where
  "dec_nonce j = do { m \<leftarrow> struct_fields [(''nonce'', False)] j; field_req m ''nonce'' dec_u64 }"

definition dec_cancel :: "json \<Rightarrow> string option" where
  "dec_cancel j =
     do { m \<leftarrow> struct_fields [(''requestId'', False)] j;
          field_req m ''requestId'' (bounded_deserialize REQUEST_ID) }"

definition dec_target :: "json \<Rightarrow> string option option" where
  "dec_target j =
     do { m \<leftarrow> struct_fields [(''fileKey'', True)] j;
          field_opt m ''fileKey'' (bounded_deserialize FILE_KEY) }"

definition dec_request :: "(json \<Rightarrow> 'i option) \<Rightarrow> json \<Rightarrow> 'i request option" where
  "dec_request di j =
     do { m \<leftarrow> struct_fields [(''requestId'', False), (''deadlineMs'', False),
                               (''target'', False), (''operation'', False)] j;
          request_id \<leftarrow> field_req m ''requestId'' (bounded_deserialize REQUEST_ID);
          deadline_ms \<leftarrow> field_req m ''deadlineMs'' dec_u64;
          target \<leftarrow> field_req m ''target'' dec_target;
          operation \<leftarrow> field_req m ''operation'' di;
          Some \<lparr>rq_request_id = request_id, rq_deadline_ms = deadline_ms, rq_target = target,
                rq_operation = operation\<rparr> }"

section \<open>Message visitors\<close>

definition MESSAGE_FIELDS :: "string list" where
  "MESSAGE_FIELDS =
     [''type'', ''protocolVersion'', ''connectionId'', ''displayName'', ''fileKey'', ''fileName'',
      ''currentPage'', ''editorType'', ''pluginVersion'', ''capabilities'', ''requestId'',
      ''completed'', ''total'', ''message'', ''result'', ''error'', ''nonce'', ''deadlineMs'',
      ''target'', ''operation'']"

text \<open>
  The loop over the fields, which the two visitors share but for the tags: the tag is decoded
  where it stands, every other known field is deferred.
\<close>

fun message_visit ::
    "(json \<Rightarrow> 't option) \<Rightarrow> (string \<times> json) list \<Rightarrow> 't option \<Rightarrow> deferred_object
      \<Rightarrow> ('t option \<times> deferred_object) option" where
  "message_visit dt [] tag obj = Some (tag, obj)"
| "message_visit dt ((field, v) # kvs) tag obj =
     (if field \<notin> set MESSAGE_FIELDS then None
      else if field = ''type'' then
        if tag \<noteq> None then None
        else do { t \<leftarrow> dt v; message_visit dt kvs (Some t) obj }
      else (case deferred_insert field v obj of
        Inl e \<Rightarrow> None
      | Inr obj \<Rightarrow> message_visit dt kvs tag obj))"

datatype plugin_tag = THello | TProgress | TResponse | TError | TPong

datatype broker_tag = TRequest | TCancel | TPing

definition dec_plugin_tag :: "json \<Rightarrow> plugin_tag option" where
  "dec_plugin_tag = dec_unit_enum
     [(''hello'', THello), (''progress'', TProgress), (''response'', TResponse),
      (''error'', TError), (''pong'', TPong)]"

definition dec_broker_tag :: "json \<Rightarrow> broker_tag option" where
  "dec_broker_tag = dec_unit_enum
     [(''request'', TRequest), (''cancel'', TCancel), (''ping'', TPing)]"

fun plugin_struct ::
    "(string \<Rightarrow> string option) \<Rightarrow> (json \<Rightarrow> 'r option) \<Rightarrow> plugin_tag \<Rightarrow> json \<Rightarrow> 'r plugin_to_broker option"
  where
  "plugin_struct hyphenated dr THello j = map_option PHello (dec_hello hyphenated j)"
| "plugin_struct hyphenated dr TProgress j = map_option PProgress (dec_progress j)"
| "plugin_struct hyphenated dr TResponse j = map_option PResponse (dec_response dr j)"
| "plugin_struct hyphenated dr TError j = map_option PError (dec_wire_error j)"
| "plugin_struct hyphenated dr TPong j = map_option PPong (dec_nonce j)"

fun broker_struct :: "(json \<Rightarrow> 'i option) \<Rightarrow> broker_tag \<Rightarrow> json \<Rightarrow> 'i broker_to_plugin option" where
  "broker_struct di TRequest j = map_option BRequest (dec_request di j)"
| "broker_struct di TCancel j = map_option BCancel (dec_cancel j)"
| "broker_struct di TPing j = map_option BPing (dec_nonce j)"

definition dec_plugin_to_broker ::
    "(string \<Rightarrow> string option) \<Rightarrow> (json \<Rightarrow> 'r option) \<Rightarrow> json \<Rightarrow> 'r plugin_to_broker option" where
  "dec_plugin_to_broker hyphenated dr j = (case body j of
     JObj kvs \<Rightarrow>
       do { (tag, obj) \<leftarrow> message_visit dec_plugin_tag kvs None deferred_new;
            t \<leftarrow> tag;
            deferred_decode (plugin_struct hyphenated dr t) obj }
   | _ \<Rightarrow> None)"

definition dec_broker_to_plugin ::
    "(json \<Rightarrow> 'i option) \<Rightarrow> json \<Rightarrow> 'i broker_to_plugin option" where
  "dec_broker_to_plugin di j = (case body j of
     JObj kvs \<Rightarrow>
       do { (tag, obj) \<leftarrow> message_visit dec_broker_tag kvs None deferred_new;
            t \<leftarrow> tag;
            deferred_decode (broker_struct di t) obj }
   | _ \<Rightarrow> None)"

section \<open>Operations and results\<close>

datatype read_tag =
    GetMetadata | GetSelection | GetNodes | SearchNodes | GetDesignContext | GetStyles
  | GetVariables | GetComponents | GetFonts | GetDevModeData | GetReactions | GetMotion
  | GetScreenshot

definition dec_read_tag :: "json \<Rightarrow> read_tag option" where
  "dec_read_tag = dec_unit_enum
     [(''get_metadata'', GetMetadata), (''get_selection'', GetSelection),
      (''get_nodes'', GetNodes), (''search_nodes'', SearchNodes),
      (''get_design_context'', GetDesignContext), (''get_styles'', GetStyles),
      (''get_variables'', GetVariables), (''get_components'', GetComponents),
      (''get_fonts'', GetFonts), (''get_dev_mode_data'', GetDevModeData),
      (''get_reactions'', GetReactions), (''get_motion'', GetMotion),
      (''get_screenshot'', GetScreenshot)]"

text \<open>
  A visitor with a tag field and one raw payload field. Both the duplicate check and the decoding
  of the tag happen where the field stands; \<open>replace\<close> and \<open>is_some\<close> tests agree on the outcome.
\<close>

fun tag_payload_visit ::
    "string \<Rightarrow> string \<Rightarrow> (json \<Rightarrow> 't option) \<Rightarrow> (string \<times> json) list \<Rightarrow> 't option \<Rightarrow> json option
      \<Rightarrow> ('t option \<times> json option) option" where
  "tag_payload_visit tf pf dt [] tag payload = Some (tag, payload)"
| "tag_payload_visit tf pf dt ((field, v) # kvs) tag payload =
     (if field = tf then
        if tag \<noteq> None then None
        else do { t \<leftarrow> dt v; tag_payload_visit tf pf dt kvs (Some t) payload }
      else if field = pf then
        if payload \<noteq> None then None else tag_payload_visit tf pf dt kvs tag (Some v)
      else None)"

definition dec_tag_payload ::
    "string \<Rightarrow> string \<Rightarrow> (json \<Rightarrow> 't option) \<Rightarrow> ('t \<Rightarrow> json \<Rightarrow> 'a option) \<Rightarrow> json \<Rightarrow> ('t \<times> 'a) option" where
  "dec_tag_payload tf pf dt d j = (case body j of
     JObj kvs \<Rightarrow>
       do { (tag, payload) \<leftarrow> tag_payload_visit tf pf dt kvs None None;
            raw \<leftarrow> payload;
            t \<leftarrow> tag;
            a \<leftarrow> decode_raw (d t) raw;
            Some (t, a) }
   | _ \<Rightarrow> None)"

definition dec_read_operation ::
    "(read_tag \<Rightarrow> json \<Rightarrow> 'i option) \<Rightarrow> json \<Rightarrow> (read_tag \<times> 'i) option" where
  "dec_read_operation = dec_tag_payload ''operation'' ''input'' dec_read_tag"

definition dec_read_result ::
    "(read_tag \<Rightarrow> json \<Rightarrow> 'r option) \<Rightarrow> json \<Rightarrow> (read_tag \<times> 'r) option" where
  "dec_read_result = dec_tag_payload ''operation'' ''result'' dec_read_tag"

section \<open>Calls and results of the front ends\<close>

datatype 'i broker_call = ListFiles | Invoke "string option" 'i

datatype ('f, 'r) broker_result = Files 'f | Invocation 'r

datatype call_tag = TListFiles | TInvoke

definition dec_call_tag :: "json \<Rightarrow> call_tag option" where
  "dec_call_tag = dec_unit_enum [(''listFiles'', TListFiles), (''invoke'', TInvoke)]"

definition dec_invocation :: "(json \<Rightarrow> 'i option) \<Rightarrow> json \<Rightarrow> 'i option" where
  "dec_invocation di j =
     do { m \<leftarrow> struct_fields [(''operation'', False)] j; field_req m ''operation'' di }"

fun broker_call_visit ::
    "(string \<Rightarrow> string option) \<Rightarrow> (json \<Rightarrow> 'i option) \<Rightarrow> (string \<times> json) list
      \<Rightarrow> call_tag option \<Rightarrow> string option \<Rightarrow> 'i option
      \<Rightarrow> (call_tag option \<times> string option \<times> 'i option) option" where
  "broker_call_visit hyphenated di [] tag connection_id invocation =
     Some (tag, connection_id, invocation)"
| "broker_call_visit hyphenated di ((field, v) # kvs) tag connection_id invocation =
     (if field = ''call'' then
        do { t \<leftarrow> dec_call_tag v;
             if tag \<noteq> None then None
             else broker_call_visit hyphenated di kvs (Some t) connection_id invocation }
      else if field = ''connectionId'' then
        do { c \<leftarrow> dec_connection_id hyphenated v;
             if connection_id \<noteq> None then None
             else broker_call_visit hyphenated di kvs tag (Some c) invocation }
      else if field = ''invocation'' then
        do { i \<leftarrow> dec_invocation di v;
             if invocation \<noteq> None then None
             else broker_call_visit hyphenated di kvs tag connection_id (Some i) }
      else None)"

definition dec_broker_call ::
    "(string \<Rightarrow> string option) \<Rightarrow> (json \<Rightarrow> 'i option) \<Rightarrow> json \<Rightarrow> 'i broker_call option" where
  "dec_broker_call hyphenated di j = (case body j of
     JObj kvs \<Rightarrow>
       do { (tag, connection_id, invocation) \<leftarrow>
              broker_call_visit hyphenated di kvs None None None;
            t \<leftarrow> tag;
            case t of
              TListFiles \<Rightarrow>
                if connection_id \<noteq> None \<or> invocation \<noteq> None then None else Some ListFiles
            | TInvoke \<Rightarrow> map_option (Invoke connection_id) invocation }
   | _ \<Rightarrow> None)"

datatype result_tag = TFiles | TInvocation

definition dec_result_tag :: "json \<Rightarrow> result_tag option" where
  "dec_result_tag = dec_unit_enum [(''files'', TFiles), (''invocation'', TInvocation)]"

fun result_struct ::
    "(json \<Rightarrow> 'f option) \<Rightarrow> (json \<Rightarrow> 'r option) \<Rightarrow> result_tag \<Rightarrow> json \<Rightarrow> ('f, 'r) broker_result option"
  where
  "result_struct df dr TFiles j = map_option Files (df j)"
| "result_struct df dr TInvocation j = map_option Invocation (dr j)"

definition dec_broker_result ::
    "(json \<Rightarrow> 'f option) \<Rightarrow> (json \<Rightarrow> 'r option) \<Rightarrow> json \<Rightarrow> ('f, 'r) broker_result option" where
  "dec_broker_result df dr j =
     map_option snd (dec_tag_payload ''kind'' ''result'' dec_result_tag (result_struct df dr) j)"

section \<open>Encoding the messages to a plugin\<close>

text \<open>
  The derived serializer of an internally tagged enum writes the tag first and then the fields of
  the struct. The serializer of an operation is an argument; it may fail.
\<close>

definition enc_target :: "string option \<Rightarrow> json" where
  "enc_target file_key = js_obj (enc_opt ''fileKey'' js_str file_key)"

fun enc_broker_to_plugin :: "('i \<Rightarrow> json option) \<Rightarrow> 'i broker_to_plugin \<Rightarrow> json option" where
  "enc_broker_to_plugin ei (BRequest r) =
     do { operation \<leftarrow> ei (rq_operation r);
          Some (js_obj
            [(''type'', js_str ''request''), (''requestId'', js_str (rq_request_id r)),
             (''deadlineMs'', js_uint (rq_deadline_ms r)), (''target'', enc_target (rq_target r)),
             (''operation'', operation)]) }"
| "enc_broker_to_plugin ei (BCancel request_id) =
     Some (js_obj [(''type'', js_str ''cancel''), (''requestId'', js_str request_id)])"
| "enc_broker_to_plugin ei (BPing nonce) =
     Some (js_obj [(''type'', js_str ''ping''), (''nonce'', js_uint nonce)])"

text \<open>The values the types of a message can hold.\<close>

fun broker_message_ok :: "'i broker_to_plugin \<Rightarrow> bool" where
  "broker_message_ok (BRequest r) \<longleftrightarrow>
     bounded_ok REQUEST_ID (rq_request_id r) \<and> (\<forall>k \<in> set_option (rq_target r). bounded_ok FILE_KEY k)"
| "broker_message_ok (BCancel request_id) \<longleftrightarrow> bounded_ok REQUEST_ID request_id"
| "broker_message_ok (BPing nonce) \<longleftrightarrow> True"

section \<open>What the visitors accept\<close>

text \<open>An accumulator is determined by its fields.\<close>

definition packed :: "(string \<times> json) list \<Rightarrow> deferred_object" where
  "packed fs = \<lparr>do_fields = fs,
     do_encoded_bytes = src_len (deferred_encoded \<lparr>do_fields = fs, do_encoded_bytes = 0\<rparr>)\<rparr>"

lemma packed_nil: "deferred_new = packed []"
  by (simp add: packed_def deferred_new_def deferred_encoded_def)

lemma packed_fields [simp]: "do_fields (packed fs) = fs"
  by (simp add: packed_def)

lemma deferred_ok_packed: "deferred_ok obj \<Longrightarrow> obj = packed (do_fields obj)"
  by (cases obj) (simp add: deferred_ok_def packed_def deferred_encoded_def)

lemma packed_ok:
  assumes "distinct (map fst fs)" and "1 + fields_need fs \<le> MAX_ENVELOPE_BYTES"
  shows "deferred_ok (packed fs)"
proof (cases "fs = []")
  case True
  then show ?thesis using deferred_new_ok by (simp add: packed_nil)
next
  case False
  then show ?thesis
    using assms deferred_len_le [of "packed fs"]
    by (simp add: deferred_ok_def) (simp add: packed_def deferred_encoded_def)
qed

lemma insert_packed:
  assumes "distinct (map fst (fs @ [(k, v)]))"
    and "1 + fields_need (fs @ [(k, v)]) \<le> MAX_ENVELOPE_BYTES"
  shows "deferred_insert k v (packed fs) = Inr (packed (fs @ [(k, v)]))"
proof -
  have "deferred_ok (packed fs)" using assms by (intro packed_ok) auto
  then obtain obj where "insert_all [(k, v)] (packed fs) = Inr obj" "deferred_ok obj"
    "do_fields obj = fs @ [(k, v)]"
    using insert_all_fits [of "packed fs" "[(k, v)]"] assms by auto
  moreover from this have "obj = packed (fs @ [(k, v)])" using deferred_ok_packed by metis
  ultimately show ?thesis by (simp add: and_then_Inr_iff)
qed

lemma insert_packed_dup:
  "k \<in> set (map fst fs) \<Longrightarrow> deferred_insert k v (packed fs) = Inl (DuplicateField k)"
  by (auto simp: deferred_insert_def)

lemma decode_packed:
  assumes "distinct (map fst fs)" and "1 + fields_need fs \<le> MAX_ENVELOPE_BYTES"
  shows "\<exists>n. deferred_decode d (packed fs) = d (Json n (JObj fs))"
  using packed_ok [OF assms]
  by (auto simp: deferred_ok_def deferred_decode_def Let_def deferred_encoded_def)

abbreviation untyped :: "(string \<times> json) list \<Rightarrow> (string \<times> json) list" where
  "untyped kvs \<equiv> filter (\<lambda>kv. fst kv \<noteq> ''type'') kvs"

lemma message_visit_eq:
  assumes "1 + fields_need (fs @ kvs) \<le> MAX_ENVELOPE_BYTES" and "''type'' \<notin> set (map fst fs)"
    and "distinct (map fst fs)"
  shows "message_visit dt kvs tag (packed fs) =
    (if set (map fst kvs) \<subseteq> set MESSAGE_FIELDS \<and> distinct (map fst (fs @ kvs)) \<and>
        (tag = None \<or> ''type'' \<notin> set (map fst kvs))
     then (case map_of kvs ''type'' of
             None \<Rightarrow> Some (tag, packed (fs @ untyped kvs))
           | Some v \<Rightarrow> map_option (\<lambda>t. (Some t, packed (fs @ untyped kvs))) (dt v))
     else None)"
  using assms
proof (induction kvs arbitrary: fs tag)
  case Nil
  then show ?case by simp
next
  case (Cons kv kvs)
  obtain k v where kv: "kv = (k, v)" by (cases kv)
  consider "k \<notin> set MESSAGE_FIELDS" | "k = ''type''" "k \<in> set MESSAGE_FIELDS"
    | "k \<noteq> ''type''" "k \<in> set MESSAGE_FIELDS" "k \<in> set (map fst fs)"
    | "k \<noteq> ''type''" "k \<in> set MESSAGE_FIELDS" "k \<notin> set (map fst fs)" by blast
  then show ?case
  proof cases
    case 1
    then show ?thesis by (simp add: kv)
  next
    case 2
    show ?thesis
    proof (cases "''type'' \<in> set (map fst kvs)")
      case True
      then show ?thesis
        using 2 Cons.prems Cons.IH [of fs]
        by (auto simp: kv bind_eq_None_conv split: option.split)
    next
      case False
      then have "map_of kvs ''type'' = None" "untyped kvs = kvs"
        by (simp_all add: map_of_eq_None_iff filter_id_conv) (metis fst_conv imageI)
      then show ?thesis
        using 2 Cons.prems Cons.IH [of fs] False
        by (cases "dt v") (auto simp: kv)
    qed
  next
    case 3
    then show ?thesis by (auto simp: kv insert_packed_dup)
  next
    case 4
    then have ins: "deferred_insert k v (packed fs) = Inr (packed (fs @ [(k, v)]))"
      using Cons.prems by (intro insert_packed) (auto simp: kv)
    have "message_visit dt kvs tag (packed (fs @ [(k, v)])) =
      (if set (map fst kvs) \<subseteq> set MESSAGE_FIELDS \<and> distinct (map fst ((fs @ [(k, v)]) @ kvs)) \<and>
        (tag = None \<or> ''type'' \<notin> set (map fst kvs))
       then (case map_of kvs ''type'' of
             None \<Rightarrow> Some (tag, packed ((fs @ [(k, v)]) @ untyped kvs))
           | Some w \<Rightarrow> map_option (\<lambda>t. (Some t, packed ((fs @ [(k, v)]) @ untyped kvs))) (dt w))
       else None)"
      using Cons.prems 4 by (intro Cons.IH) (auto simp: kv)
    moreover have "set (map fst kvs) \<subseteq> set MESSAGE_FIELDS \<longleftrightarrow>
        set (map fst (kv # kvs)) \<subseteq> set MESSAGE_FIELDS"
      "distinct (map fst ((fs @ [(k, v)]) @ kvs)) \<longleftrightarrow> distinct (map fst (fs @ kv # kvs))"
      "''type'' \<notin> set (map fst kvs) \<longleftrightarrow> ''type'' \<notin> set (map fst (kv # kvs))"
      "map_of kvs ''type'' = map_of (kv # kvs) ''type''"
      "(fs @ [(k, v)]) @ untyped kvs = fs @ untyped (kv # kvs)"
      using 4 by (simp_all add: kv)
    moreover have "message_visit dt (kv # kvs) tag (packed fs) =
        message_visit dt kvs tag (packed (fs @ [(k, v)]))"
      using 4 by (simp add: kv ins)
    ultimately show ?thesis by presburger
  qed
qed

text \<open>
  The source text of an object is at least as long as its fields written without blanks: braces,
  quotes, colons, commas, keys and values.
\<close>

definition source_honest :: "json \<Rightarrow> bool" where
  "source_honest j = (case body j of JObj kvs \<Rightarrow> 1 + fields_need kvs \<le> src_len j | _ \<Rightarrow> True)"

lemma fields_need_filter: "fields_need (filter p kvs) \<le> fields_need kvs"
  by (induction kvs) auto

lemma message_visit_decode:
  assumes "source_honest (Json n (JObj kvs))" and "n \<le> MAX_ENVELOPE_BYTES"
    and "\<And>t m m' b. d t (Json m b) = d t (Json m' b)"
  shows "do { (tag, obj) \<leftarrow> message_visit dt kvs None deferred_new; t \<leftarrow> tag; deferred_decode (d t) obj } =
    (if set (map fst kvs) \<subseteq> set MESSAGE_FIELDS \<and> distinct (map fst kvs)
     then do { v \<leftarrow> map_of kvs ''type''; t \<leftarrow> dt v; d t (Json m (JObj (untyped kvs))) }
     else None)"
proof -
  have fits: "1 + fields_need kvs \<le> MAX_ENVELOPE_BYTES"
    using assms(1,2) by (simp add: source_honest_def)
  have decode: "deferred_decode (d t) (packed (untyped kvs)) = d t (Json m (JObj (untyped kvs)))"
    if "distinct (map fst kvs)" for t
  proof -
    have "1 + fields_need (untyped kvs) \<le> MAX_ENVELOPE_BYTES"
      using fits fields_need_filter [of "\<lambda>kv. fst kv \<noteq> ''type''" kvs] by linarith
    moreover have "distinct (map fst (untyped kvs))" using that by (rule distinct_map_filter)
    ultimately obtain n' where
      "deferred_decode (d t) (packed (untyped kvs)) = d t (Json n' (JObj (untyped kvs)))"
      using decode_packed [of "untyped kvs" "d t"] by blast
    then show ?thesis using assms(3) [of t n' "JObj (untyped kvs)" m] by simp
  qed
  have visit: "message_visit dt kvs None deferred_new =
    (if set (map fst kvs) \<subseteq> set MESSAGE_FIELDS \<and> distinct (map fst kvs)
     then (case map_of kvs ''type'' of
             None \<Rightarrow> Some (None, packed (untyped kvs))
           | Some v \<Rightarrow> map_option (\<lambda>t. (Some t, packed (untyped kvs))) (dt v))
     else None)"
    using message_visit_eq [of "[]" kvs dt None, unfolded append_Nil] fits by (simp add: packed_nil)
  show ?thesis
  proof (cases "set (map fst kvs) \<subseteq> set MESSAGE_FIELDS \<and> distinct (map fst kvs)")
    case True
    then show ?thesis
    proof (cases "map_of kvs ''type''")
      case None
      then show ?thesis unfolding visit by (simp only: True if_True) simp
    next
      case (Some v)
      then show ?thesis
        unfolding visit using True decode by (cases "dt v") (simp_all only: if_True, simp_all)
    qed
  next
    case False
    then show ?thesis unfolding visit by (simp only: if_False) simp
  qed
qed

lemma struct_fields_len: "struct_fields spec (Json m b) = struct_fields spec (Json m' b)"
  by (simp add: struct_fields_def)

lemmas struct_decoder_defs =
  dec_hello_def dec_progress_def dec_response_def dec_wire_error_def dec_nonce_def dec_cancel_def
  dec_request_def

lemma plugin_struct_len: "plugin_struct hy dr t (Json m b) = plugin_struct hy dr t (Json m' b)"
  by (cases t) (simp_all add: struct_decoder_defs struct_fields_def)

lemma broker_struct_len: "broker_struct di t (Json m b) = broker_struct di t (Json m' b)"
  by (cases t) (simp_all add: struct_decoder_defs struct_fields_def)

lemma plugin_struct_perm:
  "mset kvs = mset kvs' \<Longrightarrow>
     plugin_struct hy dr t (Json m (JObj kvs)) = plugin_struct hy dr t (Json m' (JObj kvs'))"
  by (cases t) (simp_all add: struct_decoder_defs struct_fields_perm [of kvs kvs' _ m m'])

lemma escape_len_pos: "1 \<le> escape_len c"
  by (simp add: escape_len_def Let_def)

lemma quoted_len_ge: "length s + 2 \<le> quoted_len s"
proof (induction s)
  case (Cons c s)
  then show ?case using escape_len_pos [of c] by (simp add: quoted_len_def)
qed (simp add: quoted_len_def)

lemma js_obj_honest: "source_honest (js_obj kvs)"
proof (cases "kvs = []")
  case False
  have "fields_need kvs \<le> sum_list (map (\<lambda>(k, v). quoted_len k + 1 + src_len v) kvs) + length kvs"
  proof (induction kvs)
    case (Cons kv kvs)
    then show ?case using quoted_len_ge [of "fst kv"] by (cases kv) simp
  qed simp
  then show ?thesis using False by (cases kvs) (simp_all add: source_honest_def js_obj_def commas_def)
qed (simp add: source_honest_def js_obj_def)

lemma dec_target_enc:
  "\<forall>k \<in> set_option target. bounded_ok FILE_KEY k \<Longrightarrow> dec_target (enc_target target) = Some target"
  by (cases target)
    (simp_all add: dec_target_def enc_target_def field_opt_def field_default_def dec_option_def)

lemma dec_enc_broker_message:
  assumes "broker_message_ok m" and "enc_broker_to_plugin ei m = Some j"
    and "src_len j \<le> MAX_ENVELOPE_BYTES"
    and "\<And>r op. m = BRequest r \<Longrightarrow> ei (rq_operation r) = Some op \<Longrightarrow> di op = Some (rq_operation r)"
  shows "dec_broker_to_plugin di j = Some m"
proof -
  obtain kvs where j: "j = js_obj kvs"
    using assms(2) by (cases m) (auto simp: bind_eq_Some_conv)
  have eq: "dec_broker_to_plugin di (js_obj kvs) =
    (if set (map fst kvs) \<subseteq> set MESSAGE_FIELDS \<and> distinct (map fst kvs)
     then do { v \<leftarrow> map_of kvs ''type''; t \<leftarrow> dec_broker_tag v;
               broker_struct di t (Json 0 (JObj (untyped kvs))) }
     else None)"
    using message_visit_decode [of _ kvs "broker_struct di" dec_broker_tag 0]
      broker_struct_len [of di] js_obj_honest [of kvs] assms(3)
    by (simp add: dec_broker_to_plugin_def js_obj_def j)
  have kvs: "js_obj kvs = js_obj kvs' \<Longrightarrow> kvs = kvs'" for kvs'
    by (simp add: js_obj_def)
  show ?thesis
    using assms(1,2,4) unfolding j eq
    by (cases m)
      (auto simp: bind_eq_Some_conv MESSAGE_FIELDS_def dec_broker_tag_def dec_request_def
        dec_cancel_def dec_nonce_def struct_fields_def field_req_def dec_target_enc dest!: kvs [OF sym])
qed

section \<open>Properties\<close>

text \<open>
  C23. A plugin frame within the transport limit decodes exactly when its fields are known, none
  comes twice, one of them is a valid tag, and the struct of that tag decodes from the others: the
  tag may stand anywhere, and the deferral's own size limit never refuses such a frame.
\<close>

theorem plugin_message_decoded:
  assumes "source_honest (Json n (JObj kvs))" and "n \<le> MAX_ENVELOPE_BYTES"
  shows "dec_plugin_to_broker hyphenated dr (Json n (JObj kvs)) =
    (if set (map fst kvs) \<subseteq> set MESSAGE_FIELDS \<and> distinct (map fst kvs)
     then do { v \<leftarrow> map_of kvs ''type''; t \<leftarrow> dec_plugin_tag v;
               plugin_struct hyphenated dr t (Json m (JObj (untyped kvs))) }
     else None)"
  using message_visit_decode [OF assms, of "plugin_struct hyphenated dr" dec_plugin_tag m]
    plugin_struct_len [of hyphenated dr]
  by (simp add: dec_plugin_to_broker_def)

definition late_tag :: "(string \<times> json) list" where
  "late_tag = [(''nonce'', js_uint 7), (''type'', js_str ''pong'')]"

theorem plugin_message_decoded_witness:
  "dec_plugin_to_broker Some (\<lambda>_. Some ()) (js_obj late_tag) = Some (PPong 7)"
proof -
  have obj: "js_obj late_tag = Json 25 (JObj late_tag)"
    by (simp add: late_tag_def js_defs quoted_len_def escape_len_def digits_len.simps commas_def)
  have "source_honest (Json 25 (JObj late_tag))"
    by (simp add: late_tag_def source_honest_def js_defs quoted_len_def escape_len_def
        digits_len.simps)
  then show ?thesis
    unfolding obj
    by (subst plugin_message_decoded [where m = 0])
      (simp_all add: limit_defs late_tag_def MESSAGE_FIELDS_def dec_plugin_tag_def dec_nonce_def
        struct_fields_def field_req_def)
qed

text \<open>
  The order of the fields of a plugin frame carries no meaning: two frames with the same
  fields decode alike.
\<close>

theorem plugin_message_order:
  assumes "mset kvs = mset kvs'"
    and "source_honest (Json n (JObj kvs))" and "n \<le> MAX_ENVELOPE_BYTES"
    and "source_honest (Json n' (JObj kvs'))" and "n' \<le> MAX_ENVELOPE_BYTES"
  shows "dec_plugin_to_broker hyphenated dr (Json n (JObj kvs)) =
    dec_plugin_to_broker hyphenated dr (Json n' (JObj kvs'))"
proof (cases "distinct (map fst kvs)")
  case True
  have "mset (untyped kvs) = mset (untyped kvs')" using assms(1) by (simp add: mset_filter)
  then have "plugin_struct hyphenated dr t (Json 0 (JObj (untyped kvs))) =
      plugin_struct hyphenated dr t (Json 0 (JObj (untyped kvs')))" for t
    by (rule plugin_struct_perm)
  then show ?thesis
    unfolding plugin_message_decoded [OF assms(2,3), of _ _ 0]
      plugin_message_decoded [OF assms(4,5), of _ _ 0]
      keys_mset_cong [OF assms(1)] map_of_mset_cong [OF assms(1) True] by simp
next
  case False
  then show ?thesis
    using keys_mset_cong(1) [OF assms(1)]
    unfolding plugin_message_decoded [OF assms(2,3), of _ _ 0]
      plugin_message_decoded [OF assms(4,5), of _ _ 0] by simp
qed

theorem plugin_message_order_witness:
  "dec_plugin_to_broker Some (\<lambda>_. Some ()) (js_obj late_tag) =
   dec_plugin_to_broker Some (\<lambda>_. Some ()) (js_obj (rev late_tag))"
proof -
  have obj: "js_obj late_tag = Json 25 (JObj late_tag)"
    "js_obj (rev late_tag) = Json 25 (JObj (rev late_tag))"
    by (simp_all add: late_tag_def js_defs quoted_len_def escape_len_def digits_len.simps commas_def)
  have "source_honest (Json 25 (JObj late_tag))" "source_honest (Json 25 (JObj (rev late_tag)))"
    by (simp_all add: late_tag_def source_honest_def js_defs quoted_len_def escape_len_def
        digits_len.simps)
  then show ?thesis
    unfolding obj by (intro plugin_message_order) (simp_all add: limit_defs)
qed

text \<open>
  What the broker writes to a plugin is what a peer reads: every message that fits the
  envelope, with identifiers within their bounds, decodes back to itself.
\<close>

theorem broker_message_roundtrip:
  assumes "broker_message_ok m" and "enc_broker_to_plugin ei m = Some j"
    and "src_len j \<le> MAX_ENVELOPE_BYTES"
    and "\<And>i op. ei i = Some op \<Longrightarrow> di op = Some i"
  shows "dec_broker_to_plugin di j = Some m"
  by (rule dec_enc_broker_message [OF assms(1-3)]) (rule assms(4))

theorem broker_message_roundtrip_witness:
  "dec_broker_to_plugin dec_bool (the (enc_broker_to_plugin (Some \<circ> js_bool)
     (BRequest \<lparr>rq_request_id = ''r'', rq_deadline_ms = 9, rq_target = Some ''k'',
                rq_operation = True\<rparr>))) =
   Some (BRequest \<lparr>rq_request_id = ''r'', rq_deadline_ms = 9, rq_target = Some ''k'',
                   rq_operation = True\<rparr>)"
  by (rule broker_message_roundtrip [where ei = "Some \<circ> js_bool"],
      simp add: bounded_ok_def newtype_defs limit_defs, simp add: enc_target_def,
      simp add: js_defs enc_target_def quoted_len_def escape_len_def digits_len.simps commas_def limit_defs,
      auto simp: dec_bool_def js_defs)

end
