(* ===== verification/Queue.thy ===== *)
theory Queue
  imports Config
begin

text \<open>
  The bounded admission queue of one connection (\<open>crates/broker/src/queue.rs\<close>). The mutex
  makes each operation atomic, so an operation is a function from the protected state to the
  new state. The one-shot channels it signals are outputs: the tickets granted, in order.
  Whether the receiver of a waiter still exists (its \<open>DispatchWait\<close> may have been dropped) is
  the environment's choice, the argument \<open>alive\<close>.
\<close>

section \<open>State and operations\<close>

datatype queue_error = QueueFull | QueueCancelled

record waiter =
  waiter_id :: u64

record queue_inner =
  next_id :: u64
  in_flight :: nat
  waiting :: "waiter list"
  active :: "(u64, unit) hash_map"

definition queue_new :: queue_inner where
  "queue_new = \<lparr>next_id = 1, in_flight = 0, waiting = [], active = []\<rparr>"

text \<open>
  \<open>try_enqueue\<close> draws the identifier before it decides, so a refused request consumes one too.
  The last component lists the waiters signalled \<open>Ok\<close> by the call.
\<close>

definition try_enqueue :: "queue_inner \<Rightarrow> queue_inner \<times> (queue_error + u64) \<times> u64 list" where
  "try_enqueue q =
     (let id = next_id q;
          q = q\<lparr>next_id := sat_succ (next_id q)\<rparr>
      in if in_flight q < MAX_IN_FLIGHT \<and> waiting q = []
         then (q\<lparr>in_flight := in_flight q + 1, active := hm_insert id () (active q)\<rparr>, Inr id, [id])
         else if MAX_QUEUE \<le> length (waiting q) then (q, Inl QueueFull, [])
         else (q\<lparr>waiting := waiting q @ [\<lparr>waiter_id = id\<rparr>]\<rparr>, Inr id, []))"

definition queue_snapshot :: "queue_inner \<Rightarrow> nat \<times> nat" where
  "queue_snapshot q = (in_flight q, length (waiting q))"

function promote :: "(u64 \<Rightarrow> bool) \<Rightarrow> queue_inner \<Rightarrow> queue_inner \<times> u64 list" where
  "promote alive q =
     (if in_flight q < MAX_IN_FLIGHT then
        case waiting q of
          [] \<Rightarrow> (q, [])
        | w # ws \<Rightarrow>
            let next = waiter_id w;
                q = q\<lparr>waiting := ws, in_flight := in_flight q + 1,
                      active := hm_insert next () (active q)\<rparr>
            in if alive next
               then (let (q', granted) = promote alive q in (q', next # granted))
               else promote alive (q\<lparr>in_flight := in_flight q - 1,
                                     active := hm_remove next (active q)\<rparr>)
      else (q, []))"
  by pat_completeness auto
termination
  by (relation "measure (\<lambda>(alive, q). length (waiting q))") auto

declare promote.simps [simp del]

definition queue_release :: "(u64 \<Rightarrow> bool) \<Rightarrow> u64 \<Rightarrow> queue_inner \<Rightarrow> queue_inner \<times> u64 list" where
  "queue_release alive t q =
     (case position (\<lambda>w. waiter_id w = t) (waiting q) of
        Some index \<Rightarrow> (q\<lparr>waiting := remove_at index (waiting q)\<rparr>, [])
      | None \<Rightarrow>
          if hm_contains (active q) t
          then promote alive (q\<lparr>active := hm_remove t (active q), in_flight := in_flight q - 1\<rparr>)
          else (q, []))"

text \<open>\<open>DispatchWait::wait\<close>: a receiver whose sender is gone reads as cancelled.\<close>

definition dispatch_wait :: "(queue_error + unit) option \<Rightarrow> queue_error + unit" where
  "dispatch_wait received = (case received of Some r \<Rightarrow> r | None \<Rightarrow> Inl QueueCancelled)"

section \<open>The invariant\<close>

abbreviation waiting_ids :: "queue_inner \<Rightarrow> u64 list" where
  "waiting_ids q \<equiv> map waiter_id (waiting q)"

abbreviation active_ids :: "queue_inner \<Rightarrow> u64 list" where
  "active_ids q \<equiv> hm_keys (active q)"

definition tickets :: "queue_inner \<Rightarrow> u64 set" where
  "tickets q = set (active_ids q) \<union> set (waiting_ids q)"

text \<open>
  The core: the counter is the number of active tickets, no ticket occurs twice, waiters
  queue in the order of their identifiers, and every identifier is below the next one.
\<close>

definition queue_core :: "queue_inner \<Rightarrow> bool" where
  "queue_core q \<longleftrightarrow>
     in_flight q = length (active q) \<and>
     distinct (active_ids q) \<and> sorted_wrt (<) (waiting_ids q) \<and>
     (\<forall>a \<in> set (active_ids q). \<forall>w \<in> set (waiting_ids q). a < w) \<and>
     (\<forall>i \<in> tickets q. i < next_id q)"

text \<open>The bounds, and work conservation: nobody waits while a slot is free.\<close>

definition queue_inv :: "queue_inner \<Rightarrow> bool" where
  "queue_inv q \<longleftrightarrow> queue_core q \<and>
     in_flight q \<le> MAX_IN_FLIGHT \<and> length (waiting q) \<le> MAX_QUEUE \<and>
     (waiting q \<noteq> [] \<longrightarrow> in_flight q = MAX_IN_FLIGHT)"

lemma queue_new_inv [simp]: "queue_inv queue_new"
  by (simp add: queue_inv_def queue_core_def queue_new_def tickets_def)

lemma tickets_new [simp]: "tickets queue_new = {}"
  by (simp add: tickets_def queue_new_def)

lemma core_fresh: "queue_core q \<Longrightarrow> next_id q \<notin> tickets q"
  unfolding queue_core_def by (metis order_less_irrefl)

lemma core_active_fresh: "queue_core q \<Longrightarrow> map_of (active q) (next_id q) = None"
  using core_fresh by (auto simp: tickets_def map_of_eq_None_iff)

lemma core_waiting_not_active:
  "queue_core q \<Longrightarrow> w \<in> set (waiting_ids q) \<Longrightarrow> map_of (active q) w = None"
  unfolding queue_core_def map_of_eq_None_iff by (metis order_less_irrefl set_map)

lemma core_distinct_waiting: "queue_core q \<Longrightarrow> distinct (waiting_ids q)"
  unfolding queue_core_def strict_sorted_iff by blast

lemma core_pop_grant:
  assumes "queue_core q" and "waiting q = w # ws"
  shows "queue_core (q\<lparr>waiting := ws, in_flight := in_flight q + 1,
                      active := active q @ [(waiter_id w, ())]\<rparr>)"
  using assms by (auto simp: queue_core_def tickets_def)

lemma core_pop_drop:
  assumes "queue_core q" and "waiting q = w # ws"
  shows "queue_core (q\<lparr>waiting := ws\<rparr>)"
  using assms by (auto simp: queue_core_def tickets_def)

text \<open>One turn of the \<open>promote\<close> loop, once the identifiers are known to be fresh.\<close>

lemma promote_unfold:
  assumes "queue_core q"
  shows "promote alive q =
     (if in_flight q < MAX_IN_FLIGHT then
        case waiting q of
          [] \<Rightarrow> (q, [])
        | w # ws \<Rightarrow>
            if alive (waiter_id w)
            then (let (q', granted) =
                    promote alive (q\<lparr>waiting := ws, in_flight := in_flight q + 1,
                                     active := active q @ [(waiter_id w, ())]\<rparr>)
                  in (q', waiter_id w # granted))
            else promote alive (q\<lparr>waiting := ws\<rparr>)
      else (q, []))"
proof (cases "waiting q")
  case Nil
  then show ?thesis by (simp add: promote.simps)
next
  case (Cons w ws)
  have absent: "map_of (active q) (waiter_id w) = None"
    using assms Cons by (simp add: core_waiting_not_active)
  then have "hm_remove (waiter_id w) (active q @ [(waiter_id w, ())]) = active q"
    by (rule hm_remove_fresh)
  then show ?thesis
    using Cons absent by (simp add: promote.simps [of alive q] hm_insert_fresh Let_def)
qed

lemma promote_induct [consumes 1, case_names full empty grant drop]:
  assumes "queue_core q"
    and "\<And>q. queue_core q \<Longrightarrow> MAX_IN_FLIGHT \<le> in_flight q \<Longrightarrow> P q (q, [])"
    and "\<And>q. queue_core q \<Longrightarrow> in_flight q < MAX_IN_FLIGHT \<Longrightarrow> waiting q = [] \<Longrightarrow> P q (q, [])"
    and "\<And>q w ws q' g. queue_core q \<Longrightarrow> in_flight q < MAX_IN_FLIGHT \<Longrightarrow> waiting q = w # ws \<Longrightarrow>
          alive (waiter_id w) \<Longrightarrow>
          P (q\<lparr>waiting := ws, in_flight := in_flight q + 1,
               active := active q @ [(waiter_id w, ())]\<rparr>) (q', g) \<Longrightarrow>
          P q (q', waiter_id w # g)"
    and "\<And>q w ws r. queue_core q \<Longrightarrow> in_flight q < MAX_IN_FLIGHT \<Longrightarrow> waiting q = w # ws \<Longrightarrow>
          \<not> alive (waiter_id w) \<Longrightarrow> P (q\<lparr>waiting := ws\<rparr>) r \<Longrightarrow> P q r"
  shows "P q (promote alive q)"
  using assms(1)
proof (induction "length (waiting q)" arbitrary: q)
  case 0
  then show ?case using assms(2,3) by (simp add: promote_unfold not_less)
next
  case (Suc n)
  then obtain w ws where ws: "waiting q = w # ws" by (cases "waiting q") auto
  consider "MAX_IN_FLIGHT \<le> in_flight q"
    | "in_flight q < MAX_IN_FLIGHT" "alive (waiter_id w)"
    | "in_flight q < MAX_IN_FLIGHT" "\<not> alive (waiter_id w)" by fastforce
  then show ?case
  proof cases
    case 1
    then show ?thesis using Suc.prems assms(2) by (simp add: promote_unfold)
  next
    case 2
    let ?q = "q\<lparr>waiting := ws, in_flight := in_flight q + 1,
                active := active q @ [(waiter_id w, ())]\<rparr>"
    have "P ?q (promote alive ?q)"
      using Suc.hyps ws core_pop_grant [OF Suc.prems ws] by simp
    then show ?thesis
      using assms(4) [OF Suc.prems 2(1) ws 2(2)] 2 ws
      by (auto simp: promote_unfold [OF Suc.prems] split: prod.splits)
  next
    case 3
    have "P (q\<lparr>waiting := ws\<rparr>) (promote alive (q\<lparr>waiting := ws\<rparr>))"
      using Suc.hyps ws core_pop_drop [OF Suc.prems ws] by simp
    then show ?thesis
      using assms(5) [OF Suc.prems 3(1) ws 3(2)] 3 ws
      by (simp add: promote_unfold [OF Suc.prems])
  qed
qed

definition promote_spec :: "(u64 \<Rightarrow> bool) \<Rightarrow> queue_inner \<Rightarrow> queue_inner \<times> u64 list \<Rightarrow> bool" where
  "promote_spec alive q r \<longleftrightarrow>
     (let (q', granted) = r in
        queue_core q' \<and> next_id q' = next_id q \<and>
        in_flight q' = in_flight q + length granted \<and>
        active q' = active q @ map (\<lambda>i. (i, ())) granted \<and>
        (\<exists>skipped. waiting q = skipped @ waiting q' \<and>
           granted = filter alive (map waiter_id skipped)) \<and>
        (waiting q' = [] \<or> MAX_IN_FLIGHT \<le> in_flight q') \<and>
        (in_flight q \<le> MAX_IN_FLIGHT \<longrightarrow> in_flight q' \<le> MAX_IN_FLIGHT))"

lemma promote_meets_spec: "queue_core q \<Longrightarrow> promote_spec alive q (promote alive q)"
proof (induction q rule: promote_induct)
  case (grant q w ws q' g)
  then obtain skipped where "ws = skipped @ waiting q'" "g = filter alive (map waiter_id skipped)"
    by (auto simp: promote_spec_def)
  with grant.hyps(4) have "ws = skipped @ waiting q'"
    "waiter_id w # g = filter alive (map waiter_id (w # skipped))"
    by simp_all
  then have "\<exists>skipped. waiting q = skipped @ waiting q' \<and>
               waiter_id w # g = filter alive (map waiter_id skipped)"
    using grant.hyps(3) by (metis append_Cons)
  with grant show ?case by (auto simp: promote_spec_def)
next
  case (drop q w ws r)
  then obtain skipped where "ws = skipped @ waiting (fst r)"
    "snd r = filter alive (map waiter_id skipped)"
    by (auto simp: promote_spec_def)
  with drop.hyps(3,4) have "waiting q = (w # skipped) @ waiting (fst r) \<and>
      snd r = filter alive (map waiter_id (w # skipped))"
    by simp
  then have "\<exists>skipped. waiting q = skipped @ waiting (fst r) \<and>
               snd r = filter alive (map waiter_id skipped)"
    by blast
  with drop show ?case by (auto simp: promote_spec_def)
qed (simp_all add: promote_spec_def)

section \<open>What the operations do\<close>

lemma try_enqueue_inv:
  assumes "queue_inv q" and "next_id q \<noteq> - 1"
  shows "queue_inv (fst (try_enqueue q))"
proof -
  have below: "next_id q < sat_succ (next_id q)"
    using assms(2) by (rule sat_succ_below)
  have "\<forall>i \<in> tickets q. i < sat_succ (next_id q)"
    using assms(1) below unfolding queue_inv_def queue_core_def by (meson order.strict_trans)
  moreover have "map_of (active q) (next_id q) = None"
    using assms(1) by (simp add: queue_inv_def core_active_fresh)
  moreover have "next_id q \<notin> set (active_ids q)"
    using assms(1) core_fresh by (auto simp: queue_inv_def tickets_def)
  ultimately show ?thesis
    using assms(1) below
    by (auto simp: try_enqueue_def queue_inv_def queue_core_def tickets_def Let_def
        hm_insert_fresh sorted_wrt_append)
qed

lemma try_enqueue_tickets:
  assumes "queue_inv q"
  shows "tickets (fst (try_enqueue q)) =
    (case fst (snd (try_enqueue q)) of Inl _ \<Rightarrow> tickets q | Inr t \<Rightarrow> insert t (tickets q))"
  using assms core_active_fresh [of q]
  by (auto simp: try_enqueue_def Let_def tickets_def hm_insert_fresh queue_inv_def)

lemma try_enqueue_fresh:
  "queue_inv q \<Longrightarrow> fst (snd (try_enqueue q)) = Inr t \<Longrightarrow> t \<notin> tickets q"
  using core_fresh [of q] by (auto simp: try_enqueue_def Let_def queue_inv_def split: if_splits)

lemma core_remove_waiter:
  "queue_core q \<Longrightarrow> queue_core (q\<lparr>waiting := filter f (waiting q)\<rparr>)"
  by (auto simp: queue_core_def tickets_def sorted_wrt_filter sorted_wrt_map)

lemma core_remove_active:
  assumes "queue_core q" and "map_of (active q) t = Some ()"
  shows "queue_core (q\<lparr>active := hm_remove t (active q), in_flight := in_flight q - 1\<rparr>)"
proof -
  have "Suc (length (hm_remove t (active q))) = length (active q)"
    using assms by (intro length_hm_remove) (auto simp: queue_core_def)
  then show ?thesis
    using assms by (auto simp: queue_core_def tickets_def distinct_delete delete_keys distinct_removeAll)
qed

lemma release_waiting:
  assumes "queue_inv q" and "t \<in> set (waiting_ids q)"
  shows "queue_release alive t q =
    (q\<lparr>waiting := filter (\<lambda>w. waiter_id w \<noteq> t) (waiting q)\<rparr>, [])"
proof -
  obtain i where "position (\<lambda>w. waiter_id w = t) (waiting q) = Some i"
    using assms(2) by (cases "position (\<lambda>w. waiter_id w = t) (waiting q)")
      (auto simp: position_None_iff)
  moreover from this have "remove_at i (waiting q) = filter (\<lambda>w. waiter_id w \<noteq> t) (waiting q)"
    using assms(1) by (intro remove_at_position) (simp_all add: queue_inv_def core_distinct_waiting)
  ultimately show ?thesis by (simp add: queue_release_def)
qed

lemma release_active:
  assumes "queue_inv q" and "t \<in> set (active_ids q)"
  shows "queue_release alive t q =
    promote alive (q\<lparr>active := hm_remove t (active q), in_flight := in_flight q - 1\<rparr>)"
    and "map_of (active q) t = Some ()"
proof -
  have "t \<notin> set (waiting_ids q)"
    using assms core_waiting_not_active by (fastforce simp: queue_inv_def map_of_eq_None_iff)
  then have "position (\<lambda>w. waiter_id w = t) (waiting q) = None"
    by (auto simp: position_None_iff)
  moreover show "map_of (active q) t = Some ()"
    using assms(2) by (cases "map_of (active q) t") (simp_all add: map_of_eq_None_iff)
  ultimately show "queue_release alive t q =
    promote alive (q\<lparr>active := hm_remove t (active q), in_flight := in_flight q - 1\<rparr>)"
    by (simp add: queue_release_def)
qed

lemma release_absent:
  "t \<notin> tickets q \<Longrightarrow> queue_release alive t q = (q, [])"
  by (auto simp: queue_release_def tickets_def position_None_iff map_of_eq_None_iff
      split: option.split dest!: position_SomeD)

lemma queue_release_inv:
  assumes "queue_inv q"
  shows "queue_inv (fst (queue_release alive t q))"
proof -
  consider "t \<in> set (waiting_ids q)" | "t \<in> set (active_ids q)" | "t \<notin> tickets q"
    by (auto simp: tickets_def)
  then show ?thesis
  proof cases
    case 1
    show ?thesis
      using assms release_waiting [OF assms 1] core_remove_waiter [of q]
      by (auto simp: queue_inv_def intro: le_trans [OF length_filter_le])
  next
    case 2
    let ?q = "q\<lparr>active := hm_remove t (active q), in_flight := in_flight q - 1\<rparr>"
    have "promote_spec alive ?q (promote alive ?q)"
      using assms release_active(2) [OF assms 2]
      by (intro promote_meets_spec core_remove_active) (simp_all add: queue_inv_def)
    then show ?thesis
      using assms release_active(1) [OF assms 2]
      by (auto simp: promote_spec_def queue_inv_def split: prod.splits)
  next
    case 3
    then show ?thesis using assms by (simp add: release_absent)
  qed
qed

lemma release_tickets:
  assumes "queue_inv q"
  shows "tickets (fst (queue_release alive t q)) \<subseteq> tickets q - {t}"
    and "{t' \<in> tickets q - {t}. alive t' \<or> t' \<in> set (active_ids q)}
      \<subseteq> tickets (fst (queue_release alive t q))"
proof -
  let ?r = "queue_release alive t q"
  consider "t \<in> set (waiting_ids q)" | "t \<in> set (active_ids q)" | "t \<notin> tickets q"
    by (auto simp: tickets_def)
  then have "tickets (fst ?r) \<subseteq> tickets q - {t} \<and>
      {t' \<in> tickets q - {t}. alive t' \<or> t' \<in> set (active_ids q)} \<subseteq> tickets (fst ?r)"
  proof cases
    case 1
    then have "t \<notin> set (active_ids q)"
      using assms core_waiting_not_active by (fastforce simp: queue_inv_def map_of_eq_None_iff)
    then show ?thesis
      using release_waiting [OF assms 1] by (auto simp: tickets_def)
  next
    case 2
    let ?q = "q\<lparr>active := hm_remove t (active q), in_flight := in_flight q - 1\<rparr>"
    have "promote_spec alive ?q ?r"
      unfolding release_active(1) [OF assms 2]
      using assms release_active(2) [OF assms 2]
      by (intro promote_meets_spec core_remove_active) (simp_all add: queue_inv_def)
    then obtain skipped where
      active: "active (fst ?r) = hm_remove t (active q) @ map (\<lambda>i. (i, ())) (snd ?r)" and
      waiting: "waiting q = skipped @ waiting (fst ?r)" and
      granted: "snd ?r = filter alive (map waiter_id skipped)"
      by (auto simp: promote_spec_def split: prod.splits)
    have "t \<notin> set (waiting_ids q)"
      using assms 2 core_waiting_not_active by (fastforce simp: queue_inv_def map_of_eq_None_iff)
    then show ?thesis
      unfolding tickets_def active waiting granted by (auto simp: delete_keys image_iff)
  next
    case 3
    then show ?thesis by (auto simp: release_absent)
  qed
  then show "tickets (fst ?r) \<subseteq> tickets q - {t}"
    "{t' \<in> tickets q - {t}. alive t' \<or> t' \<in> set (active_ids q)} \<subseteq> tickets (fst ?r)"
    by auto
qed

section \<open>The admission interface\<close>

text \<open>
  What the broker relies on: an accepted request gets a ticket nobody holds, a refused one
  changes no ticket, and giving a ticket back removes it and no other live one.
\<close>

locale admission =
  fixes enq :: "'q \<Rightarrow> 'q \<times> ('e + 't) \<times> 't list"
    and rel :: "('t \<Rightarrow> bool) \<Rightarrow> 't \<Rightarrow> 'q \<Rightarrow> 'q \<times> 't list"
    and held :: "'q \<Rightarrow> 't set"
    and ok :: "'q \<Rightarrow> bool"
    and room :: "'q \<Rightarrow> bool"
  assumes enq_ok: "ok q \<Longrightarrow> room q \<Longrightarrow> ok (fst (enq q))"
    and enq_held: "ok q \<Longrightarrow> held (fst (enq q)) =
      (case fst (snd (enq q)) of Inl e \<Rightarrow> held q | Inr t \<Rightarrow> insert t (held q))"
    and enq_fresh: "ok q \<Longrightarrow> fst (snd (enq q)) = Inr t \<Longrightarrow> t \<notin> held q"
    and rel_ok: "ok q \<Longrightarrow> ok (fst (rel alive t q))"
    and rel_held: "ok q \<Longrightarrow> held (fst (rel alive t q)) \<subseteq> held q - {t}"
    and rel_live: "ok q \<Longrightarrow> t' \<in> held q \<Longrightarrow> t' \<noteq> t \<Longrightarrow> alive t' \<Longrightarrow>
      t' \<in> held (fst (rel alive t q))"
begin

lemma rel_all_live:
  "ok q \<Longrightarrow> (\<And>t'. t' \<in> held q \<Longrightarrow> alive t') \<Longrightarrow> held (fst (rel alive t q)) = held q - {t}"
  using rel_held rel_live by blast

lemma enq_rel:
  assumes "ok q" "room q" "fst (snd (enq q)) = Inr t" "\<And>t'. t' \<in> held q \<Longrightarrow> alive t'"
  shows "held (fst (rel alive t (fst (enq q)))) = held q"
proof -
  have enq: "held (fst (enq q)) = insert t (held q)" "t \<notin> held q" "ok (fst (enq q))"
    using assms enq_held enq_fresh enq_ok by simp_all
  have "held (fst (rel alive t (fst (enq q)))) \<subseteq> held q"
    using rel_held [OF enq(3), of alive t] enq(1) by auto
  moreover have "held q \<subseteq> held (fst (rel alive t (fst (enq q))))"
    using enq assms(4) by (auto intro!: rel_live [OF enq(3)])
  ultimately show ?thesis by blast
qed

text \<open>Giving back a list of tickets, as clearing the pending map of a socket does.\<close>

definition rel_all :: "('t \<Rightarrow> bool) \<Rightarrow> 't list \<Rightarrow> 'q \<Rightarrow> 'q" where
  "rel_all alive ts q = foldl (\<lambda>q t. fst (rel alive t q)) q ts"

lemma rel_all_ok: "ok q \<Longrightarrow> ok (rel_all alive ts q)"
  unfolding rel_all_def by (induction ts arbitrary: q) (simp_all add: rel_ok)

lemma rel_all_held: "ok q \<Longrightarrow> held (rel_all alive ts q) \<subseteq> held q - set ts"
proof (induction ts arbitrary: q)
  case Nil
  then show ?case by (simp add: rel_all_def)
next
  case (Cons t ts)
  have "held (rel_all alive ts (fst (rel alive t q))) \<subseteq> held (fst (rel alive t q)) - set ts"
    by (rule Cons.IH) (rule rel_ok [OF Cons.prems])
  then show ?case
    using rel_held [OF Cons.prems, of alive t] by (auto simp: rel_all_def)
qed

end

interpretation admit: admission try_enqueue queue_release tickets queue_inv
  "\<lambda>q. next_id q \<noteq> - 1"
  by unfold_locales
    (auto simp: try_enqueue_inv try_enqueue_tickets queue_release_inv
      dest: try_enqueue_fresh subsetD [OF release_tickets(1)]
      intro: subsetD [OF release_tickets(2)])

section \<open>Runs\<close>

text \<open>
  The events of a queue's life, with the log of the grants it signals. A release carries the
  waiters whose receiver is gone at that moment.
\<close>

datatype queue_event = Enqueue | Release u64 "u64 list"

fun queue_step :: "queue_inner \<times> u64 list \<Rightarrow> queue_event \<Rightarrow> queue_inner \<times> u64 list" where
  "queue_step (q, log) Enqueue =
     (case try_enqueue q of (q', r, granted) \<Rightarrow> (q', log @ granted))"
| "queue_step (q, log) (Release t dead) =
     (case queue_release (\<lambda>i. i \<notin> set dead) t q of (q', granted) \<Rightarrow> (q', log @ granted))"

definition queue_run :: "queue_event list \<Rightarrow> queue_inner \<times> u64 list" where
  "queue_run es = foldl queue_step (queue_new, []) es"

definition grants_inv :: "queue_inner \<times> u64 list \<Rightarrow> bool" where
  "grants_inv s \<longleftrightarrow> (case s of (q, log) \<Rightarrow>
     queue_inv q \<and> sorted_wrt (<) log \<and> set (active_ids q) \<subseteq> set log \<and>
     (\<forall>g \<in> set log. g < next_id q \<and> (\<forall>w \<in> set (waiting_ids q). g < w)))"

lemma enqueue_grants:
  assumes "grants_inv (q, log)" and "next_id q \<noteq> - 1"
  shows "grants_inv (queue_step (q, log) Enqueue)"
proof -
  note below = sat_succ_below [OF assms(2)]
  have inv: "queue_inv (fst (try_enqueue q))"
    using assms by (simp add: grants_inv_def try_enqueue_inv)
  have "map_of (active q) (next_id q) = None"
    using assms(1) by (simp add: grants_inv_def queue_inv_def core_active_fresh)
  moreover have "\<forall>g \<in> set log. g < sat_succ (next_id q)"
    using assms(1) below by (auto simp: grants_inv_def intro: order.strict_trans)
  ultimately show ?thesis
    using assms(1) below inv
    by (auto simp: grants_inv_def try_enqueue_def Let_def sorted_wrt_append hm_insert_fresh)
qed

lemma release_grants:
  assumes "grants_inv (q, log)"
  shows "grants_inv (queue_step (q, log) (Release t dead))"
proof -
  let ?alive = "\<lambda>i. i \<notin> set dead"
  have q: "queue_inv q" using assms by (simp add: grants_inv_def)
  have inv: "queue_inv (fst (queue_release ?alive t q))" using q by (rule queue_release_inv)
  consider "t \<in> set (waiting_ids q)" | "t \<in> set (active_ids q)" | "t \<notin> tickets q"
    by (auto simp: tickets_def)
  then show ?thesis
  proof cases
    case 1
    then show ?thesis
      using release_waiting [OF q 1, of ?alive] inv assms by (auto simp: grants_inv_def)
  next
    case 2
    let ?q = "q\<lparr>active := hm_remove t (active q), in_flight := in_flight q - 1\<rparr>"
    have "promote_spec ?alive ?q (queue_release ?alive t q)"
      unfolding release_active(1) [OF q 2]
      using q release_active(2) [OF q 2]
      by (intro promote_meets_spec core_remove_active) (simp_all add: queue_inv_def)
    then obtain q' granted skipped where
      release: "queue_release ?alive t q = (q', granted)" and
      next_id: "next_id q' = next_id q" and
      active: "active q' = hm_remove t (active q) @ map (\<lambda>i. (i, ())) granted" and
      waiting: "waiting q = skipped @ waiting q'" and
      granted: "granted = filter ?alive (map waiter_id skipped)"
      by (auto simp: promote_spec_def split: prod.splits)
    have ids: "waiting_ids q = map waiter_id skipped @ waiting_ids q'"
      by (simp add: waiting)
    have "sorted_wrt (<) (waiting_ids q)" "\<forall>w \<in> set (waiting_ids q). w < next_id q"
      using q by (auto simp: queue_inv_def queue_core_def tickets_def)
    then have sorted: "sorted_wrt (<) (map waiter_id skipped)"
      and skipped: "\<forall>s \<in> set (map waiter_id skipped). s < next_id q \<and>
        (\<forall>w \<in> set (waiting_ids q'). s < w)"
      unfolding ids by (auto simp: sorted_wrt_append)
    have "sorted_wrt (<) granted"
      unfolding granted using sorted by (rule sorted_wrt_filter)
    moreover have "set granted \<subseteq> set (map waiter_id skipped)" by (auto simp: granted)
    moreover have "sorted_wrt (<) log" "set (active_ids q) \<subseteq> set log"
      using assms by (auto simp: grants_inv_def)
    moreover have "\<forall>g \<in> set log. g < next_id q \<and>
      (\<forall>w \<in> set skipped \<union> set (waiting q'). g < waiter_id w)"
      using assms by (simp add: grants_inv_def waiting ball_Un)
    ultimately have "sorted_wrt (<) (log @ granted)" "set (active_ids q') \<subseteq> set (log @ granted)"
      "\<forall>g \<in> set (log @ granted). g < next_id q' \<and> (\<forall>w \<in> set (waiting_ids q'). g < w)"
      unfolding next_id active using skipped
      by (auto simp: sorted_wrt_append delete_keys subset_iff image_iff)
    then show ?thesis
      using inv release by (auto simp: grants_inv_def)
  next
    case 3
    then show ?thesis using assms by (simp add: release_absent)
  qed
qed

fun queue_can :: "queue_inner \<times> u64 list \<Rightarrow> queue_event \<Rightarrow> bool" where
  "queue_can (q, log) Enqueue = (next_id q \<noteq> - 1)"
| "queue_can (q, log) (Release t dead) = True"

interpretation queue_life: guarded_machine queue_step grants_inv queue_can
proof unfold_locales
  fix s e
  assume "grants_inv s" "queue_can s e"
  then show "grants_inv (queue_step s e)"
    by (cases s; cases e) (auto intro: enqueue_grants release_grants simp del: queue_step.simps)
qed

lemma release_next_id:
  assumes "queue_inv q"
  shows "next_id (fst (queue_release alive t q)) = next_id q"
proof -
  have "promote_spec alive r (promote alive r)" if "queue_core r" for r
    using that by (rule promote_meets_spec)
  then show ?thesis
    using core_remove_active [of q t] assms
    by (fastforce simp: queue_release_def promote_spec_def queue_inv_def split: option.split)
qed

lemma queue_step_next_id:
  "grants_inv s \<Longrightarrow> unat (next_id (fst (queue_step s e))) \<le> Suc (unat (next_id (fst s)))"
  using unat_sat_succ_le release_next_id
  by (cases s; cases e)
    (auto simp: try_enqueue_def Let_def grants_inv_def split: prod.split if_splits
      dest!: arg_cong [of _ _ fst])

text \<open>
  The counter starts at 1 and every event advances it at most by one, so it cannot reach its
  saturation point within the first \<open>2 ^ 64 - 2\<close> events.
\<close>

lemma queue_run_bounded:
  assumes "length es < 2 ^ 64 - 1"
  shows "grants_inv (queue_run es) \<and> unat (next_id (fst (queue_run es))) \<le> Suc (length es)"
  using assms
proof (induction es rule: rev_induct)
  case Nil
  then show ?case
    by (simp add: queue_run_def grants_inv_def) (simp add: queue_new_def)
next
  case (snoc e es)
  then have inv: "grants_inv (queue_run es)"
    and bound: "unat (next_id (fst (queue_run es))) \<le> Suc (length es)"
    by simp_all
  have "unat (next_id (fst (queue_run es))) < unat (- 1 :: u64)"
    using bound snoc.prems by (simp add: unsigned_minus_1_eq_mask mask_eq_exp_minus_1)
  then have "queue_can (queue_run es) e"
    by (cases "queue_run es"; cases e) auto
  then have "grants_inv (queue_run (es @ [e]))"
    using inv queue_life.guarded_step_inv by (simp add: queue_run_def)
  moreover have "unat (next_id (fst (queue_run (es @ [e])))) \<le> Suc (length (es @ [e]))"
    using queue_step_next_id [OF inv, of e] bound by (simp add: queue_run_def)
  ultimately show ?case by blast
qed

section \<open>Properties\<close>

text \<open>
  C19. Whatever the requests and releases, in any order and with any receivers gone, a queue
  never has more than four requests in flight nor more than sixteen waiting, counts exactly
  its active tickets, never holds a ticket twice, and lets nobody wait while a slot is free.
\<close>

theorem queue_bounds:
  assumes "length es < 2 ^ 64 - 1"
  shows "let q = fst (queue_run es) in
      in_flight q = length (active q) \<and> in_flight q \<le> 4 \<and> length (waiting q) \<le> 16 \<and>
      distinct (active_ids q @ waiting_ids q) \<and>
      (waiting q \<noteq> [] \<longrightarrow> queue_snapshot q = (4, length (waiting q)))"
proof -
  have inv: "queue_inv (fst (queue_run es))"
    using queue_run_bounded [OF assms] by (auto simp: grants_inv_def split: prod.splits)
  then have "set (active_ids (fst (queue_run es))) \<inter> set (waiting_ids (fst (queue_run es))) = {}"
    using core_waiting_not_active by (fastforce simp: queue_inv_def map_of_eq_None_iff)
  with inv show ?thesis
    using core_distinct_waiting [of "fst (queue_run es)"]
    by (auto simp: Let_def queue_inv_def queue_core_def queue_snapshot_def limit_defs)
qed

theorem queue_bounds_witness:
  "in_flight (fst (queue_run [Enqueue, Enqueue, Release 1 []])) \<le> 4"
  using queue_bounds [of "[Enqueue, Enqueue, Release 1 []]"] by (simp add: Let_def)

text \<open>
  Slots are granted in the order the requests arrived: the identifiers in the log of the
  grants increase strictly (so no request is granted twice), and whoever still waits came
  after every request granted so far.
\<close>

theorem queue_grants_in_order:
  assumes "length es < 2 ^ 64 - 1"
  shows "case queue_run es of (q, log) \<Rightarrow>
      sorted_wrt (<) log \<and> (\<forall>g \<in> set log. \<forall>w \<in> set (waiting q). g < waiter_id w)"
  using queue_run_bounded [OF assms] by (auto simp: grants_inv_def split: prod.splits)

theorem queue_grants_in_order_witness:
  "sorted_wrt (<) (snd (queue_run
      [Enqueue, Enqueue, Enqueue, Enqueue, Enqueue, Enqueue, Release 2 [], Release 3 []]))"
  using queue_grants_in_order [of "[Enqueue, Enqueue, Enqueue, Enqueue, Enqueue, Enqueue,
      Release 2 [], Release 3 []]"]
  by (auto split: prod.splits)

text \<open>
  A request is refused exactly when four are in flight and sixteen wait; it is dispatched
  at once exactly when a slot is free; and a refusal leaves the queue as it was, but for the
  identifier it consumed.
\<close>

theorem try_enqueue_outcome:
  assumes "queue_inv q"
  shows "(fst (snd (try_enqueue q)) = Inl QueueFull \<longleftrightarrow>
        in_flight q = MAX_IN_FLIGHT \<and> length (waiting q) = MAX_QUEUE)
    \<and> (snd (snd (try_enqueue q)) = [next_id q] \<longleftrightarrow> in_flight q < MAX_IN_FLIGHT)
    \<and> (fst (snd (try_enqueue q)) = Inl QueueFull \<longrightarrow>
        fst (try_enqueue q) = q\<lparr>next_id := sat_succ (next_id q)\<rparr>)"
  using assms
  by (auto simp: try_enqueue_def queue_inv_def Let_def limit_defs split: if_splits)

theorem try_enqueue_outcome_witness:
  "snd (snd (try_enqueue queue_new)) = [1]"
  using try_enqueue_outcome [OF queue_new_inv] by (simp add: queue_new_def limit_defs)

text \<open>
  When an active request gives its slot back while others wait, the slot goes to the first
  waiter whose receiver is still there, the dead waiters before it are dropped, and the others
  keep their places.
\<close>

theorem release_promotes_first_live:
  assumes "queue_inv q" and "t \<in> set (active_ids q)"
    and "waiting q = dead @ w # rest"
    and "\<forall>d \<in> set dead. \<not> alive (waiter_id d)" and "alive (waiter_id w)"
  shows "queue_release alive t q =
    (q\<lparr>waiting := rest, active := hm_remove t (active q) @ [(waiter_id w, ())]\<rparr>, [waiter_id w])"
proof -
  let ?q = "q\<lparr>active := hm_remove t (active q), in_flight := in_flight q - 1\<rparr>"
  have full: "in_flight q = 4" using assms(1,3) by (simp add: queue_inv_def limit_defs)
  have core: "queue_core ?q"
    using assms(1) release_active(2) [OF assms(1,2)]
    by (intro core_remove_active) (simp_all add: queue_inv_def)
  have skip: "promote alive ?q = promote alive (?q\<lparr>waiting := w # rest\<rparr>)
      \<and> queue_core (?q\<lparr>waiting := w # rest\<rparr>)"
    if "queue_core (?q\<lparr>waiting := ds @ w # rest\<rparr>)" "\<forall>d \<in> set ds. \<not> alive (waiter_id d)"
      "promote alive ?q = promote alive (?q\<lparr>waiting := ds @ w # rest\<rparr>)" for ds
    using that
  proof (induction ds)
    case (Cons d ds)
    have "queue_core (?q\<lparr>waiting := ds @ w # rest\<rparr>)"
      using core_pop_drop [OF Cons.prems(1), of d "ds @ w # rest"] by simp
    moreover have "promote alive (?q\<lparr>waiting := (d # ds) @ w # rest\<rparr>) =
        promote alive (?q\<lparr>waiting := ds @ w # rest\<rparr>)"
      using Cons.prems(2) full by (subst promote_unfold [OF Cons.prems(1)]) (simp add: limit_defs)
    then have "promote alive ?q = promote alive (?q\<lparr>waiting := ds @ w # rest\<rparr>)"
      using Cons.prems(3) by metis
    ultimately show ?case using Cons.IH Cons.prems(2) by simp
  qed simp
  have "?q = ?q\<lparr>waiting := dead @ w # rest\<rparr>" using assms(3) by simp
  then have "promote alive ?q = promote alive (?q\<lparr>waiting := w # rest\<rparr>)"
    and core': "queue_core (?q\<lparr>waiting := w # rest\<rparr>)"
    using skip [of dead] core assms(4) by auto
  moreover have "promote alive (?q\<lparr>waiting := w # rest\<rparr>) =
      (q\<lparr>waiting := rest, active := hm_remove t (active q) @ [(waiter_id w, ())]\<rparr>, [waiter_id w])"
    using full assms(5)
    by (subst promote_unfold [OF core'], cases q) (simp add: limit_defs promote.simps)
  ultimately show ?thesis
    using release_active(1) [OF assms(1,2), of alive] by simp
qed

definition full_queue :: queue_inner where
  "full_queue = fst (queue_run (replicate 7 Enqueue))"

theorem release_promotes_first_live_witness:
  "snd (queue_release (\<lambda>i. i \<noteq> 5) 2 full_queue) = [6]"
proof -
  have q: "full_queue = \<lparr>next_id = 8, in_flight = 4,
      waiting = [\<lparr>waiter_id = 5\<rparr>, \<lparr>waiter_id = 6\<rparr>, \<lparr>waiter_id = 7\<rparr>],
      active = [(1, ()), (2, ()), (3, ()), (4, ())]\<rparr>"
    by (simp add: full_queue_def queue_run_def numeral_eq_Suc queue_new_def) code_simp
  have "queue_inv full_queue"
    using queue_run_bounded [of "replicate 7 Enqueue"]
    by (auto simp: full_queue_def grants_inv_def split: prod.splits)
  then show ?thesis
    using release_promotes_first_live [of full_queue 2 "[\<lparr>waiter_id = 5\<rparr>]" "\<lparr>waiter_id = 6\<rparr>"
        "[\<lparr>waiter_id = 7\<rparr>]" "\<lambda>i. i \<noteq> 5"]
    by (simp add: q)
qed

end
