(* ===== verification/Pending.thy ===== *)
theory Pending
  imports Wire Queue
begin

text \<open>
  The map of admitted requests (\<open>crates/broker/src/pending.rs\<close>). A request is keyed by its socket
  and its identifier and owns the sender of a one-shot channel, the sender of a progress channel
  and an admission ticket. A one-shot channel is its number; the results sent, the progress sent
  and the tickets dropped are outputs of the operations, in order. The map's order is the
  iteration order of the hash map, which nothing below depends on.
\<close>

type_synonym uuid = nat
type_synonym instant = nat
type_synonym ticket = "uuid \<times> u64"
type_synonym 'r pending_result = "tool_error + 'r"

section \<open>Progress\<close>

datatype progress_phase = Queued | Reading | Serializing | Encoding | Completing

fun phase_as_str :: "progress_phase \<Rightarrow> string" where
  "phase_as_str Queued = ''queued''"
| "phase_as_str Reading = ''reading''"
| "phase_as_str Serializing = ''serializing''"
| "phase_as_str Encoding = ''encoding''"
| "phase_as_str Completing = ''completing''"

definition phase_from_message :: "string option \<Rightarrow> progress_phase" where
  "phase_from_message message =
     (if message = Some ''queued'' then Queued
      else if message = Some ''serializing'' then Serializing
      else if message = Some ''encoding'' then Encoding
      else if message = Some ''completing'' then Completing
      else Reading)"

record normalized_progress =
  np_completed :: u32
  np_total :: "u32 option"
  np_phase :: progress_phase

definition normalize_progress :: "progress \<Rightarrow> normalized_progress" where
  "normalize_progress p =
     \<lparr>np_completed = p_completed p, np_total = p_total p,
      np_phase = phase_from_message (p_message p)\<rparr>"

section \<open>State and operations\<close>

record pending_request =
  pr_socket :: uuid
  pr_request :: string
  pr_started_at :: nat
  pr_total_deadline :: instant
  pr_inactivity_deadline :: instant
  pr_sender :: nat
  pr_progress :: "nat option"
  pr_ticket :: "ticket option"

text \<open>What a caller passes to \<open>admit\<close>: the same fields but the result channel.\<close>

record admission_request =
  ar_socket :: uuid
  ar_request :: string
  ar_started_at :: nat
  ar_total_deadline :: instant
  ar_inactivity_deadline :: instant
  ar_progress :: "nat option"
  ar_ticket :: "ticket option"

type_synonym pending_map = "(uuid \<times> string, pending_request) hash_map"
type_synonym 'r deliveries = "(nat \<times> 'r pending_result) list"

datatype pending_error = DuplicateRequest

definition opt_list :: "'a option \<Rightarrow> 'a list" where
  "opt_list x = (case x of None \<Rightarrow> [] | Some a \<Rightarrow> [a])"

lemma opt_list_simps [simp]: "opt_list None = []" "opt_list (Some a) = [a]"
  by (simp_all add: opt_list_def)

text \<open>
  \<open>channel\<close> is the fresh one-shot channel; the last component lists the tickets dropped: a refused
  admission drops the ticket it was given.
\<close>

definition pending_admit ::
    "nat \<Rightarrow> admission_request \<Rightarrow> pending_map
      \<Rightarrow> pending_map \<times> (pending_error + nat) \<times> ticket list" where
  "pending_admit channel a m =
     (let key = (ar_socket a, ar_request a) in
      if hm_contains m key then (m, Inl DuplicateRequest, opt_list (ar_ticket a))
      else
        (hm_insert key
           \<lparr>pr_socket = ar_socket a, pr_request = ar_request a, pr_started_at = ar_started_at a,
            pr_total_deadline = ar_total_deadline a,
            pr_inactivity_deadline = ar_inactivity_deadline a,
            pr_sender = channel, pr_progress = ar_progress a, pr_ticket = ar_ticket a\<rparr> m,
         Inr channel, []))"

definition pending_insert ::
    "nat \<Rightarrow> uuid \<Rightarrow> string \<Rightarrow> nat \<Rightarrow> instant \<Rightarrow> pending_map
      \<Rightarrow> pending_map \<times> (pending_error + nat) \<times> ticket list" where
  "pending_insert channel socket request started deadline m =
     pending_admit channel
       \<lparr>ar_socket = socket, ar_request = request, ar_started_at = started,
        ar_total_deadline = deadline, ar_inactivity_deadline = deadline,
        ar_progress = None, ar_ticket = None\<rparr> m"

definition pending_contains :: "uuid \<Rightarrow> string \<Rightarrow> pending_map \<Rightarrow> bool" where
  "pending_contains socket request m = hm_contains m (socket, request)"

text \<open>
  Progress moves only the inactivity deadline; the last component lists what is put on progress
  channels. The result of \<open>try_send\<close> is ignored by the code.
\<close>

definition note_progress ::
    "instant \<Rightarrow> uuid \<Rightarrow> string \<Rightarrow> progress \<Rightarrow> pending_map
      \<Rightarrow> pending_map \<times> bool \<times> (nat \<times> normalized_progress) list" where
  "note_progress now socket request p m =
     (case hm_get m (socket, request) of
        None \<Rightarrow> (m, False, [])
      | Some e \<Rightarrow>
          (hm_insert (socket, request)
             (e\<lparr>pr_inactivity_deadline := now + from_secs INACTIVITY_TIMEOUT_SECS\<rparr>) m,
           True,
           map (\<lambda>c. (c, normalize_progress p)) (opt_list (pr_progress e))))"

definition pending_complete ::
    "uuid \<Rightarrow> string \<Rightarrow> 'r pending_result \<Rightarrow> pending_map
      \<Rightarrow> pending_map \<times> bool \<times> 'r deliveries \<times> ticket list" where
  "pending_complete socket request result m =
     (case hm_get m (socket, request) of
        None \<Rightarrow> (m, False, [], [])
      | Some e \<Rightarrow>
          (hm_remove (socket, request) m, True, [(pr_sender e, result)], opt_list (pr_ticket e)))"

definition pending_cancel ::
    "uuid \<Rightarrow> string \<Rightarrow> pending_map \<Rightarrow> pending_map \<times> bool \<times> 'r deliveries \<times> ticket list" where
  "pending_cancel socket request m =
     pending_complete socket request (Inl (tool_error_new Cancelled False)) m"

text \<open>The loop over collected keys: each entry still there is removed and told the error.\<close>

fun drain_keys ::
    "(uuid \<times> string) list \<Rightarrow> tool_error \<Rightarrow> pending_map \<Rightarrow> pending_map \<times> 'r deliveries \<times> ticket list"
  where
  "drain_keys [] e m = (m, [], [])"
| "drain_keys (k # ks) e m =
     (case hm_get m k of
        None \<Rightarrow> drain_keys ks e m
      | Some p \<Rightarrow>
          (case drain_keys ks e (hm_remove k m) of (m', ds, ts) \<Rightarrow>
             (m', (pr_sender p, Inl e) # ds, opt_list (pr_ticket p) @ ts)))"

definition is_expired :: "instant \<Rightarrow> pending_request \<Rightarrow> bool" where
  "is_expired now p \<longleftrightarrow> pr_total_deadline p \<le> now \<or> pr_inactivity_deadline p \<le> now"

definition take_expired ::
    "instant \<Rightarrow> pending_map
      \<Rightarrow> pending_map \<times> (uuid \<times> string) list \<times> 'r deliveries \<times> ticket list" where
  "take_expired now m =
     (let keys = map fst (filter (\<lambda>(k, p). is_expired now p) m) in
      case drain_keys keys (tool_error_new Timeout True) m of
        (m', ds, ts) \<Rightarrow> (m', keys, ds, ts))"

definition pending_expire ::
    "instant \<Rightarrow> pending_map \<Rightarrow> pending_map \<times> nat \<times> 'r deliveries \<times> ticket list" where
  "pending_expire now m =
     (case take_expired now m of (m', keys, ds, ts) \<Rightarrow> (m', length keys, ds, ts))"

definition remove_matching ::
    "(pending_request \<Rightarrow> bool) \<Rightarrow> error_code \<Rightarrow> pending_map
      \<Rightarrow> pending_map \<times> nat \<times> 'r deliveries \<times> ticket list" where
  "remove_matching p code m =
     (let keys = map fst (filter (\<lambda>(k, e). p e) m) in
      case drain_keys keys (tool_error_new code True) m of
        (m', ds, ts) \<Rightarrow> (m', length keys, ds, ts))"

definition pending_remove_socket ::
    "uuid \<Rightarrow> pending_map \<Rightarrow> pending_map \<times> nat \<times> 'r deliveries \<times> ticket list" where
  "pending_remove_socket socket m = remove_matching (\<lambda>e. pr_socket e = socket) ConnectionLost m"

definition pending_shutdown ::
    "pending_map \<Rightarrow> pending_map \<times> nat \<times> 'r deliveries \<times> ticket list" where
  "pending_shutdown m = remove_matching (\<lambda>_. True) ConnectionLost m"

section \<open>The drain loop in closed form\<close>

definition senders :: "pending_map \<Rightarrow> nat list" where
  "senders m = map (pr_sender \<circ> snd) m"

definition held_tickets :: "pending_map \<Rightarrow> ticket list" where
  "held_tickets m = concat (map (opt_list \<circ> pr_ticket \<circ> snd) m)"

lemma drain_keys_eq:
  assumes "hm_ok m" and "distinct ks" and "set ks \<subseteq> set (hm_keys m)"
  shows "(drain_keys ks e m :: pending_map \<times> 'r deliveries \<times> ticket list) =
    (hm_remove_all ks m,
     map (\<lambda>k. (pr_sender (the (hm_get m k)), Inl e)) ks,
     concat (map (\<lambda>k. opt_list (pr_ticket (the (hm_get m k)))) ks))"
  using assms
proof (induction ks arbitrary: m)
  case Nil
  then show ?case by (simp add: hm_remove_all_def)
next
  case (Cons k ks)
  then obtain p where p: "hm_get m k = Some p"
    by (cases "hm_get m k") (auto simp: map_of_eq_None_iff)
  have ok: "hm_ok (hm_remove k m)" using Cons.prems(1) by (rule hash.ok_del)
  have get: "hm_get (hm_remove k m) k' = hm_get m k'" if "k' \<in> set ks" for k'
    using that Cons.prems(2) by (auto simp: delete_conv')
  have "(drain_keys ks e (hm_remove k m) :: pending_map \<times> 'r deliveries \<times> ticket list) =
    (hm_remove_all ks (hm_remove k m),
     map (\<lambda>k'. (pr_sender (the (hm_get (hm_remove k m) k')), Inl e)) ks,
     concat (map (\<lambda>k'. opt_list (pr_ticket (the (hm_get (hm_remove k m) k')))) ks))"
    using Cons.prems ok by (intro Cons.IH) (auto simp: delete_keys)
  also have "map (\<lambda>k'. (pr_sender (the (hm_get (hm_remove k m) k')), Inl e)) ks =
      map (\<lambda>k'. (pr_sender (the (hm_get m k')), Inl e)) ks"
    using get by (intro map_cong) simp_all
  also have "map (\<lambda>k'. opt_list (pr_ticket (the (hm_get (hm_remove k m) k')))) ks =
      map (\<lambda>k'. opt_list (pr_ticket (the (hm_get m k')))) ks"
    using get by (intro map_cong) simp_all
  finally show ?case by (simp add: p hm_remove_all_def)
qed

lemma filter_keys_eq:
  assumes "hm_ok m"
  shows "filter (\<lambda>(k, v). k \<notin> set (map fst (filter P m))) m = filter (\<lambda>kv. \<not> P kv) m"
proof (rule filter_cong [OF refl])
  fix kv
  assume kv: "kv \<in> set m"
  obtain k v where [simp]: "kv = (k, v)" by (cases kv)
  have "P (k, v)" if "(k, v') \<in> set m" "P (k, v')" for v'
    using that kv eq_key_imp_eq_value [OF assms that(1), of v] by simp
  then have "k \<in> set (map fst (filter P m)) \<longleftrightarrow> P (k, v)"
    using kv by (fastforce simp: image_iff)
  then show "(case kv of (k, v) \<Rightarrow> k \<notin> set (map fst (filter P m))) = (\<not> P kv)"
    by simp
qed

lemma drain_filter:
  assumes "hm_ok m"
  shows "(drain_keys (map fst (filter P m)) e m :: pending_map \<times> 'r deliveries \<times> ticket list) =
    (filter (\<lambda>kv. \<not> P kv) m,
     map (\<lambda>c. (c, Inl e)) (senders (filter P m)), held_tickets (filter P m))"
proof -
  have "distinct (map fst (filter P m))" using assms by (rule distinct_map_filter)
  moreover have "set (map fst (filter P m)) \<subseteq> set (hm_keys m)" by auto
  moreover have "the (hm_get m (fst kv)) = snd kv" if "kv \<in> set (filter P m)" for kv
  proof -
    have "hm_get m (fst kv) = Some (snd kv)" using that by (simp add: hm_get_iff_mem [OF assms])
    then show ?thesis by simp
  qed
  then have
    "map (\<lambda>k. (pr_sender (the (hm_get m k)), Inl e)) (map fst (filter P m)) =
      (map (\<lambda>c. (c, Inl e)) (senders (filter P m)) :: 'r deliveries)"
    "map (\<lambda>k. opt_list (pr_ticket (the (hm_get m k)))) (map fst (filter P m)) =
      map (opt_list \<circ> pr_ticket \<circ> snd) (filter P m)"
    unfolding senders_def map_map by (auto intro!: map_cong)
  ultimately show ?thesis
    by (simp only: drain_keys_eq [OF assms] hm_remove_all_eq filter_keys_eq [OF assms]
        held_tickets_def)
qed

lemma take_expired_eq:
  "hm_ok m \<Longrightarrow> take_expired now m =
    (filter (\<lambda>(k, p). \<not> is_expired now p) m,
     map fst (filter (\<lambda>(k, p). is_expired now p) m),
     map (\<lambda>c. (c, Inl (tool_error_new Timeout True)))
       (senders (filter (\<lambda>(k, p). is_expired now p) m)),
     held_tickets (filter (\<lambda>(k, p). is_expired now p) m))"
  by (simp add: take_expired_def Let_def drain_filter) (simp add: case_prod_unfold)

lemma remove_matching_eq:
  "hm_ok m \<Longrightarrow> remove_matching P code m =
    (filter (\<lambda>(k, p). \<not> P p) m,
     length (filter (\<lambda>(k, p). P p) m),
     map (\<lambda>c. (c, Inl (tool_error_new code True))) (senders (filter (\<lambda>(k, p). P p) m)),
     held_tickets (filter (\<lambda>(k, p). P p) m))"
  by (simp add: remove_matching_def Let_def drain_filter) (simp add: case_prod_unfold)

lemma mset_filter_split:
  "mset (senders (filter P m)) + mset (senders (filter (\<lambda>x. \<not> P x) m)) = mset (senders m)"
  "mset (held_tickets (filter P m)) + mset (held_tickets (filter (\<lambda>x. \<not> P x) m)) = mset (held_tickets m)"
  by (induction m) (auto simp: senders_def held_tickets_def)

lemma hm_remove_as_filter:
  "hm_remove k m = filter (\<lambda>kv. \<not> fst kv = k) m"
  by (induction m) auto

lemma filter_key_single:
  assumes "hm_ok m" and "hm_get m k = Some p"
  shows "filter (\<lambda>kv. fst kv = k) m = [(k, p)]"
  using assms
proof (induction m)
  case (Cons kv m)
  show ?case
  proof (cases "fst kv = k")
    case True
    then have "filter (\<lambda>kv. fst kv = k) m = []"
      using Cons.prems(1) by (auto simp: filter_empty_conv image_iff)
    then show ?thesis using True Cons.prems(2) by (cases kv) simp
  next
    case False
    then show ?thesis using Cons by (cases kv) simp
  qed
qed simp

lemma mset_remove_split:
  assumes "hm_ok m" and "hm_get m k = Some p"
  shows "mset (senders m) = add_mset (pr_sender p) (mset (senders (hm_remove k m)))"
    and "mset (held_tickets m) = mset (opt_list (pr_ticket p)) + mset (held_tickets (hm_remove k m))"
  using mset_filter_split [of "\<lambda>kv. fst kv = k" m]
  unfolding filter_key_single [OF assms] hm_remove_as_filter
  by (simp_all add: senders_def held_tickets_def)

section \<open>Runs\<close>

text \<open>
  The map with its history: the channels created so far, what was delivered on them, the tickets
  given to the map and the tickets it dropped.
\<close>

record 'r pending_world =
  pw_map :: pending_map
  pw_channels :: nat
  pw_delivered :: "'r deliveries"
  pw_given :: "ticket list"
  pw_dropped :: "ticket list"

datatype 'r pending_event =
    EAdmit admission_request
  | EProgress instant uuid string progress
  | EComplete uuid string "'r pending_result"
  | ECancel uuid string
  | ERemoveSocket uuid
  | EExpire instant
  | EShutdown

definition pending_world_new :: "'r pending_world" where
  "pending_world_new =
     \<lparr>pw_map = [], pw_channels = 0, pw_delivered = [], pw_given = [], pw_dropped = []\<rparr>"

definition pw_record ::
    "pending_map \<times> 'r deliveries \<times> ticket list \<Rightarrow> 'r pending_world \<Rightarrow> 'r pending_world" where
  "pw_record = (\<lambda>(m, ds, ts) w.
     w\<lparr>pw_map := m, pw_delivered := pw_delivered w @ ds, pw_dropped := pw_dropped w @ ts\<rparr>)"

fun pending_step :: "'r pending_world \<Rightarrow> 'r pending_event \<Rightarrow> 'r pending_world" where
  "pending_step w (EAdmit a) =
     (case pending_admit (pw_channels w) a (pw_map w) of (m, r, ts) \<Rightarrow>
        w\<lparr>pw_map := m,
          pw_channels := (case r of Inr c \<Rightarrow> Suc c | Inl e \<Rightarrow> pw_channels w),
          pw_given := pw_given w @ opt_list (ar_ticket a),
          pw_dropped := pw_dropped w @ ts\<rparr>)"
| "pending_step w (EProgress now s r p) =
     (case note_progress now s r p (pw_map w) of (m, _, _) \<Rightarrow> w\<lparr>pw_map := m\<rparr>)"
| "pending_step w (EComplete s r result) =
     (case pending_complete s r result (pw_map w) of (m, _, ds, ts) \<Rightarrow> pw_record (m, ds, ts) w)"
| "pending_step w (ECancel s r) =
     (case pending_cancel s r (pw_map w) of (m, _, ds, ts) \<Rightarrow> pw_record (m, ds, ts) w)"
| "pending_step w (ERemoveSocket s) =
     (case pending_remove_socket s (pw_map w) of (m, _, ds, ts) \<Rightarrow> pw_record (m, ds, ts) w)"
| "pending_step w (EExpire now) =
     (case take_expired now (pw_map w) of (m, _, ds, ts) \<Rightarrow> pw_record (m, ds, ts) w)"
| "pending_step w EShutdown =
     (case pending_shutdown (pw_map w) of (m, _, ds, ts) \<Rightarrow> pw_record (m, ds, ts) w)"

definition keyed_ok :: "pending_map \<Rightarrow> bool" where
  "keyed_ok m \<longleftrightarrow> hm_ok m \<and> (\<forall>(k, p) \<in> set m. k = (pr_socket p, pr_request p))"

definition pending_inv :: "'r pending_world \<Rightarrow> bool" where
  "pending_inv w \<longleftrightarrow>
     keyed_ok (pw_map w) \<and>
     mset (senders (pw_map w)) + mset (map fst (pw_delivered w)) = mset [0..<pw_channels w] \<and>
     mset (held_tickets (pw_map w)) + mset (pw_dropped w) = mset (pw_given w)"

lemma keyed_ok_filter: "keyed_ok m \<Longrightarrow> keyed_ok (filter P m)"
  by (auto simp: keyed_ok_def distinct_map_filter)

lemma keyed_ok_get: "keyed_ok m \<Longrightarrow> hm_get m k = Some p \<Longrightarrow> k = (pr_socket p, pr_request p)"
  by (auto simp: keyed_ok_def dest: map_of_SomeD)

lemma set_hm_insert: "set (hm_insert k v m) \<subseteq> insert (k, v) (set m)"
  by (induction m) auto

lemma keyed_ok_update:
  assumes "keyed_ok m" and "k = (pr_socket p, pr_request p)"
  shows "keyed_ok (hm_insert k p m)"
  using assms set_hm_insert [of k p m] by (auto simp: keyed_ok_def distinct_update)

lemma pw_record_filter:
  assumes "pending_inv w"
    and "ds = map (\<lambda>c. (c, Inl e)) (senders (filter P (pw_map w)))"
    and "ts = held_tickets (filter P (pw_map w))"
  shows "pending_inv (pw_record (filter (\<lambda>x. \<not> P x) (pw_map w), ds, ts) w)"
proof -
  have "keyed_ok (filter (\<lambda>x. \<not> P x) (pw_map w))"
    using assms(1) by (simp add: pending_inv_def keyed_ok_filter)
  moreover have "map fst ds = senders (filter P (pw_map w))"
    by (simp add: assms(2) comp_def)
  ultimately show ?thesis
    using assms(1) mset_filter_split [of P "pw_map w"]
    by (simp add: pw_record_def pending_inv_def assms(3) ac_simps)
qed

lemma pw_record_remove:
  assumes "pending_inv w" and "hm_get (pw_map w) k = Some p"
  shows "pending_inv
    (pw_record (hm_remove k (pw_map w), [(pr_sender p, r)], opt_list (pr_ticket p)) w)"
proof -
  have "hm_ok (pw_map w)" using assms(1) by (simp add: pending_inv_def keyed_ok_def)
  note split = mset_remove_split [OF this assms(2)]
  have "keyed_ok (hm_remove k (pw_map w))"
    using assms(1) unfolding hm_remove_as_filter by (simp add: pending_inv_def keyed_ok_filter)
  then show ?thesis
    using assms(1) split by (simp add: pw_record_def pending_inv_def ac_simps)
qed

lemma senders_update:
  assumes "hm_get m k = Some p" and "pr_sender p' = pr_sender p" and "pr_ticket p' = pr_ticket p"
  shows "senders (hm_insert k p' m) = senders m"
    and "held_tickets (hm_insert k p' m) = held_tickets m"
  using assms by (induction m) (auto simp: senders_def held_tickets_def split: if_splits)

lemma complete_inv:
  "pending_inv w \<Longrightarrow> pending_complete s r result (pw_map w) = (m, b, ds, ts) \<Longrightarrow>
     pending_inv (pw_record (m, ds, ts) w)"
  using pw_record_remove
  by (auto simp: pending_complete_def split: option.splits) (simp add: pw_record_def)

lemma remove_matching_inv:
  assumes "pending_inv w" and "remove_matching P code (pw_map w) = (m, n, ds, ts)"
  shows "pending_inv (pw_record (m, ds, ts) w)"
proof -
  have "hm_ok (pw_map w)" using assms(1) by (simp add: pending_inv_def keyed_ok_def)
  then show ?thesis
    using assms pw_record_filter [OF assms(1), of ds "tool_error_new code True" "\<lambda>(k, p). P p"]
    by (auto simp: remove_matching_eq) (simp add: case_prod_unfold)
qed

lemma expire_inv:
  assumes "pending_inv w" and "take_expired now (pw_map w) = (m, ks, ds, ts)"
  shows "pending_inv (pw_record (m, ds, ts) w)"
proof -
  have "hm_ok (pw_map w)" using assms(1) by (simp add: pending_inv_def keyed_ok_def)
  then show ?thesis
    using assms pw_record_filter [OF assms(1), of ds "tool_error_new Timeout True"
        "\<lambda>(k, p). is_expired now p"]
    by (auto simp: take_expired_eq) (simp add: case_prod_unfold)
qed

lemma admit_inv:
  assumes "pending_inv w"
  shows "pending_inv (pending_step w (EAdmit a))"
proof (cases "hm_get (pw_map w) (ar_socket a, ar_request a)")
  case None
  then show ?thesis
    using assms
    by (simp add: pending_admit_def Let_def hm_insert_fresh pending_inv_def keyed_ok_def
        map_of_eq_None_iff senders_def held_tickets_def ac_simps)
next
  case (Some p)
  then show ?thesis
    using assms by (simp add: pending_admit_def Let_def pending_inv_def ac_simps)
qed

lemma progress_inv:
  assumes "pending_inv w"
  shows "pending_inv (pending_step w (EProgress now s r p))"
proof (cases "hm_get (pw_map w) (s, r)")
  case None
  then show ?thesis using assms by (simp add: note_progress_def)
next
  case (Some e)
  let ?e = "e\<lparr>pr_inactivity_deadline := now + from_secs INACTIVITY_TIMEOUT_SECS\<rparr>"
  have "keyed_ok (pw_map w)" using assms by (simp add: pending_inv_def)
  then have "keyed_ok (hm_insert (s, r) ?e (pw_map w))"
    using keyed_ok_get [OF _ Some] by (intro keyed_ok_update) simp_all
  then show ?thesis
    using assms senders_update [OF Some, of ?e]
    by (simp add: note_progress_def pending_inv_def Some)
qed

lemma pending_step_inv: "pending_inv w \<Longrightarrow> pending_inv (pending_step w e)"
  by (cases e)
    (auto simp: pending_cancel_def pending_remove_socket_def pending_shutdown_def
      intro: admit_inv progress_inv complete_inv remove_matching_inv expire_inv
      simp del: pending_step.simps(1,2) split: prod.splits)

interpretation pending: machine pending_step pending_inv
  by unfold_locales (rule pending_step_inv)

lemma pending_world_new_inv [simp]: "pending_inv pending_world_new"
  by (simp add: pending_inv_def pending_world_new_def keyed_ok_def senders_def held_tickets_def)

section \<open>Properties\<close>

text \<open>
  C20. Every admitted request is answered at most once, and until it is answered it is in the map:
  in any run, the channels created so far are exactly those answered and those still pending, each
  once. A ticket given to the map is likewise either held by a pending request or has been dropped,
  never both, so no slot leaks and none is given back twice.
\<close>

theorem pending_exactly_once:
  "let w = foldl pending_step pending_world_new es in
     distinct (map fst (pw_delivered w) @ senders (pw_map w)) \<and>
     set (map fst (pw_delivered w) @ senders (pw_map w)) = {0..<pw_channels w} \<and>
     mset (held_tickets (pw_map w)) + mset (pw_dropped w) = mset (pw_given w)"
proof -
  let ?w = "foldl pending_step pending_world_new es"
  have inv: "pending_inv ?w" by (rule pending.run_inv) simp
  then have eq: "mset (map fst (pw_delivered ?w) @ senders (pw_map ?w)) = mset [0..<pw_channels ?w]"
    by (simp add: pending_inv_def ac_simps)
  have "distinct (map fst (pw_delivered ?w) @ senders (pw_map ?w))"
    using mset_eq_imp_distinct_iff [OF eq] by simp
  moreover have "set (map fst (pw_delivered ?w) @ senders (pw_map ?w)) = {0..<pw_channels ?w}"
    using mset_eq_setD [OF eq] by simp
  ultimately show ?thesis using inv by (simp add: Let_def pending_inv_def)
qed

text \<open>
  C23. A sweep removes exactly the requests with a deadline that has passed: what stays has both
  deadlines ahead, each removed request is told \<open>TIMEOUT\<close>, retryable, on its own channel, and its
  key is reported so that the plugin can be told to stop.
\<close>

theorem take_expired_exact:
  assumes "keyed_ok m" and "take_expired now m = (m', keys, ds, ts)"
  shows "hm_get m' = (\<lambda>k. case hm_get m k of None \<Rightarrow> None | Some p \<Rightarrow>
         if pr_total_deadline p \<le> now \<or> pr_inactivity_deadline p \<le> now then None else Some p)
    \<and> set keys = {(pr_socket p, pr_request p) | p. p \<in> ran (hm_get m) \<and> is_expired now p}
    \<and> set ds = {(pr_sender p, Inl (tool_error_new Timeout True)) | p.
         p \<in> ran (hm_get m) \<and> is_expired now p}"
proof (intro conjI)
  have ok: "hm_ok m" using assms(1) by (simp add: keyed_ok_def)
  have get: "hm_get (filter (\<lambda>(k, p). \<not> is_expired now p) m) k =
      (case hm_get m k of None \<Rightarrow> None | Some p \<Rightarrow> if is_expired now p then None else Some p)" for k
    using ok by (induction m) (auto simp: map_of_eq_None_iff image_iff split: option.split)
  have ran: "p \<in> ran (hm_get m) \<longleftrightarrow> (\<exists>k. (k, p) \<in> set m)" for p
    using ok by (auto simp: ran_def)
  have outs: "m' = filter (\<lambda>(k, p). \<not> is_expired now p) m"
    "keys = map fst (filter (\<lambda>(k, p). is_expired now p) m)"
    "ds = map (\<lambda>c. (c, Inl (tool_error_new Timeout True)))
        (senders (filter (\<lambda>(k, p). is_expired now p) m))"
    using assms(2) unfolding take_expired_eq [OF ok] by simp_all
  show "hm_get m' = (\<lambda>k. case hm_get m k of None \<Rightarrow> None | Some p \<Rightarrow>
         if pr_total_deadline p \<le> now \<or> pr_inactivity_deadline p \<le> now then None else Some p)"
    unfolding outs(1) by (rule ext) (simp only: get, simp only: is_expired_def)
  show "set keys = {(pr_socket p, pr_request p) | p. p \<in> ran (hm_get m) \<and> is_expired now p}"
    unfolding ran outs(2) using assms(1) by (force simp: keyed_ok_def image_iff)
  show "set ds = {(pr_sender p, Inl (tool_error_new Timeout True)) | p.
         p \<in> ran (hm_get m) \<and> is_expired now p}"
    unfolding ran outs(3) by (force simp: senders_def image_iff)
qed

definition two_pending :: pending_map where
  "two_pending =
     (let a = \<lparr>ar_socket = 1, ar_request = ''a'', ar_started_at = 0, ar_total_deadline = 120000,
               ar_inactivity_deadline = 15000, ar_progress = Some 9, ar_ticket = Some (1, 1)\<rparr>;
          m = fst (pending_admit 0 a [])
      in fst (pending_admit 1 (a\<lparr>ar_socket := 2, ar_ticket := Some (2, 1)\<rparr>)
           (fst (note_progress 10000 1 ''a''
              \<lparr>p_request_id = ''a'', p_completed = 1, p_total = None, p_message = None\<rparr> m))))"

lemma two_pending_ok: "keyed_ok two_pending"
  by (simp add: two_pending_def pending_admit_def note_progress_def keyed_ok_def Let_def)

theorem take_expired_exact_witness:
  "case (take_expired 20000 two_pending :: _ \<times> _ \<times> unit deliveries \<times> _) of (m', keys, ds, ts) \<Rightarrow>
     hm_get m' (2, ''a'') = None"
proof -
  obtain m' keys and ds :: "unit deliveries" and ts
    where *: "take_expired 20000 two_pending = (m', keys, ds, ts)" by (metis prod_cases4)
  have "hm_get m' (2, ''a'') = None"
    unfolding take_expired_exact [OF two_pending_ok *, THEN conjunct1]
    by (simp add: two_pending_def pending_admit_def note_progress_def Let_def)
  then show ?thesis by (simp add: *)
qed

text \<open>
  Progress moves nothing but the inactivity deadline of the request it names, fifteen seconds
  from now, and is forwarded, normalized, on that request's channel: it cannot keep a request
  alive past its total deadline.
\<close>

theorem progress_moves_one_deadline:
  assumes "keyed_ok m" and "note_progress now s r p m = (m', True, sends)"
  shows "\<exists>e. hm_get m (s, r) = Some e
    \<and> hm_get m' = (hm_get m)((s, r) \<mapsto> e\<lparr>pr_inactivity_deadline := now + 15000\<rparr>)
    \<and> sends = map (\<lambda>c. (c, normalize_progress p)) (opt_list (pr_progress e))
    \<and> (\<forall>t \<ge> pr_total_deadline e. hm_get (fst (take_expired t m')) (s, r) = None)"
proof -
  obtain e where e: "hm_get m (s, r) = Some e"
    and m': "m' = hm_insert (s, r) (e\<lparr>pr_inactivity_deadline := now + 15000\<rparr>) m"
    and sends: "sends = map (\<lambda>c. (c, normalize_progress p)) (opt_list (pr_progress e))"
    using assms(2)
    by (auto simp: note_progress_def from_secs_def limit_defs split: option.splits)
  have ok: "hm_ok m" "hm_ok m'" using assms(1) m' by (simp_all add: keyed_ok_def distinct_update)
  have get: "hm_get m' = (hm_get m)((s, r) \<mapsto> e\<lparr>pr_inactivity_deadline := now + 15000\<rparr>)"
    unfolding m' by (rule update_conv')
  have "hm_get (fst (take_expired t m')) (s, r) = None" if "pr_total_deadline e \<le> t" for t
  proof -
    have "pr_total_deadline p \<le> t" if "((s, r), p) \<in> set m'" for p
      using that get \<open>pr_total_deadline e \<le> t\<close> hm_get_iff_mem [OF ok(2), of "(s, r)" p] by auto
    then show ?thesis
      by (auto simp: take_expired_eq [OF ok(2)] map_of_eq_None_iff is_expired_def)
  qed
  then show ?thesis using e get sends by blast
qed

theorem progress_moves_one_deadline_witness:
  "\<exists>m' e. note_progress 12000 1 ''a''
       \<lparr>p_request_id = ''a'', p_completed = 1, p_total = None, p_message = Some ''encoding''\<rparr>
       two_pending = (m', True, [(9, \<lparr>np_completed = 1, np_total = None, np_phase = Encoding\<rparr>)])
     \<and> hm_get m' (1, ''a'') = Some e \<and> pr_inactivity_deadline e = 27000"
proof -
  let ?p = "\<lparr>p_request_id = ''a'', p_completed = 1, p_total = None, p_message = Some ''encoding''\<rparr>"
  obtain m' where m': "note_progress 12000 1 ''a'' ?p two_pending =
      (m', True, [(9, \<lparr>np_completed = 1, np_total = None, np_phase = Encoding\<rparr>)])"
    by (simp add: two_pending_def pending_admit_def note_progress_def Let_def normalize_progress_def
        phase_from_message_def)
  show ?thesis
    using progress_moves_one_deadline [OF two_pending_ok m'] m' by auto
qed

text \<open>
  Losing a socket concerns its own requests only: they leave the map and each is told
  \<open>CONNECTION_LOST\<close>, retryable; the requests of every other socket stay as they were.
\<close>

theorem remove_socket_isolated:
  assumes "keyed_ok m" and "pending_remove_socket s m = (m', n, ds, ts)"
  shows "(\<forall>s' r. hm_get m' (s', r) = (if s' = s then None else hm_get m (s', r)))
    \<and> ds = map (\<lambda>c. (c, Inl (tool_error_new ConnectionLost True)))
        (senders (filter (\<lambda>(k, p). fst k = s) m))
    \<and> n = length ds \<and> ts = held_tickets (filter (\<lambda>(k, p). fst k = s) m)"
proof -
  have ok: "hm_ok m" using assms(1) by (simp add: keyed_ok_def)
  have same: "filter (\<lambda>(k, p). pr_socket p = s) m = filter (\<lambda>(k, p). fst k = s) m"
    "filter (\<lambda>(k, p). pr_socket p \<noteq> s) m = filter (\<lambda>(k, p). fst k \<noteq> s) m"
    using assms(1) by (auto simp: keyed_ok_def intro!: filter_cong)
  have get: "hm_get (filter (\<lambda>(k, p). fst k \<noteq> s) m) (s', r) =
      (if s' = s then None else hm_get m (s', r))" for s' r
    by (induction m) auto
  note outs = assms(2) [unfolded pending_remove_socket_def remove_matching_eq [OF ok] same]
  then show ?thesis using get by (auto simp: senders_def)
qed

theorem remove_socket_isolated_witness:
  "case (pending_remove_socket 1 two_pending :: _ \<times> _ \<times> unit deliveries \<times> _) of (m', n, ds, ts) \<Rightarrow>
     hm_get m' (1, ''a'') = None \<and> hm_get m' (2, ''a'') = hm_get two_pending (2, ''a'')"
proof -
  obtain m' n and ds :: "unit deliveries" and ts
    where *: "pending_remove_socket 1 two_pending = (m', n, ds, ts)" by (metis prod_cases4)
  show ?thesis using remove_socket_isolated [OF two_pending_ok *] * by simp
qed

end
