(* ===== verification/Registry.thy ===== *)
theory Registry
  imports Pending "HOL-Library.Product_Lexorder" "HOL-Library.List_Lexorder"
begin

text \<open>
  The registry of live plugin sessions (\<open>crates/broker/src/registry.rs\<close>): sessions by connection
  identifier, and the connection of each socket. An outbound channel is its number; whether a
  \<open>try_send\<close> on it finds room is the environment's answer, the argument \<open>chan\<close>. A message put on
  a channel is an output.
\<close>

section \<open>Sessions\<close>

record session =
  s_connection_id :: string
  s_socket_id :: uuid
  s_display_name :: string
  s_file_key :: "string option"
  s_file_name :: string
  s_current_page :: page_summary
  s_editor_type :: string
  s_plugin_version :: string
  s_capabilities :: capability_set
  s_connected_at :: int
  s_last_seen_at :: int
  s_last_seen :: instant
  s_outbound :: nat

definition session_from_hello :: "instant \<Rightarrow> hello \<Rightarrow> uuid \<Rightarrow> int \<Rightarrow> nat \<Rightarrow> session" where
  "session_from_hello now h socket connected_at outbound =
     \<lparr>s_connection_id = h_connection_id h, s_socket_id = socket,
      s_display_name = h_display_name h, s_file_key = h_file_key h, s_file_name = h_file_name h,
      s_current_page = h_current_page h, s_editor_type = h_editor_type h,
      s_plugin_version = h_plugin_version h, s_capabilities = h_capabilities h,
      s_connected_at = connected_at, s_last_seen_at = connected_at, s_last_seen = now,
      s_outbound = outbound\<rparr>"

record live_file =
  lf_connection_id :: string
  lf_display_name :: string
  lf_file_key :: "string option"
  lf_file_name :: string
  lf_current_page :: page_summary
  lf_editor_type :: string
  lf_capabilities :: capability_set
  lf_connected_at :: string
  lf_last_seen_at :: string

fun decimal :: "nat \<Rightarrow> string" where
  "decimal n =
     (if n < 10 then [char_of (48 + n)] else decimal (n div 10) @ [char_of (48 + n mod 10)])"

declare decimal.simps [simp del]

text \<open>Milliseconds since the epoch; a time before it reads as 0.\<close>

definition timestamp :: "int \<Rightarrow> string" where
  "timestamp v = decimal (nat v)"

definition session_live_file :: "session \<Rightarrow> live_file" where
  "session_live_file s =
     \<lparr>lf_connection_id = s_connection_id s, lf_display_name = s_display_name s,
      lf_file_key = s_file_key s, lf_file_name = s_file_name s,
      lf_current_page = s_current_page s, lf_editor_type = s_editor_type s,
      lf_capabilities = s_capabilities s, lf_connected_at = timestamp (s_connected_at s),
      lf_last_seen_at = timestamp (s_last_seen_at s)\<rparr>"

section \<open>State and operations\<close>

record registry =
  sessions :: "(string, session) hash_map"
  sockets :: "(uuid, string) hash_map"
  insertion_time :: instant

datatype registry_error = DuplicateConnectionId | DuplicateSocketId

datatype route_error = RouteConnectionNotFound | RouteQueueFull | RouteConnectionClosed
  | RouteConnectionChanged

datatype selection = SelectOne session | SelectNone | SelectAmbiguous | SelectMissing

datatype send_outcome = Sent | Full | Closed

definition registry_new :: "instant \<Rightarrow> registry" where
  "registry_new now = \<lparr>sessions = [], sockets = [], insertion_time = now\<rparr>"

definition registry_insert :: "instant \<Rightarrow> session \<Rightarrow> registry \<Rightarrow> registry \<times> (registry_error + unit)" where
  "registry_insert now s r =
     (if hm_contains (sessions r) (s_connection_id s) then (r, Inl DuplicateConnectionId)
      else if hm_contains (sockets r) (s_socket_id s) then (r, Inl DuplicateSocketId)
      else
        let s = s\<lparr>s_last_seen := max (insertion_time r) now\<rparr> in
        (r\<lparr>sockets := hm_insert (s_socket_id s) (s_connection_id s) (sockets r),
           sessions := hm_insert (s_connection_id s) s (sessions r)\<rparr>, Inr ()))"

definition registry_select :: "string option \<Rightarrow> registry \<Rightarrow> selection" where
  "registry_select connection_id r =
     (case connection_id of
        Some c \<Rightarrow> (case hm_get (sessions r) c of Some s \<Rightarrow> SelectOne s | None \<Rightarrow> SelectMissing)
      | None \<Rightarrow>
          (case map snd (sessions r) of
             [] \<Rightarrow> SelectNone
           | [s] \<Rightarrow> SelectOne s
           | s # s' # rest \<Rightarrow> SelectAmbiguous))"

definition registry_list_files :: "registry \<Rightarrow> live_file list" where
  "registry_list_files r =
     map session_live_file
       (sort_key (\<lambda>s. (s_connected_at s, s_connection_id s)) (map snd (sessions r)))"

definition registry_touch_socket :: "uuid \<Rightarrow> instant \<Rightarrow> int \<Rightarrow> registry \<Rightarrow> registry \<times> bool" where
  "registry_touch_socket socket now wall r =
     (case hm_get (sockets r) socket of
        None \<Rightarrow> (r, False)
      | Some c \<Rightarrow>
          (case hm_get (sessions r) c of
             None \<Rightarrow> (r, False)
           | Some s \<Rightarrow>
               (r\<lparr>sessions := hm_insert c (s\<lparr>s_last_seen := now, s_last_seen_at := wall\<rparr>)
                               (sessions r)\<rparr>, True)))"

definition registry_remove_socket :: "uuid \<Rightarrow> registry \<Rightarrow> registry \<times> bool" where
  "registry_remove_socket socket r =
     (case hm_get (sockets r) socket of
        None \<Rightarrow> (r, False)
      | Some c \<Rightarrow>
          (r\<lparr>sockets := hm_remove socket (sockets r), sessions := hm_remove c (sessions r)\<rparr>,
           hm_contains (sessions r) c))"

definition registry_expire_stale :: "instant \<Rightarrow> registry \<Rightarrow> registry \<times> uuid list" where
  "registry_expire_stale cutoff r =
     (let stale = map s_socket_id (filter (\<lambda>s. s_last_seen s \<le> cutoff) (map snd (sessions r))) in
      (fold (\<lambda>socket r. fst (registry_remove_socket socket r)) stale r, stale))"

definition outbound_for_socket :: "uuid \<Rightarrow> registry \<Rightarrow> nat option" where
  "outbound_for_socket socket r =
     do { c \<leftarrow> hm_get (sockets r) socket;
          map_option s_outbound (hm_get (sessions r) c) }"

definition route_for :: "string \<Rightarrow> registry \<Rightarrow> (uuid \<times> nat) option" where
  "route_for connection_id r =
     map_option (\<lambda>s. (s_socket_id s, s_outbound s)) (hm_get (sessions r) connection_id)"

text \<open>The second component is what was put on a channel.\<close>

definition try_send_to ::
    "(nat \<Rightarrow> send_outcome) \<Rightarrow> string \<Rightarrow> uuid \<Rightarrow> 'm \<Rightarrow> registry
      \<Rightarrow> (route_error + uuid) \<times> (nat \<times> 'm) list" where
  "try_send_to chan connection_id expected_socket message r =
     (case hm_get (sessions r) connection_id of
        None \<Rightarrow> (Inl RouteConnectionNotFound, [])
      | Some s \<Rightarrow>
          if s_socket_id s \<noteq> expected_socket then (Inl RouteConnectionChanged, [])
          else (case chan (s_outbound s) of
              Full \<Rightarrow> (Inl RouteQueueFull, [])
            | Closed \<Rightarrow> (Inl RouteConnectionClosed, [])
            | Sent \<Rightarrow> (Inr (s_socket_id s), [(s_outbound s, message)])))"

definition try_send ::
    "(nat \<Rightarrow> send_outcome) \<Rightarrow> string \<Rightarrow> 'm \<Rightarrow> registry
      \<Rightarrow> (route_error + uuid) \<times> (nat \<times> 'm) list" where
  "try_send chan connection_id message r =
     (case map_option s_socket_id (hm_get (sessions r) connection_id) of
        None \<Rightarrow> (Inl RouteConnectionNotFound, [])
      | Some socket \<Rightarrow> try_send_to chan connection_id socket message r)"

section \<open>The invariant\<close>

text \<open>The two maps are inverse to each other.\<close>

definition inverse_maps :: "(string \<Rightarrow> session option) \<Rightarrow> (uuid \<Rightarrow> string option) \<Rightarrow> bool" where
  "inverse_maps f g \<longleftrightarrow>
     (\<forall>c s. f c = Some s \<longrightarrow> s_connection_id s = c \<and> g (s_socket_id s) = Some c) \<and>
     (\<forall>u c. g u = Some c \<longrightarrow> (\<exists>s. f c = Some s \<and> s_socket_id s = u))"

lemma inverse_mapsI:
  assumes "\<And>c s. f c = Some s \<Longrightarrow> s_connection_id s = c \<and> g (s_socket_id s) = Some c"
    and "\<And>u c. g u = Some c \<Longrightarrow> \<exists>s. f c = Some s \<and> s_socket_id s = u"
  shows "inverse_maps f g"
  using assms by (simp add: inverse_maps_def)

lemma inverse_mapsD1:
  "inverse_maps f g \<Longrightarrow> f c = Some s \<Longrightarrow> s_connection_id s = c \<and> g (s_socket_id s) = Some c"
  by (simp add: inverse_maps_def)

lemma inverse_mapsD2:
  "inverse_maps f g \<Longrightarrow> g u = Some c \<Longrightarrow> \<exists>s. f c = Some s \<and> s_socket_id s = u"
  by (simp add: inverse_maps_def)

lemma inverse_maps_insert:
  assumes inv: "inverse_maps f g" and "f (s_connection_id s) = None" and "g (s_socket_id s) = None"
  shows "inverse_maps (f(s_connection_id s \<mapsto> s)) (g(s_socket_id s \<mapsto> s_connection_id s))"
proof (rule inverse_mapsI)
  fix c t
  assume *: "(f(s_connection_id s \<mapsto> s)) c = Some t"
  show "s_connection_id t = c \<and> (g(s_socket_id s \<mapsto> s_connection_id s)) (s_socket_id t) = Some c"
  proof (cases "c = s_connection_id s")
    case False
    with * have "f c = Some t" by simp
    from inverse_mapsD1 [OF inv this] assms(3) show ?thesis by auto
  qed (use * in simp)
next
  fix u c
  assume *: "(g(s_socket_id s \<mapsto> s_connection_id s)) u = Some c"
  show "\<exists>t. (f(s_connection_id s \<mapsto> s)) c = Some t \<and> s_socket_id t = u"
  proof (cases "u = s_socket_id s")
    case False
    with * have "g u = Some c" by simp
    from inverse_mapsD2 [OF inv this] assms(2) show ?thesis by auto
  qed (use * in simp)
qed

lemma inverse_maps_socket:
  assumes "inverse_maps f g" and "g u = Some c" and "f d = Some s"
  shows "s_socket_id s = u \<longleftrightarrow> d = c"
  using inverse_mapsD1 [OF assms(1,3)] inverse_mapsD2 [OF assms(1,2)] assms(2,3) by auto

lemma inverse_maps_touch:
  assumes inv: "inverse_maps f g" and "f c = Some s"
    and "s_connection_id s' = s_connection_id s" and "s_socket_id s' = s_socket_id s"
  shows "inverse_maps (f(c \<mapsto> s')) g"
proof (rule inverse_mapsI)
  fix d t
  assume "(f(c \<mapsto> s')) d = Some t"
  then show "s_connection_id t = d \<and> g (s_socket_id t) = Some d"
    using inverse_mapsD1 [OF inv] assms(2-4) by (cases "d = c") auto
next
  fix u d
  assume "g u = Some d"
  from inverse_mapsD2 [OF inv this] assms(2,4)
  show "\<exists>t. (f(c \<mapsto> s')) d = Some t \<and> s_socket_id t = u"
    by (cases "d = c") auto
qed

lemma inverse_maps_remove:
  assumes inv: "inverse_maps f g" and u: "g u = Some c"
  shows "inverse_maps (f(c := None)) (g(u := None))"
proof (rule inverse_mapsI)
  fix d t
  assume "(f(c := None)) d = Some t"
  then have "d \<noteq> c" "f d = Some t" by (auto split: if_splits)
  then show "s_connection_id t = d \<and> (g(u := None)) (s_socket_id t) = Some d"
    using inverse_mapsD1 [OF inv] inverse_maps_socket [OF inv u] by simp
next
  fix v d
  assume "(g(u := None)) v = Some d"
  then have v: "v \<noteq> u" "g v = Some d" by (auto split: if_splits)
  then obtain t where "f d = Some t" "s_socket_id t = v" using inverse_mapsD2 [OF inv] by blast
  then show "\<exists>t. (f(c := None)) d = Some t \<and> s_socket_id t = v"
    using inverse_maps_socket [OF inv u, of d t] v(1) by auto
qed

lemma inverse_maps_removed:
  assumes "inverse_maps f g" and "g u = Some c"
  shows "(f(c := None)) d = (case f d of None \<Rightarrow> None
    | Some s \<Rightarrow> if s_socket_id s = u then None else Some s)"
proof (cases "f d")
  case (Some s)
  then show ?thesis using inverse_maps_socket [OF assms Some] by simp
qed simp

definition registry_inv :: "registry \<Rightarrow> bool" where
  "registry_inv r \<longleftrightarrow>
     hm_ok (sessions r) \<and> hm_ok (sockets r) \<and>
     inverse_maps (hm_get (sessions r)) (hm_get (sockets r))"

lemma registry_new_inv [simp]: "registry_inv (registry_new now)"
  by (simp add: registry_inv_def registry_new_def inverse_maps_def)

lemma registry_insert_inv:
  assumes "registry_inv r"
  shows "registry_inv (fst (registry_insert now s r))"
proof (cases "hm_contains (sessions r) (s_connection_id s) \<or> hm_contains (sockets r) (s_socket_id s)")
  case True
  then show ?thesis using assms by (auto simp: registry_insert_def)
next
  case False
  then have fresh: "hm_get (sessions r) (s_connection_id s) = None"
    "hm_get (sockets r) (s_socket_id s) = None" by blast+
  let ?s = "s\<lparr>s_last_seen := max (insertion_time r) now\<rparr>"
  have "inverse_maps ((hm_get (sessions r))(s_connection_id ?s \<mapsto> ?s))
      ((hm_get (sockets r))(s_socket_id ?s \<mapsto> s_connection_id ?s))"
    using assms fresh by (intro inverse_maps_insert) (simp_all add: registry_inv_def)
  then show ?thesis
    using assms False
    by (simp add: registry_insert_def Let_def registry_inv_def distinct_update update_conv' fun_upd_def)
qed

lemma registry_touch_inv:
  assumes "registry_inv r"
  shows "registry_inv (fst (registry_touch_socket u now wall r))"
  using assms inverse_maps_touch
  by (auto simp: registry_touch_socket_def registry_inv_def distinct_update update_conv'
      simp del: map_of_eq_Some_iff split: option.split)

lemma registry_remove_socket_some:
  assumes "hm_get (sockets r) u = Some c"
  shows "hm_get (sessions (fst (registry_remove_socket u r))) = (hm_get (sessions r))(c := None)"
    and "hm_get (sockets (fst (registry_remove_socket u r))) = (hm_get (sockets r))(u := None)"
  by (rule ext, simp add: registry_remove_socket_def assms delete_conv' del: map_of_eq_Some_iff)+

lemma registry_remove_inv:
  assumes "registry_inv r"
  shows "registry_inv (fst (registry_remove_socket u r))"
proof (cases "hm_get (sockets r) u")
  case None
  then show ?thesis using assms by (simp add: registry_remove_socket_def)
next
  case (Some c)
  have "hm_ok (sessions (fst (registry_remove_socket u r)))"
    "hm_ok (sockets (fst (registry_remove_socket u r)))"
    using assms Some
    by (simp_all add: registry_remove_socket_def registry_inv_def distinct_delete
        del: map_of_eq_Some_iff)
  then show ?thesis
    using assms inverse_maps_remove [where u = u and c = c and g = "hm_get (sockets r)"] Some
    unfolding registry_inv_def registry_remove_socket_some [OF Some] by blast
qed

lemma remove_sockets_inv:
  "registry_inv r \<Longrightarrow> registry_inv (fold (\<lambda>u r. fst (registry_remove_socket u r)) us r)"
  by (induction us arbitrary: r) (simp_all add: registry_remove_inv)

lemma registry_remove_get:
  assumes "registry_inv r"
  shows "hm_get (sessions (fst (registry_remove_socket u r))) c =
    (case hm_get (sessions r) c of None \<Rightarrow> None
     | Some s \<Rightarrow> if s_socket_id s = u then None else Some s)"
proof (cases "hm_get (sockets r) u")
  case None
  have "s_socket_id s \<noteq> u" if "hm_get (sessions r) c = Some s" for s
    using assms None that unfolding registry_inv_def inverse_maps_def by fastforce
  then show ?thesis
    using None by (simp add: registry_remove_socket_def del: map_of_eq_Some_iff split: option.split)
next
  case (Some d)
  then show ?thesis
    using assms inverse_maps_removed [where u = u and c = d and g = "hm_get (sockets r)"] Some
    unfolding registry_inv_def registry_remove_socket_some [OF Some] by blast
qed

lemma remove_sockets_get:
  "registry_inv r \<Longrightarrow>
     hm_get (sessions (fold (\<lambda>u r. fst (registry_remove_socket u r)) us r)) c =
     (case hm_get (sessions r) c of None \<Rightarrow> None
      | Some s \<Rightarrow> if s_socket_id s \<in> set us then None else Some s)"
proof (induction us arbitrary: r)
  case (Cons u us)
  then show ?case
    by (simp add: Cons.IH [OF registry_remove_inv [OF Cons.prems]] registry_remove_get
        del: map_of_eq_Some_iff split: option.split)
qed (simp split: option.split)

datatype registry_event =
    RInsert instant session | RTouch uuid instant int | RExpire instant | RRemove uuid

fun registry_step :: "registry \<Rightarrow> registry_event \<Rightarrow> registry" where
  "registry_step r (RInsert now s) = fst (registry_insert now s r)"
| "registry_step r (RTouch u now wall) = fst (registry_touch_socket u now wall r)"
| "registry_step r (RExpire cutoff) = fst (registry_expire_stale cutoff r)"
| "registry_step r (RRemove u) = fst (registry_remove_socket u r)"

interpretation registry: machine registry_step registry_inv
proof unfold_locales
  fix r e
  assume "registry_inv r"
  then show "registry_inv (registry_step r e)"
    by (cases e) (simp_all add: registry_insert_inv registry_touch_inv registry_remove_inv
        registry_expire_stale_def Let_def remove_sockets_inv)
qed

section \<open>Properties\<close>

text \<open>
  C21. Whatever sessions come, answer, go stale and go, the registry's two maps stay inverse to
  each other: a live connection has exactly one socket, and a registered socket exactly one live
  connection.
\<close>

theorem registry_bijection:
  "let r = foldl registry_step (registry_new t) es in
     (\<forall>c s. hm_get (sessions r) c = Some s \<longrightarrow>
        s_connection_id s = c \<and> hm_get (sockets r) (s_socket_id s) = Some c) \<and>
     (\<forall>u c. hm_get (sockets r) u = Some c \<longrightarrow>
        (\<exists>s. hm_get (sessions r) c = Some s \<and> s_socket_id s = u))"
proof -
  have "registry_inv (foldl registry_step (registry_new t) es)"
    by (rule registry.run_inv) simp
  then show ?thesis unfolding registry_inv_def inverse_maps_def Let_def by blast
qed

definition sample_session :: "string \<Rightarrow> uuid \<Rightarrow> int \<Rightarrow> session" where
  "sample_session c u t =
     \<lparr>s_connection_id = c, s_socket_id = u, s_display_name = ''d'', s_file_key = None,
      s_file_name = ''f'', s_current_page = \<lparr>ps_id = ''0:1'', ps_name = ''p''\<rparr>,
      s_editor_type = ''figma'', s_plugin_version = ''1'',
      s_capabilities = \<lparr>cap_annotations = True, cap_dev_resources = True, cap_motion = False,
        cap_svg_string_export = True, cap_variable_code_syntax = True\<rparr>,
      s_connected_at = t, s_last_seen_at = t, s_last_seen = 0, s_outbound = u + 100\<rparr>"

theorem registry_bijection_witness:
  "hm_get (sockets (foldl registry_step (registry_new 0)
     [RInsert 5 (sample_session ''a'' 1 7), RInsert 6 (sample_session ''b'' 2 8), RRemove 1])) 2
   = Some ''b''"
proof -
  let ?r = "foldl registry_step (registry_new 0)
     [RInsert 5 (sample_session ''a'' 1 7), RInsert 6 (sample_session ''b'' 2 8), RRemove 1]"
  have "hm_get (sessions ?r) ''b'' = Some (sample_session ''b'' 2 8\<lparr>s_last_seen := 6\<rparr>)"
    by (simp add: registry_new_def registry_insert_def registry_remove_socket_def Let_def
        sample_session_def)
  then show ?thesis
    using registry_bijection [of 0 "[RInsert 5 (sample_session ''a'' 1 7),
        RInsert 6 (sample_session ''b'' 2 8), RRemove 1]"]
    unfolding Let_def by (force simp add: sample_session_def)
qed

text \<open>
  A session is registered unless its connection or its socket already is, in which case
  nothing changes; a registered session is what its connection selects and routes to, and
  removing its socket undoes the registration.
\<close>

theorem registry_insert_remove:
  assumes "registry_inv r"
  shows "case registry_insert now s r of (r', result) \<Rightarrow>
      (result = Inr () \<longleftrightarrow> hm_get (sessions r) (s_connection_id s) = None \<and>
         hm_get (sockets r) (s_socket_id s) = None) \<and>
      (result \<noteq> Inr () \<longrightarrow> r' = r) \<and>
      (result = Inr () \<longrightarrow>
         route_for (s_connection_id s) r' = Some (s_socket_id s, s_outbound s) \<and>
         registry_remove_socket (s_socket_id s) r' = (r, True))"
proof (cases "hm_contains (sessions r) (s_connection_id s) \<or> hm_contains (sockets r) (s_socket_id s)")
  case True
  then show ?thesis by (auto simp: registry_insert_def)
next
  case False
  then have fresh: "hm_get (sessions r) (s_connection_id s) = None"
    "hm_get (sockets r) (s_socket_id s) = None" by blast+
  then have "hm_remove (s_connection_id s) (sessions r @ [(s_connection_id s, x)]) = sessions r"
    "hm_remove (s_socket_id s) (sockets r @ [(s_socket_id s, y)]) = sockets r" for x y
    by (auto intro: hm_remove_fresh)
  then show ?thesis
    using fresh
    by (simp add: registry_insert_def Let_def hm_insert_fresh route_for_def map_add_def
        registry_remove_socket_def)
qed

theorem registry_insert_remove_witness:
  "snd (registry_insert 5 (sample_session ''a'' 1 7) (registry_new 0)) = Inr ()"
  using registry_insert_remove [where r = "registry_new 0" and now = 5
      and s = "sample_session ''a'' 1 7", OF registry_new_inv]
  by (auto simp: registry_new_def split: prod.splits)

text \<open>
  The list of files does not depend on the iteration order of the hash map: it is in the
  order of the connection times, then of the connection identifiers, with every live session in
  it once.
\<close>

theorem list_files_order:
  assumes "registry_inv r" and "mset (sessions r') = mset (sessions r)"
  shows "registry_list_files r' = registry_list_files r
    \<and> (\<exists>ss. registry_list_files r = map session_live_file ss \<and> mset ss = mset (map snd (sessions r))
         \<and> sorted (map (\<lambda>s. (s_connected_at s, s_connection_id s)) ss))"
proof -
  let ?key = "\<lambda>s. (s_connected_at s, s_connection_id s)"
  have vals: "mset (map snd (sessions r')) = mset (map snd (sessions r))"
    using assms(2) by (simp only: mset_map)
  have "inj_on ?key (set (map snd (sessions r)))"
  proof (rule inj_onI)
    fix s t
    assume "s \<in> set (map snd (sessions r))" "t \<in> set (map snd (sessions r))" "?key s = ?key t"
    then obtain c d where mem: "(c, s) \<in> set (sessions r)" "(d, t) \<in> set (sessions r)"
      and id: "s_connection_id s = s_connection_id t" by auto
    have ok: "hm_ok (sessions r)" and inv: "inverse_maps (hm_get (sessions r)) (hm_get (sockets r))"
      using assms(1) by (simp_all add: registry_inv_def)
    have "hm_get (sessions r) c = Some s" "hm_get (sessions r) d = Some t"
      using mem hm_get_iff_mem [OF ok] by blast+
    then show "s = t"
      using inverse_mapsD1 [OF inv, of c s] inverse_mapsD1 [OF inv, of d t] id
      by (metis option.inject)
  qed
  then have "sort_key ?key (map snd (sessions r)) = sort_key ?key (map snd (sessions r'))"
    using vals by (intro sort_key_inj_key_eq) simp_all
  then show ?thesis
    unfolding registry_list_files_def
    by (intro conjI exI [of _ "sort_key ?key (map snd (sessions r))"])
      (use assms(2) in simp_all)
qed

definition two_sessions :: "instant \<Rightarrow> registry" where
  "two_sessions now =
     fst (registry_insert now (sample_session ''b'' 2 7)
       (fst (registry_insert now (sample_session ''a'' 1 7) (registry_new 0))))"

lemma two_sessions_inv [simp]: "registry_inv (two_sessions now)"
  by (simp add: two_sessions_def registry_insert_inv)

theorem list_files_order_witness:
  "map lf_connection_id (registry_list_files
     (two_sessions 3\<lparr>sessions := rev (sessions (two_sessions 3))\<rparr>)) = [''a'', ''b'']"
proof -
  have "map lf_connection_id (registry_list_files (two_sessions 3)) = [''a'', ''b'']"
    by (simp add: two_sessions_def registry_list_files_def registry_insert_def registry_new_def
        sample_session_def session_live_file_def Let_def)
  then show ?thesis
    using list_files_order [OF two_sessions_inv, of
        "two_sessions 3\<lparr>sessions := rev (sessions (two_sessions 3))\<rparr>" 3] by simp
qed

text \<open>
  A message goes out only on the channel of the session that owns both the connection and the
  socket it was meant for: if the connection has moved to another socket meanwhile, or is gone,
  nothing is sent and the reason is reported; and a route taken from the registry is delivered to
  as long as the registry still holds it.
\<close>

theorem send_isolated:
  "case try_send_to chan c u message r of (result, sent) \<Rightarrow>
     (sent \<noteq> [] \<longleftrightarrow> result = Inr u) \<and>
     (result = Inr u \<longleftrightarrow> (\<exists>out. route_for c r = Some (u, out) \<and> chan out = Sent
        \<and> sent = [(out, message)])) \<and>
     (result = Inl RouteConnectionChanged \<longleftrightarrow>
        (\<exists>s. hm_get (sessions r) c = Some s \<and> s_socket_id s \<noteq> u)) \<and>
     (route_for c r = Some (u, out) \<longrightarrow>
        try_send_to chan c u message r = try_send chan c message r)"
  by (auto simp: try_send_to_def try_send_def route_for_def del: notI
      split: option.split send_outcome.split)

theorem send_isolated_witness:
  "try_send_to (\<lambda>_. Sent) ''a'' 1 ''m'' (two_sessions 3) = try_send (\<lambda>_. Sent) ''a'' ''m'' (two_sessions 3)"
proof -
  have "route_for ''a'' (two_sessions 3) = Some (1, 101)"
    by (simp add: two_sessions_def route_for_def registry_insert_def registry_new_def
        sample_session_def Let_def)
  then show ?thesis
    using send_isolated [where chan = "\<lambda>_. Sent" and c = "''a''" and u = 1 and message = "''m''"
        and r = "two_sessions 3" and out = 101] by (auto split: prod.splits)
qed

text \<open>
  The stale sweep removes exactly the sessions not seen since the cutoff and reports their
  sockets; every other session stays as it was.
\<close>

theorem expire_stale_exact:
  assumes "registry_inv r"
  shows "case registry_expire_stale cutoff r of (r', stale) \<Rightarrow>
      (\<forall>c. hm_get (sessions r') c = (case hm_get (sessions r) c of None \<Rightarrow> None
         | Some s \<Rightarrow> if s_last_seen s \<le> cutoff then None else Some s)) \<and>
      set stale = {s_socket_id s | s. s \<in> ran (hm_get (sessions r)) \<and> s_last_seen s \<le> cutoff}"
proof -
  let ?stale = "map s_socket_id (filter (\<lambda>s. s_last_seen s \<le> cutoff) (map snd (sessions r)))"
  have ok: "hm_ok (sessions r)" and inv: "inverse_maps (hm_get (sessions r)) (hm_get (sockets r))"
    using assms by (simp_all add: registry_inv_def)
  have ran: "ran (hm_get (sessions r)) = snd ` set (sessions r)"
    using ok by (rule ran_distinct)
  then have set: "set ?stale =
      {s_socket_id s | s. s \<in> ran (hm_get (sessions r)) \<and> s_last_seen s \<le> cutoff}"
    by auto
  have member: "s_socket_id s \<in> set ?stale \<longleftrightarrow> s_last_seen s \<le> cutoff"
    if s: "hm_get (sessions r) c = Some s" for c s
  proof -
    have "t = s" if "t \<in> ran (hm_get (sessions r))" "s_socket_id t = s_socket_id s" for t
    proof -
      from that(1) have "\<exists>d. hm_get (sessions r) d = Some t" by (simp only: ran_def mem_Collect_eq)
      then obtain d where d: "hm_get (sessions r) d = Some t" ..
      then show ?thesis
        using inverse_mapsD1 [OF inv d] inverse_mapsD1 [OF inv s] that(2) s by simp
    qed
    moreover have "s \<in> ran (hm_get (sessions r))" using s by (rule ranI)
    ultimately show ?thesis
      unfolding set mem_Collect_eq by (intro iffI) (elim exE conjE, simp, metis)
  qed
  show ?thesis
    unfolding registry_expire_stale_def Let_def prod.case
  proof (intro conjI allI)
    fix c
    show "hm_get (sessions (fold (\<lambda>u r. fst (registry_remove_socket u r)) ?stale r)) c =
        (case hm_get (sessions r) c of None \<Rightarrow> None
         | Some s \<Rightarrow> if s_last_seen s \<le> cutoff then None else Some s)"
      unfolding remove_sockets_get [OF assms]
      by (cases "hm_get (sessions r) c") (simp_all only: option.case member)
  qed (rule set)
qed

theorem expire_stale_exact_witness:
  "hm_get (sessions (fst (registry_expire_stale 4
      (fst (registry_touch_socket 2 9 9 (two_sessions 3)))))) ''a'' = None"
proof -
  let ?r = "fst (registry_touch_socket 2 9 9 (two_sessions 3))"
  have "registry_inv ?r" by (simp add: registry_touch_inv)
  moreover have "\<exists>s. hm_get (sessions ?r) ''a'' = Some s \<and> s_last_seen s = 3"
    by (simp add: two_sessions_def registry_insert_def registry_new_def registry_touch_socket_def
        sample_session_def Let_def)
  ultimately show ?thesis
    using expire_stale_exact [of ?r 4] by (auto split: prod.splits)
qed

end
