(* ===== verification/Lifecycle.thy ===== *)
theory Lifecycle
  imports Prelude
begin

text \<open>
  The activity of a broker and its idle shutdown (\<open>crates/broker/src/lifecycle.rs\<close> and
  \<open>Broker::wait_until_idle\<close> in \<open>crates/broker/src/lib.rs\<close>). A lease is counted under the mutex and
  announced on the watch channel after the mutex is released, so the two are separate steps and
  the task that waits for idleness runs between them.
\<close>

section \<open>Operations\<close>

record activity_counts =
  frontends :: nat
  plugins :: nat

record activity_state =
  counts :: activity_counts
  closing :: bool

definition activity_default :: activity_state where
  "activity_default = \<lparr>counts = \<lparr>frontends = 0, plugins = 0\<rparr>, closing = False\<rparr>"

text \<open>The part under the mutex; \<^const>\<open>None\<close> is a refused lease.\<close>

definition frontend_lease :: "activity_state \<Rightarrow> activity_state option" where
  "frontend_lease a =
     (if closing a then None
      else Some (a\<lparr>counts := (counts a)\<lparr>frontends := frontends (counts a) + 1\<rparr>\<rparr>))"

definition plugin_lease :: "activity_state \<Rightarrow> activity_state option" where
  "plugin_lease a =
     (if closing a then None
      else Some (a\<lparr>counts := (counts a)\<lparr>plugins := plugins (counts a) + 1\<rparr>\<rparr>))"

definition drop_frontend_lease :: "activity_state \<Rightarrow> activity_state" where
  "drop_frontend_lease a = a\<lparr>counts := (counts a)\<lparr>frontends := frontends (counts a) - 1\<rparr>\<rparr>"

definition drop_plugin_lease :: "activity_state \<Rightarrow> activity_state" where
  "drop_plugin_lease a = a\<lparr>counts := (counts a)\<lparr>plugins := plugins (counts a) - 1\<rparr>\<rparr>"

definition begin_closing_if_idle :: "activity_state \<Rightarrow> activity_state \<times> bool" where
  "begin_closing_if_idle a =
     (if frontends (counts a) \<noteq> 0 \<or> plugins (counts a) \<noteq> 0 then (a, False)
      else (a\<lparr>closing := True\<rparr>, True))"

text \<open>
  A watch channel: the value, and the version a receiver compares with the one it last saw.
  \<open>changed\<close> adds one to the value, wrapping, and makes a new version.
\<close>

record watch =
  watch_value :: u64
  watch_version :: nat

definition changed :: "watch \<Rightarrow> watch" where
  "changed w = w\<lparr>watch_value := watch_value w + 1, watch_version := watch_version w + 1\<rparr>"

section \<open>The idle waiter\<close>

text \<open>
  Where \<open>wait_until_idle\<close> stands, with the version its receiver has seen: at the top of the loop,
  in the race between the grace period and a change, waiting for a change, or returned. The sender
  of the channel lives as long as the broker, so \<open>changed()\<close> does not fail.
\<close>

datatype waiter_at = LoopTop nat | GraceSleep nat | ChangeWait nat | IdleDone

definition read_counts :: "activity_state \<Rightarrow> nat \<Rightarrow> waiter_at" where
  "read_counts a seen =
     (if frontends (counts a) = 0 \<and> plugins (counts a) = 0 then GraceSleep seen else ChangeWait seen)"

definition grace_over :: "activity_state \<Rightarrow> nat \<Rightarrow> activity_state \<times> waiter_at" where
  "grace_over a seen =
     (case begin_closing_if_idle a of (a', idle) \<Rightarrow> (a', if idle then IdleDone else LoopTop seen))"

record life =
  act :: activity_state
  chan :: watch
  unannounced :: nat
  live_frontends :: nat
  live_plugins :: nat
  idle_waiter :: waiter_at

definition life_new :: life where
  "life_new =
     \<lparr>act = activity_default, chan = \<lparr>watch_value = 0, watch_version = 0\<rparr>, unannounced = 0,
      live_frontends = 0, live_plugins = 0, idle_waiter = LoopTop 0\<rparr>"

inductive life_step :: "life \<Rightarrow> life \<Rightarrow> bool" where
  lease_frontend: "frontend_lease (act s) = Some a \<Longrightarrow>
    life_step s (s\<lparr>act := a, live_frontends := live_frontends s + 1, unannounced := unannounced s + 1\<rparr>)"
| lease_plugin: "plugin_lease (act s) = Some a \<Longrightarrow>
    life_step s (s\<lparr>act := a, live_plugins := live_plugins s + 1, unannounced := unannounced s + 1\<rparr>)"
| drop_frontend: "live_frontends s > 0 \<Longrightarrow>
    life_step s (s\<lparr>act := drop_frontend_lease (act s), live_frontends := live_frontends s - 1,
                   unannounced := unannounced s + 1\<rparr>)"
| drop_plugin: "live_plugins s > 0 \<Longrightarrow>
    life_step s (s\<lparr>act := drop_plugin_lease (act s), live_plugins := live_plugins s - 1,
                   unannounced := unannounced s + 1\<rparr>)"
| announce: "unannounced s > 0 \<Longrightarrow>
    life_step s (s\<lparr>unannounced := unannounced s - 1, chan := changed (chan s)\<rparr>)"
| touch: "life_step s (s\<lparr>chan := changed (chan s)\<rparr>)"
| read: "idle_waiter s = LoopTop seen \<Longrightarrow>
    life_step s (s\<lparr>idle_waiter := read_counts (act s) seen\<rparr>)"
| grace: "idle_waiter s = GraceSleep seen \<Longrightarrow> grace_over (act s) seen = (a, at) \<Longrightarrow>
    life_step s (s\<lparr>act := a, idle_waiter := at\<rparr>)"
| woken: "idle_waiter s \<in> {GraceSleep seen, ChangeWait seen} \<Longrightarrow> watch_version (chan s) \<noteq> seen \<Longrightarrow>
    life_step s (s\<lparr>idle_waiter := LoopTop (watch_version (chan s))\<rparr>)"

inductive_cases life_stepE: "life_step s t"

inductive life_reachable :: "life \<Rightarrow> bool" where
  start: "life_reachable life_new"
| step: "life_reachable s \<Longrightarrow> life_step s t \<Longrightarrow> life_reachable t"

lemmas life_defs = frontend_lease_def plugin_lease_def drop_frontend_lease_def drop_plugin_lease_def
  begin_closing_if_idle_def read_counts_def grace_over_def changed_def

definition life_inv :: "life \<Rightarrow> bool" where
  "life_inv s \<longleftrightarrow>
     frontends (counts (act s)) = live_frontends s \<and> plugins (counts (act s)) = live_plugins s \<and>
     (closing (act s) \<longrightarrow> live_frontends s = 0 \<and> live_plugins s = 0) \<and>
     (closing (act s) \<longleftrightarrow> idle_waiter s = IdleDone) \<and>
     (case idle_waiter s of
        LoopTop seen \<Rightarrow> seen \<le> watch_version (chan s)
      | GraceSleep seen \<Rightarrow> seen \<le> watch_version (chan s)
      | ChangeWait seen \<Rightarrow> seen \<le> watch_version (chan s) \<and>
          (seen = watch_version (chan s) \<and> unannounced s = 0 \<longrightarrow>
             live_frontends s \<noteq> 0 \<or> live_plugins s \<noteq> 0)
      | IdleDone \<Rightarrow> True)"

lemma life_new_inv: "life_inv life_new"
  by (simp add: life_inv_def life_new_def activity_default_def)

lemma life_step_inv: "life_step s t \<Longrightarrow> life_inv s \<Longrightarrow> life_inv t"
  by (erule life_stepE)
    (auto simp: life_inv_def life_defs split: if_splits waiter_at.splits)

lemma life_reachable_inv: "life_reachable s \<Longrightarrow> life_inv s"
  by (induction rule: life_reachable.induct) (simp_all add: life_new_inv life_step_inv)

lemma closing_stays: "life_step s t \<Longrightarrow> closing (act s) \<Longrightarrow> closing (act t)"
  by (erule life_stepE) (auto simp: life_defs split: if_splits)

section \<open>Properties\<close>

text \<open>
  C22. The counts are exactly the leases alive, and closing is decided only in a moment without
  any: from then on, in every later state, the broker is still closing, no lease is alive, and
  every new one is refused.
\<close>

theorem closing_excludes_leases:
  assumes "life_reachable s"
  shows "counts (act s) = \<lparr>frontends = live_frontends s, plugins = live_plugins s\<rparr>
    \<and> (closing (act s) \<and> life_step\<^sup>*\<^sup>* s t \<longrightarrow>
        closing (act t) \<and> live_frontends t = 0 \<and> live_plugins t = 0 \<and>
        frontend_lease (act t) = None \<and> plugin_lease (act t) = None)"
proof (intro conjI impI; (elim conjE)?)
  show "counts (act s) = \<lparr>frontends = live_frontends s, plugins = live_plugins s\<rparr>"
    using life_reachable_inv [OF assms] by (simp add: life_inv_def)
  assume "closing (act s)" and steps: "life_step\<^sup>*\<^sup>* s t"
  from steps have "life_reachable t \<and> closing (act t)"
    by (induction rule: rtranclp_induct)
      (use assms \<open>closing (act s)\<close> closing_stays in \<open>auto intro: life_reachable.step\<close>)
  then have "life_inv t" "closing (act t)" using life_reachable_inv by blast+
  then show "closing (act t)" "live_frontends t = 0" "live_plugins t = 0"
    "frontend_lease (act t) = None" "plugin_lease (act t) = None"
    by (simp_all add: life_inv_def life_defs)
qed

definition life_closed :: life where
  "life_closed = life_new\<lparr>act := activity_default\<lparr>closing := True\<rparr>, idle_waiter := IdleDone\<rparr>"

lemma life_closed_reachable: "life_reachable life_closed"
proof -
  have "life_reachable (life_new\<lparr>idle_waiter := GraceSleep 0\<rparr>)"
    using life_step.read [of life_new 0]
    by (intro life_reachable.step [OF life_reachable.start])
      (simp add: life_new_def life_defs activity_default_def)
  moreover have "life_step (life_new\<lparr>idle_waiter := GraceSleep 0\<rparr>) life_closed"
    using life_step.grace [of "life_new\<lparr>idle_waiter := GraceSleep 0\<rparr>" 0
        "activity_default\<lparr>closing := True\<rparr>" IdleDone]
    by (simp add: life_closed_def life_new_def life_defs activity_default_def)
  ultimately show ?thesis by (rule life_reachable.step)
qed

theorem closing_excludes_leases_witness:
  "frontend_lease (act life_closed) = None"
  using closing_excludes_leases [OF life_closed_reachable, of life_closed]
  by (simp add: life_closed_def)

text \<open>
  C40. No wake-up is lost: when the last lease is gone and its drop has been announced, a waiter
  that is waiting for a change has one to see, so it goes back to the counts, reads them as idle
  and starts its grace period.
\<close>

theorem idle_waiter_woken:
  assumes "life_reachable s" and "idle_waiter s = ChangeWait seen"
    and "live_frontends s = 0" and "live_plugins s = 0" and "unannounced s = 0"
  shows "\<exists>t u. life_step s t \<and> idle_waiter t = LoopTop (watch_version (chan s))
    \<and> life_step t u \<and> idle_waiter u = GraceSleep (watch_version (chan s)) \<and> act u = act s"
proof -
  have inv: "life_inv s" using assms(1) by (rule life_reachable_inv)
  then have "watch_version (chan s) \<noteq> seen"
    using assms by (auto simp: life_inv_def)
  let ?t = "s\<lparr>idle_waiter := LoopTop (watch_version (chan s))\<rparr>"
  let ?u = "?t\<lparr>idle_waiter := read_counts (act ?t) (watch_version (chan s))\<rparr>"
  have "life_step s ?t"
    using assms(2) \<open>watch_version (chan s) \<noteq> seen\<close> by (intro life_step.woken [of _ seen]) simp_all
  moreover have "life_step ?t ?u" by (rule life_step.read) simp
  moreover have "idle_waiter ?u = GraceSleep (watch_version (chan s))"
    using inv assms by (simp add: read_counts_def life_inv_def)
  ultimately show ?thesis by (intro exI [of _ ?t] exI [of _ ?u]) simp
qed

definition life_waiting :: life where
  "life_waiting = life_new\<lparr>idle_waiter := ChangeWait 0,
     chan := \<lparr>watch_value = 2, watch_version = Suc (Suc 0)\<rparr>\<rparr>"

lemma life_waiting_reachable: "life_reachable life_waiting"
proof -
  let ?one = "activity_default\<lparr>counts := \<lparr>frontends = 1, plugins = 0\<rparr>\<rparr>"
  let ?s1 = "life_new\<lparr>act := ?one, live_frontends := 1, unannounced := 1\<rparr>"
  let ?s2 = "?s1\<lparr>idle_waiter := ChangeWait 0\<rparr>"
  let ?s3 = "life_new\<lparr>idle_waiter := ChangeWait 0, unannounced := 2\<rparr>"
  let ?s4 = "?s3\<lparr>unannounced := 1, chan := \<lparr>watch_value = 1, watch_version = 1\<rparr>\<rparr>"
  have 1: "life_step life_new ?s1"
    using life_step.lease_frontend [of life_new ?one]
    by (simp add: life_new_def life_defs activity_default_def)
  have 2: "life_step ?s1 ?s2"
    using life_step.read [of ?s1 0] by (simp add: life_new_def life_defs)
  have 3: "life_step ?s2 ?s3"
    using life_step.drop_frontend [of ?s2]
    by (simp add: life_new_def life_defs activity_default_def numeral_2_eq_2)
  have 4: "life_step ?s3 ?s4"
    using life_step.announce [of ?s3] by (simp add: life_new_def life_defs)
  have 5: "life_step ?s4 life_waiting"
    using life_step.announce [of ?s4] by (simp add: life_new_def life_waiting_def life_defs)
  show ?thesis
    using 1 2 3 4 5 life_reachable.start life_reachable.step by meson
qed

theorem idle_waiter_woken_witness:
  "\<exists>t. life_step life_waiting t \<and> idle_waiter t = LoopTop 2"
  using idle_waiter_woken [OF life_waiting_reachable, of 0]
  by (auto simp: life_waiting_def life_new_def numeral_2_eq_2)

end
