(* ===== verification/Broker.thy ===== *)
theory Broker
  imports Registry Lifecycle
begin

text \<open>
  The shared state of a broker and its operations (\<open>crates/broker/src/lib.rs\<close>, with
  \<open>cleanup_socket\<close> of \<open>lifecycle.rs\<close>). The four mutexes of the code protect four components, so an
  operation is the composition of the steps it takes under them; a step is a function of its own,
  because other tasks run between two of them. \<open>Arc\<close>s are names: a socket's queue and outbound
  channel are reached through the number of the socket, and outlive their entry in the maps.
\<close>

section \<open>Bounded channels\<close>

record 'm mpsc =
  ch_queue :: "'m list"
  ch_capacity :: nat
  ch_open :: bool

definition mpsc_new :: "nat \<Rightarrow> 'm mpsc" where
  "mpsc_new capacity = \<lparr>ch_queue = [], ch_capacity = capacity, ch_open = True\<rparr>"

definition mpsc_try_send :: "'m \<Rightarrow> 'm mpsc \<Rightarrow> 'm mpsc \<times> send_outcome" where
  "mpsc_try_send m ch =
     (if \<not> ch_open ch then (ch, Closed)
      else if ch_capacity ch \<le> length (ch_queue ch) then (ch, Full)
      else (ch\<lparr>ch_queue := ch_queue ch @ [m]\<rparr>, Sent))"

definition mpsc_recv :: "'m mpsc \<Rightarrow> ('m \<times> 'm mpsc) option" where
  "mpsc_recv ch = (case ch_queue ch of
     [] \<Rightarrow> None
   | m # ms \<Rightarrow> Some (m, ch\<lparr>ch_queue := ms\<rparr>))"

text \<open>Dropping the receiver closes the channel and drops what is in it.\<close>

definition mpsc_close :: "'m mpsc \<Rightarrow> 'm mpsc" where
  "mpsc_close ch = ch\<lparr>ch_queue := [], ch_open := False\<rparr>"

lemma mpsc_try_send_bound:
  "length (ch_queue ch) \<le> ch_capacity ch \<Longrightarrow>
     length (ch_queue (fst (mpsc_try_send m ch))) \<le> ch_capacity (fst (mpsc_try_send m ch))"
  by (auto simp: mpsc_try_send_def)

section \<open>State\<close>

text \<open>
  The fields of \<open>BrokerState\<close>; then the objects behind the \<open>Arc\<close>s; then the outputs so far: the
  one-shot channels created, the results delivered on them, the progress offered, and the tickets
  whose \<open>DispatchWait\<close> was signalled.
\<close>

record ('i, 'r) broker =
  bk_config :: broker_config
  bk_registry :: registry
  bk_pending :: pending_map
  bk_queues :: "(uuid, uuid) hash_map"
  bk_activity :: activity_state
  bk_shutdown :: bool
  bk_queue :: "uuid \<Rightarrow> queue_inner"
  bk_outbound :: "uuid \<Rightarrow> 'i broker_to_plugin mpsc"
  bk_channels :: nat
  bk_results :: "'r deliveries"
  bk_progress :: "(nat \<times> normalized_progress) list"
  bk_granted :: "ticket list"

definition broker_new :: "broker_config \<Rightarrow> instant \<Rightarrow> ('i, 'r) broker" where
  "broker_new config now =
     \<lparr>bk_config = config, bk_registry = registry_new now, bk_pending = [], bk_queues = [],
      bk_activity = activity_default, bk_shutdown = False,
      bk_queue = (\<lambda>_. queue_new), bk_outbound = (\<lambda>_. mpsc_close (mpsc_new 0)),
      bk_channels = 0, bk_results = [], bk_progress = [], bk_granted = []\<rparr>"

text \<open>
  Dropping a ticket releases it in the queue it came from; \<open>alive\<close> says whose \<open>DispatchWait\<close> still
  exists.
\<close>

definition drop_ticket :: "(ticket \<Rightarrow> bool) \<Rightarrow> ticket \<Rightarrow> ('i, 'r) broker \<Rightarrow> ('i, 'r) broker" where
  "drop_ticket alive = (\<lambda>(q, t) b.
     case queue_release (\<lambda>i. alive (q, i)) t (bk_queue b q) of (inner, granted) \<Rightarrow>
       b\<lparr>bk_queue := (bk_queue b)(q := inner),
         bk_granted := bk_granted b @ map (Pair q) granted\<rparr>)"

definition drop_tickets :: "(ticket \<Rightarrow> bool) \<Rightarrow> ticket list \<Rightarrow> ('i, 'r) broker \<Rightarrow> ('i, 'r) broker" where
  "drop_tickets alive ts b = fold (drop_ticket alive) ts b"

text \<open>What an operation of the pending map leaves behind: its deliveries and the tickets it dropped.\<close>

definition settle ::
    "(ticket \<Rightarrow> bool) \<Rightarrow> pending_map \<Rightarrow> 'r deliveries \<Rightarrow> ticket list \<Rightarrow> ('i, 'r) broker
      \<Rightarrow> ('i, 'r) broker" where
  "settle alive m ds ts b =
     drop_tickets alive ts (b\<lparr>bk_pending := m, bk_results := bk_results b @ ds\<rparr>)"

section \<open>Sending to a plugin\<close>

definition encoded_plugin_send ::
    "('i \<Rightarrow> json option) \<Rightarrow> uuid \<Rightarrow> 'i broker_to_plugin \<Rightarrow> ('i, 'r) broker
      \<Rightarrow> ('i, 'r) broker \<times> (tool_error + unit)" where
  "encoded_plugin_send ei outbound message b =
     (case enc_broker_to_plugin ei message of
        None \<Rightarrow> (b, Inl (tool_error_new InternalError False))
      | Some encoded \<Rightarrow>
          if src_len encoded > MAX_ENVELOPE_BYTES
          then (b, Inl (tool_error_new LimitExceeded False))
          else
            (case mpsc_try_send message (bk_outbound b outbound) of (ch, sent) \<Rightarrow>
               (b\<lparr>bk_outbound := (bk_outbound b)(outbound := ch)\<rparr>,
                case sent of
                  Sent \<Rightarrow> Inr ()
                | Full \<Rightarrow> Inl (tool_error_new LimitExceeded True)
                | Closed \<Rightarrow> Inl (tool_error_new ConnectionLost True))))"

definition try_send_cancel :: "uuid \<Rightarrow> string \<Rightarrow> ('i, 'r) broker \<Rightarrow> ('i, 'r) broker" where
  "try_send_cancel outbound request_id b =
     b\<lparr>bk_outbound := (bk_outbound b)
         (outbound := fst (mpsc_try_send (BCancel request_id) (bk_outbound b outbound)))\<rparr>"

section \<open>Invoking an operation\<close>

text \<open>What \<open>invoke\<close> returns: the channels of the call and its deadlines.\<close>

record open_call =
  oc_result :: nat
  oc_progress :: nat
  oc_total_deadline :: instant
  oc_inactivity_timeout :: nat
  oc_connection_id :: "string option"
  oc_request_id :: "string option"

definition invoke_route :: "string \<Rightarrow> ('i, 'r) broker \<Rightarrow> tool_error + (uuid \<times> uuid)" where
  "invoke_route connection_id b =
     ok_or (tool_error_new ConnectionNotFound False) (route_for connection_id (bk_registry b))"

text \<open>
  The queue is looked up under the lock of the map of queues, and entered under its own lock: by then it
  may have left the map.
\<close>

definition invoke_queue :: "uuid \<Rightarrow> ('i, 'r) broker \<Rightarrow> tool_error + uuid" where
  "invoke_queue socket b =
     ok_or (tool_error_new ConnectionNotFound False) (hm_get (bk_queues b) socket)"

definition queue_enter ::
    "uuid \<Rightarrow> ('i, 'r) broker \<Rightarrow> ('i, 'r) broker \<times> (tool_error + ticket)" where
  "queue_enter queue b =
     (case try_enqueue (bk_queue b queue) of (inner, r, granted) \<Rightarrow>
        (b\<lparr>bk_queue := (bk_queue b)(queue := inner),
           bk_granted := bk_granted b @ map (Pair queue) granted\<rparr>,
         case r of
           Inl _ \<Rightarrow> Inl (tool_error_new LimitExceeded True)
         | Inr t \<Rightarrow> Inr (queue, t)))"

definition invoke_enqueue ::
    "uuid \<Rightarrow> ('i, 'r) broker \<Rightarrow> ('i, 'r) broker \<times> (tool_error + ticket)" where
  "invoke_enqueue socket b =
     (case invoke_queue socket b of Inl e \<Rightarrow> (b, Inl e) | Inr queue \<Rightarrow> queue_enter queue b)"

text \<open>\<open>progress\<close> is the fresh progress channel of the call.\<close>

definition invoke_admit ::
    "(ticket \<Rightarrow> bool) \<Rightarrow> instant \<Rightarrow> nat \<Rightarrow> nat \<Rightarrow> string \<Rightarrow> uuid \<Rightarrow> ticket \<Rightarrow> string \<Rightarrow> ('i, 'r) broker
      \<Rightarrow> ('i, 'r) broker \<times> (tool_error + open_call)" where
  "invoke_admit alive now started progress connection_id socket t request_id b =
     (let total_deadline = now + from_secs TOTAL_TIMEOUT_SECS;
          inactivity_timeout = from_secs INACTIVITY_TIMEOUT_SECS in
      case pending_admit (bk_channels b)
          \<lparr>ar_socket = socket, ar_request = request_id, ar_started_at = started,
           ar_total_deadline = total_deadline, ar_inactivity_deadline = now + inactivity_timeout,
           ar_progress = Some progress, ar_ticket = Some t\<rparr> (bk_pending b) of
        (m, Inl _, ts) \<Rightarrow>
          (settle alive m [] ts b, Inl (tool_error_new InternalError False))
      | (m, Inr receiver, ts) \<Rightarrow>
          (settle alive m [] ts (b\<lparr>bk_channels := Suc (bk_channels b)\<rparr>),
           Inr \<lparr>oc_result = receiver, oc_progress = progress, oc_total_deadline = total_deadline,
                oc_inactivity_timeout = inactivity_timeout,
                oc_connection_id = Some connection_id, oc_request_id = Some request_id\<rparr>))"

text \<open>The steps of a call up to its admission, with nothing between them.\<close>

definition broker_invoke ::
    "(ticket \<Rightarrow> bool) \<Rightarrow> instant \<Rightarrow> nat \<Rightarrow> nat \<Rightarrow> string \<Rightarrow> 'i request \<Rightarrow> ('i, 'r) broker
      \<Rightarrow> ('i, 'r) broker \<times> (tool_error + open_call)" where
  "broker_invoke alive now started progress connection_id request b =
     (case invoke_route connection_id b of
        Inl e \<Rightarrow> (b, Inl e)
      | Inr (socket, outbound) \<Rightarrow>
          (case invoke_enqueue socket b of
             (b', Inl e) \<Rightarrow> (b', Inl e)
           | (b', Inr t) \<Rightarrow>
               invoke_admit alive now started progress connection_id socket t
                 (rq_request_id request) b'))"

text \<open>
  The task that dispatches the call, once its \<open>DispatchWait\<close> has received something: under the lock
  of the pending map it checks that the call is still wanted and sends it. The second component is
  what became of the send, if there was one.
\<close>

definition dispatch ::
    "('i \<Rightarrow> json option) \<Rightarrow> (ticket \<Rightarrow> bool) \<Rightarrow> (queue_error + unit) option \<Rightarrow> uuid \<Rightarrow> uuid
      \<Rightarrow> 'i request \<Rightarrow> ('i, 'r) broker \<Rightarrow> ('i, 'r) broker \<times> (tool_error + unit) option" where
  "dispatch ei alive received socket outbound request b =
     (case dispatch_wait received of
        Inl _ \<Rightarrow> (b, None)
      | Inr _ \<Rightarrow>
          if \<not> pending_contains socket (rq_request_id request) (bk_pending b) then (b, None)
          else
            (case encoded_plugin_send ei outbound (BRequest request) b of
               (b', Inr _) \<Rightarrow> (b', Some (Inr ()))
             | (b', Inl e) \<Rightarrow>
                 (case pending_complete socket (rq_request_id request) (Inl e) (bk_pending b') of
                    (m, _, ds, ts) \<Rightarrow> (settle alive m ds ts b', Some (Inl e)))))"

text \<open>
  The task that maps the result for the caller: a channel dropped without a result reads as a
  lost connection.
\<close>

definition map_result :: "'r pending_result option \<Rightarrow> tool_error + ('f, 'r) broker_result" where
  "map_result received = (case received of
     None \<Rightarrow> Inl (tool_error_new ConnectionLost True)
   | Some (Inl e) \<Rightarrow> Inl e
   | Some (Inr result) \<Rightarrow> Inr (Invocation result))"

section \<open>The other operations\<close>

text \<open>
  \<open>cancel\<close> once the socket is known, which may have changed since: the request is told under the lock of
  the pending map, and the plugin afterwards, if there was such a request.
\<close>

definition cancel_pending ::
    "(ticket \<Rightarrow> bool) \<Rightarrow> uuid \<Rightarrow> string \<Rightarrow> ('i, 'r) broker \<Rightarrow> ('i, 'r) broker \<times> bool" where
  "cancel_pending alive socket request_id b =
     (case pending_cancel socket request_id (bk_pending b) of (m, found, ds, ts) \<Rightarrow>
        if \<not> found then (b, False) else (settle alive m ds ts b, True))"

definition cancel_routed ::
    "(ticket \<Rightarrow> bool) \<Rightarrow> uuid \<Rightarrow> uuid \<Rightarrow> string \<Rightarrow> ('i, 'r) broker \<Rightarrow> ('i, 'r) broker \<times> bool" where
  "cancel_routed alive socket outbound request_id b =
     (case cancel_pending alive socket request_id b of (b', found) \<Rightarrow>
        (if found then try_send_cancel outbound request_id b' else b', found))"

definition broker_cancel ::
    "(ticket \<Rightarrow> bool) \<Rightarrow> string \<Rightarrow> string \<Rightarrow> ('i, 'r) broker \<Rightarrow> ('i, 'r) broker \<times> bool" where
  "broker_cancel alive connection_id request_id b =
     (case route_for connection_id (bk_registry b) of
        None \<Rightarrow> (b, False)
      | Some (socket, outbound) \<Rightarrow> cancel_routed alive socket outbound request_id b)"

definition live_file_count :: "('i, 'r) broker \<Rightarrow> nat" where
  "live_file_count b = length (registry_list_files (bk_registry b))"

definition broker_list_files :: "('i, 'r) broker \<Rightarrow> live_file list" where
  "broker_list_files b = registry_list_files (bk_registry b)"

definition resolve_connection :: "string option \<Rightarrow> ('i, 'r) broker \<Rightarrow> tool_error + string" where
  "resolve_connection connection_id b =
     (case registry_select connection_id (bk_registry b) of
        SelectOne s \<Rightarrow> Inr (s_connection_id s)
      | SelectNone \<Rightarrow> Inl (tool_error_new NoFigmaConnection True)
      | SelectAmbiguous \<Rightarrow> Inl (tool_error_new AmbiguousConnection False)
      | SelectMissing \<Rightarrow> Inl (tool_error_new ConnectionNotFound False))"

definition broker_shutdown :: "(ticket \<Rightarrow> bool) \<Rightarrow> ('i, 'r) broker \<Rightarrow> ('i, 'r) broker" where
  "broker_shutdown alive b =
     (case pending_shutdown (bk_pending b) of (m, _, ds, ts) \<Rightarrow>
        settle alive m ds ts (b\<lparr>bk_shutdown := True\<rparr>))"

text \<open>The three steps of \<open>cleanup_socket\<close>.\<close>

definition cleanup_registry :: "uuid \<Rightarrow> ('i, 'r) broker \<Rightarrow> ('i, 'r) broker" where
  "cleanup_registry socket b =
     b\<lparr>bk_registry := fst (registry_remove_socket socket (bk_registry b))\<rparr>"

definition cleanup_pending :: "(ticket \<Rightarrow> bool) \<Rightarrow> uuid \<Rightarrow> ('i, 'r) broker \<Rightarrow> ('i, 'r) broker" where
  "cleanup_pending alive socket b =
     (case pending_remove_socket socket (bk_pending b) of (m, _, ds, ts) \<Rightarrow>
        settle alive m ds ts b)"

definition cleanup_queue :: "uuid \<Rightarrow> ('i, 'r) broker \<Rightarrow> ('i, 'r) broker" where
  "cleanup_queue socket b = b\<lparr>bk_queues := hm_remove socket (bk_queues b)\<rparr>"

definition cleanup_socket :: "(ticket \<Rightarrow> bool) \<Rightarrow> uuid \<Rightarrow> ('i, 'r) broker \<Rightarrow> ('i, 'r) broker" where
  "cleanup_socket alive socket b =
     cleanup_queue socket (cleanup_pending alive socket (cleanup_registry socket b))"

section \<open>Frames\<close>

text \<open>What \<open>settle\<close> leaves alone.\<close>

lemma drop_tickets_frame [frame]:
  "bk_config (drop_tickets alive ts b) = bk_config b"
  "bk_registry (drop_tickets alive ts b) = bk_registry b"
  "bk_pending (drop_tickets alive ts b) = bk_pending b"
  "bk_queues (drop_tickets alive ts b) = bk_queues b"
  "bk_activity (drop_tickets alive ts b) = bk_activity b"
  "bk_shutdown (drop_tickets alive ts b) = bk_shutdown b"
  "bk_outbound (drop_tickets alive ts b) = bk_outbound b"
  "bk_channels (drop_tickets alive ts b) = bk_channels b"
  "bk_results (drop_tickets alive ts b) = bk_results b"
  "bk_progress (drop_tickets alive ts b) = bk_progress b"
  unfolding drop_tickets_def
  by (induction ts arbitrary: b) (auto simp: drop_ticket_def split: prod.splits)

lemma settle_frame [frame, simp]:
  "bk_config (settle alive m ds ts b) = bk_config b"
  "bk_registry (settle alive m ds ts b) = bk_registry b"
  "bk_pending (settle alive m ds ts b) = m"
  "bk_queues (settle alive m ds ts b) = bk_queues b"
  "bk_activity (settle alive m ds ts b) = bk_activity b"
  "bk_shutdown (settle alive m ds ts b) = bk_shutdown b"
  "bk_outbound (settle alive m ds ts b) = bk_outbound b"
  "bk_channels (settle alive m ds ts b) = bk_channels b"
  "bk_results (settle alive m ds ts b) = bk_results b @ ds"
  "bk_progress (settle alive m ds ts b) = bk_progress b"
  by (simp_all add: settle_def frame)

section \<open>Properties\<close>

lemma drop_ticket_one:
  "drop_tickets alive [(q, t)] b =
     b\<lparr>bk_queue := (bk_queue b)(q := fst (queue_release (\<lambda>i. alive (q, i)) t (bk_queue b q))),
       bk_granted := bk_granted b @ map (Pair q) (snd (queue_release (\<lambda>i. alive (q, i)) t (bk_queue b q)))\<rparr>"
  by (simp add: drop_tickets_def drop_ticket_def case_prod_unfold)

text \<open>Under the invariant of a queue, the refusal of a ticket is a full queue.\<close>

lemma enqueue_full:
  assumes "queue_inv q" and "try_enqueue q = (q', r, granted)"
  shows "isl r \<longleftrightarrow> queue_snapshot q = (4, 16)"
  using assms
  by (auto simp: try_enqueue_def Let_def queue_snapshot_def queue_inv_def limit_defs split: if_splits)

text \<open>
  C7. The outcome of a call is determined, and a call is admitted entirely or not at all. No route, or a
  socket whose queue is gone, is an unknown connection; four requests in flight and sixteen waiting is a
  full queue, which is worth retrying; an identifier that the socket already has pending is an
  internal error; and every other call is admitted. A refusal leaves pending what was pending, answers
  nobody and leaves every queue the tickets it held, even when it came after the slot was taken. An
  admission makes the request pending under its socket with both deadlines set and a ticket of its
  own, which is the only one more, and returns its channel and its deadlines.
\<close>

theorem invoke_all_or_nothing:
  assumes "\<And>q. queue_inv (bk_queue b q)" and "\<And>q. next_id (bk_queue b q) \<noteq> - 1"
    and "\<And>q t. t \<in> tickets (bk_queue b q) \<Longrightarrow> alive (q, t)"
    and "broker_invoke alive now started progress connection_id request b = (b', r)"
  shows "case route_for connection_id (bk_registry b) of
     None \<Rightarrow> b' = b \<and> r = Inl (tool_error_new ConnectionNotFound False)
   | Some (socket, outbound) \<Rightarrow> (case hm_get (bk_queues b) socket of
       None \<Rightarrow> b' = b \<and> r = Inl (tool_error_new ConnectionNotFound False)
     | Some queue \<Rightarrow>
         if queue_snapshot (bk_queue b queue) = (4, 16) \<or>
            pending_contains socket (rq_request_id request) (bk_pending b)
         then r = Inl (if queue_snapshot (bk_queue b queue) = (4, 16) then tool_error_new LimitExceeded True
                       else tool_error_new InternalError False) \<and>
           bk_pending b' = bk_pending b \<and> bk_results b' = bk_results b \<and>
           (\<forall>q. tickets (bk_queue b' q) = tickets (bk_queue b q))
         else \<exists>t p. t \<notin> tickets (bk_queue b queue) \<and>
           r = Inr \<lparr>oc_result = pr_sender p, oc_progress = progress, oc_total_deadline = now + 120000,
             oc_inactivity_timeout = 15000, oc_connection_id = Some connection_id,
             oc_request_id = Some (rq_request_id request)\<rparr> \<and>
           bk_pending b' = bk_pending b @ [((socket, rq_request_id request), p)] \<and>
           pr_socket p = socket \<and> pr_request p = rq_request_id request \<and>
           pr_sender p = bk_channels b \<and> bk_channels b' = Suc (bk_channels b) \<and>
           pr_progress p = Some progress \<and> pr_ticket p = Some (queue, t) \<and>
           pr_total_deadline p = now + 120000 \<and> pr_inactivity_deadline p = now + 15000 \<and>
           bk_results b' = bk_results b \<and>
           tickets (bk_queue b' queue) = insert t (tickets (bk_queue b queue)) \<and>
           (\<forall>q. q \<noteq> queue \<longrightarrow> bk_queue b' q = bk_queue b q))"
proof (cases "route_for connection_id (bk_registry b)")
  case None
  then show ?thesis using assms(4) by (auto simp: broker_invoke_def invoke_route_def)
next
  case (Some route)
  obtain socket outbound where route: "route = (socket, outbound)" by (cases route)
  show ?thesis
  proof (cases "hm_get (bk_queues b) socket")
    case None
    then show ?thesis
      using assms(4) Some by (auto simp: broker_invoke_def invoke_route_def route invoke_enqueue_def
          invoke_queue_def)
  next
    case queue: (Some queue)
    obtain inner res gs where enq: "try_enqueue (bk_queue b queue) = (inner, res, gs)" by (metis prod_cases3)
    note full = enqueue_full [OF assms(1) enq]
    note run = assms(4) [unfolded broker_invoke_def invoke_route_def Some route invoke_enqueue_def
        invoke_queue_def]
    show ?thesis
    proof (cases res)
      case (Inl e)
      have "tickets inner = tickets (bk_queue b queue)"
        using admit.enq_held [OF assms(1) [of queue]] enq Inl by simp
      then show ?thesis using run queue enq Inl full Some route by (auto simp: queue_enter_def split: if_splits)
    next
      case (Inr t)
      have held: "tickets inner = insert t (tickets (bk_queue b queue))"
        and fresh: "t \<notin> tickets (bk_queue b queue)"
        using admit.enq_held [OF assms(1) [of queue]] admit.enq_fresh [OF assms(1) [of queue]] enq Inr by simp_all
      have room: "queue_snapshot (bk_queue b queue) \<noteq> (4, 16)" using full Inr by simp
      show ?thesis
      proof (cases "hm_get (bk_pending b) (socket, rq_request_id request)")
        case None
        then show ?thesis
          using run queue enq Inr Some held fresh room
          by (auto simp: route queue_enter_def invoke_admit_def pending_admit_def Let_def settle_def drop_tickets_def
              hm_insert_fresh from_secs_def limit_defs pending_contains_def)
      next
        case dup: (Some p)
        have "tickets (fst (queue_release (\<lambda>i. alive (queue, i)) t inner)) = tickets (bk_queue b queue)"
          using admit.enq_rel [OF assms(1,2) [of queue], of t "\<lambda>i. alive (queue, i)"] enq Inr assms(3) by simp
        then show ?thesis
          using run queue enq Inr dup room Some
          by (auto simp: route queue_enter_def invoke_admit_def pending_admit_def Let_def settle_def drop_ticket_one
              pending_contains_def split: if_splits)
      qed
    qed
  qed
qed

definition one_session :: registry where
  "one_session = fst (registry_insert 0
     (session_from_hello 0
        \<lparr>h_protocol_version = ''4'', h_connection_id = ''c'', h_display_name = ''d'', h_file_key = None,
         h_file_name = ''f'', h_current_page = \<lparr>ps_id = ''0:1'', ps_name = ''p''\<rparr>,
         h_editor_type = ''figma'', h_plugin_version = ''1'',
         h_capabilities = \<lparr>cap_annotations = False, cap_dev_resources = False, cap_motion = False,
           cap_svg_string_export = False, cap_variable_code_syntax = False\<rparr>\<rparr> 7 0 7)
     (registry_new 0))"

definition one_plugin :: "(bool, bool) broker" where
  "one_plugin = (broker_new config_production 0)
     \<lparr>bk_registry := one_session, bk_queues := [(7, 7)], bk_outbound := (\<lambda>_. mpsc_new 16)\<rparr>"

definition request_r :: "bool request" where
  "request_r = \<lparr>rq_request_id = ''r'', rq_deadline_ms = 9, rq_target = None, rq_operation = True\<rparr>"

lemmas one_plugin_defs = one_plugin_def one_session_def registry_insert_def registry_new_def Let_def
  session_from_hello_def broker_new_def

theorem invoke_all_or_nothing_witness:
  "\<exists>b' call p. broker_invoke (\<lambda>_. True) 10 0 0 ''c'' request_r one_plugin = (b', Inr call) \<and>
     bk_pending b' = [((7, ''r''), p)] \<and> pr_total_deadline p = 120010 \<and> oc_total_deadline call = 120010"
proof -
  obtain b' call where invoke:
    "broker_invoke (\<lambda>_. True) 10 0 0 ''c'' request_r one_plugin = (b', Inr call)"
    by (simp add: broker_invoke_def invoke_route_def route_for_def one_plugin_defs invoke_enqueue_def
        invoke_queue_def queue_enter_def try_enqueue_def queue_new_def limit_defs invoke_admit_def pending_admit_def)
  have "queue_inv (bk_queue one_plugin q)" "next_id (bk_queue one_plugin q) \<noteq> - 1" for q
    by (simp_all add: one_plugin_def broker_new_def) (simp add: queue_new_def)
  from invoke_all_or_nothing [OF this _ invoke] show ?thesis
    using invoke
    by (auto simp: route_for_def one_plugin_defs request_r_def pending_contains_def queue_snapshot_def queue_new_def)
qed

text \<open>
  \<open>cancel\<close> reaches exactly the request it names, on the socket its connection has now. It says
  whether that request was pending; if so the request is gone, its caller is told \<open>CANCELLED\<close>, the
  plugin's channel gets a cancel message unless it is full or closed, and every other request stays.
\<close>

theorem cancel_exact:
  assumes "keyed_ok (bk_pending b)"
    and "route_for connection_id (bk_registry b) = Some (socket, outbound)"
    and "broker_cancel alive connection_id r b = (b', found)"
  shows "(found \<longleftrightarrow> pending_contains socket r (bk_pending b)) \<and>
    hm_get (bk_pending b') = (hm_get (bk_pending b))((socket, r) := None) \<and>
    bk_results b' = bk_results b @
      (case hm_get (bk_pending b) (socket, r) of None \<Rightarrow> []
       | Some p \<Rightarrow> [(pr_sender p, Inl (tool_error_new Cancelled False))]) \<and>
    bk_outbound b' = (if found
      then (bk_outbound b)(outbound := fst (mpsc_try_send (BCancel r) (bk_outbound b outbound)))
      else bk_outbound b)"
proof (cases "hm_get (bk_pending b) (socket, r)")
  case None
  then have "hm_get (bk_pending b) = (hm_get (bk_pending b))((socket, r) := None)" by auto
  then show ?thesis
    using assms(2,3) None
    by (auto simp: broker_cancel_def cancel_routed_def cancel_pending_def pending_cancel_def pending_complete_def
        pending_contains_def)
next
  case (Some p)
  have gone: "hm_get (hm_remove (socket, r) (bk_pending b)) = (hm_get (bk_pending b))((socket, r) := None)"
    using assms(1) hash.get_del [of "bk_pending b" "(socket, r)"]
    unfolding keyed_ok_def by blast
  show ?thesis
    using assms(2,3) Some gone
    by (auto simp: broker_cancel_def cancel_routed_def cancel_pending_def pending_cancel_def pending_complete_def
        pending_contains_def try_send_cancel_def simp del: map_of_eq_Some_iff)
qed

theorem cancel_exact_witness:
  "\<exists>b'. broker_cancel (\<lambda>_. True) ''c'' ''r''
      (one_plugin\<lparr>bk_pending := [((7, ''r''),
         \<lparr>pr_socket = 7, pr_request = ''r'', pr_started_at = 0, pr_total_deadline = 9,
          pr_inactivity_deadline = 9, pr_sender = 3, pr_progress = None, pr_ticket = None\<rparr>)]\<rparr>) = (b', True) \<and>
     bk_results b' = [(3, Inl (tool_error_new Cancelled False))] \<and>
     ch_queue (bk_outbound b' 7) = [BCancel ''r'']"
proof -
  let ?b = "one_plugin\<lparr>bk_pending := [((7, ''r''),
         \<lparr>pr_socket = 7, pr_request = ''r'', pr_started_at = 0, pr_total_deadline = 9,
          pr_inactivity_deadline = 9, pr_sender = 3, pr_progress = None, pr_ticket = None\<rparr>)]\<rparr>"
  obtain b' found where *: "broker_cancel (\<lambda>_. True) ''c'' ''r'' ?b = (b', found)" by fastforce
  have "keyed_ok (bk_pending ?b)" by (simp add: keyed_ok_def)
  moreover have "route_for ''c'' (bk_registry ?b) = Some (7, 7)"
    by (simp add: route_for_def one_plugin_defs)
  ultimately show ?thesis
    using cancel_exact [OF _ _ *] *
    by (auto simp: pending_contains_def one_plugin_def broker_new_def mpsc_try_send_def mpsc_new_def)
qed

text \<open>
  C35. Resolving the connection of a call: a named one is found exactly when it is live; an unnamed
  one exactly when one session is live, and otherwise the error says whether there is none, which is
  worth retrying, or several.
\<close>

theorem resolve_connection_outcome:
  assumes "registry_inv (bk_registry b)"
  shows "resolve_connection (Some c) b =
      (if hm_contains (sessions (bk_registry b)) c then Inr c
       else Inl (tool_error_new ConnectionNotFound False)) \<and>
    resolve_connection None b =
      (if live_file_count b = 0 then Inl (tool_error_new NoFigmaConnection True)
       else if live_file_count b = 1 then Inr (fst (hd (sessions (bk_registry b))))
       else Inl (tool_error_new AmbiguousConnection False))"
proof -
  let ?s = "sessions (bk_registry b)"
  have id: "s_connection_id s = c'" if "hm_get ?s c' = Some s" for c' s
    using assms that by (simp add: registry_inv_def inverse_maps_def del: map_of_eq_Some_iff)
  have n: "live_file_count b = length ?s" by (simp add: live_file_count_def registry_list_files_def)
  have "resolve_connection (Some c) b = (if hm_contains ?s c then Inr c
      else Inl (tool_error_new ConnectionNotFound False))"
    using id [of c] by (auto simp: resolve_connection_def registry_select_def split: option.split)
  moreover have "resolve_connection None b =
      (if length ?s = 0 then Inl (tool_error_new NoFigmaConnection True)
       else if length ?s = 1 then Inr (fst (hd ?s)) else Inl (tool_error_new AmbiguousConnection False))"
  proof (cases "map snd ?s" rule: remdups_adj.cases)
    case (2 s)
    then obtain c' where "?s = [(c', s)]" by auto
    then show ?thesis using id [of c' s] by (simp add: resolve_connection_def registry_select_def)
  next
    case (3 s s' rest)
    then have "length ?s = length (s # s' # rest)" by (metis length_map)
    then show ?thesis using 3 by (simp add: resolve_connection_def registry_select_def)
  qed (simp add: resolve_connection_def registry_select_def)
  ultimately show ?thesis unfolding n by simp
qed

theorem resolve_connection_outcome_witness:
  "resolve_connection None one_plugin = Inr ''c'' \<and>
   resolve_connection (Some ''x'') one_plugin = Inl (tool_error_new ConnectionNotFound False)"
proof -
  have inv: "registry_inv (bk_registry one_plugin)"
    using registry_insert_inv [OF registry_new_inv] by (simp add: one_plugin_def one_session_def)
  have "sessions (bk_registry one_plugin) = [(''c'', the (hm_get (sessions (bk_registry one_plugin)) ''c''))]"
    by (simp add: one_plugin_defs)
  then obtain s where s: "sessions (bk_registry one_plugin) = [(''c'', s)]" by blast
  then have "live_file_count one_plugin = 1"
    by (simp add: live_file_count_def registry_list_files_def)
  then show ?thesis
    using resolve_connection_outcome [OF inv, of "''x''"] by (simp add: s)
qed

end
