(* ===== verification/Frames.thy ===== *)
theory Frames
  imports Wire
begin

text \<open>
  The messages between a front end and the elected leader, and the bounded length framing they
  travel in (\<open>crates/protocol/src/rpc.rs\<close>). The JSON serializer and parser are arguments of the
  framing: a serializer is the sequence of buffers it writes and whether it then succeeds, a parser
  a partial function on bytes. The payloads of calls and results are arguments as in \<open>Wire\<close>.
\<close>

section \<open>Messages\<close>

definition FRONTEND_PROTOCOL_VERSION :: string where
  "FRONTEND_PROTOCOL_VERSION = ''1''"

record frontend_hello =
  fh_protocol_version :: string
  fh_frontend_id :: string

datatype frontend_handshake = HandshakeReady | HandshakeRejected tool_error

datatype 'i frontend_to_leader = FRequest string "'i broker_call" | FCancel string

record rpc_progress =
  rp_completed :: u32
  rp_total :: "u32 option"
  rp_message :: "string option"

datatype ('f, 'r) leader_to_frontend =
    LProgress string rpc_progress
  | LResponse string "('f, 'r) broker_result"
  | LError string tool_error

section \<open>Encoders\<close>

definition enc_frontend_hello :: "frontend_hello \<Rightarrow> json" where
  "enc_frontend_hello h =
     js_obj [(''protocolVersion'', js_str (fh_protocol_version h)),
             (''frontendId'', js_str (fh_frontend_id h))]"

fun enc_handshake :: "frontend_handshake \<Rightarrow> json" where
  "enc_handshake HandshakeReady = js_obj [(''type'', js_str ''ready'')]"
| "enc_handshake (HandshakeRejected e) =
     js_obj [(''type'', js_str ''rejected''), (''error'', enc_tool_error e)]"

definition js_u32 :: "u32 \<Rightarrow> json" where
  "js_u32 n = js_uint (ucast n)"

definition enc_rpc_progress :: "rpc_progress \<Rightarrow> json" where
  "enc_rpc_progress p =
     js_obj ((''completed'', js_u32 (rp_completed p)) #
       enc_opt ''total'' js_u32 (rp_total p) @ enc_opt ''message'' js_str (rp_message p))"

text \<open>The serializers of operations and results are arguments; they may fail.\<close>

fun enc_broker_call :: "('i \<Rightarrow> json option) \<Rightarrow> 'i broker_call \<Rightarrow> json option" where
  "enc_broker_call ei ListFiles = Some (js_obj [(''call'', js_str ''listFiles'')])"
| "enc_broker_call ei (Invoke connection_id i) =
     do { operation \<leftarrow> ei i;
          Some (js_obj ([(''call'', js_str ''invoke'')] @
            enc_opt ''connectionId'' js_str connection_id @
            [(''invocation'', js_obj [(''operation'', operation)])])) }"

fun enc_broker_result ::
    "('f \<Rightarrow> json option) \<Rightarrow> ('r \<Rightarrow> json option) \<Rightarrow> ('f, 'r) broker_result \<Rightarrow> json option" where
  "enc_broker_result ef er (Files f) =
     do { j \<leftarrow> ef f; Some (js_obj [(''kind'', js_str ''files''), (''result'', j)]) }"
| "enc_broker_result ef er (Invocation r) =
     do { j \<leftarrow> er r; Some (js_obj [(''kind'', js_str ''invocation''), (''result'', j)]) }"

fun enc_frontend_to_leader :: "('i \<Rightarrow> json option) \<Rightarrow> 'i frontend_to_leader \<Rightarrow> json option" where
  "enc_frontend_to_leader ei (FRequest i call) =
     do { c \<leftarrow> enc_broker_call ei call;
          Some (js_obj [(''type'', js_str ''request''), (''rpcRequestId'', js_str i), (''call'', c)]) }"
| "enc_frontend_to_leader ei (FCancel i) =
     Some (js_obj [(''type'', js_str ''cancel''), (''rpcRequestId'', js_str i)])"

fun enc_leader_to_frontend ::
    "('f \<Rightarrow> json option) \<Rightarrow> ('r \<Rightarrow> json option) \<Rightarrow> ('f, 'r) leader_to_frontend \<Rightarrow> json option" where
  "enc_leader_to_frontend ef er (LProgress i p) =
     Some (js_obj [(''type'', js_str ''progress''), (''rpcRequestId'', js_str i),
                   (''progress'', enc_rpc_progress p)])"
| "enc_leader_to_frontend ef er (LResponse i r) =
     do { j \<leftarrow> enc_broker_result ef er r;
          Some (js_obj [(''type'', js_str ''response''), (''rpcRequestId'', js_str i),
                        (''result'', j)]) }"
| "enc_leader_to_frontend ef er (LError i e) =
     Some (js_obj [(''type'', js_str ''error''), (''rpcRequestId'', js_str i),
                   (''error'', enc_tool_error e)])"

section \<open>Decoders\<close>

definition dec_rpc_request_id :: "json \<Rightarrow> string option" where
  "dec_rpc_request_id = bounded_deserialize REQUEST_ID"

definition dec_frontend_hello :: "json \<Rightarrow> frontend_hello option" where
  "dec_frontend_hello j =
     do { m \<leftarrow> struct_fields [(''protocolVersion'', False), (''frontendId'', False)] j;
          v \<leftarrow> field_req m ''protocolVersion'' (bounded_deserialize PROTOCOL_VERSION);
          i \<leftarrow> field_req m ''frontendId'' dec_rpc_request_id;
          Some \<lparr>fh_protocol_version = v, fh_frontend_id = i\<rparr> }"

text \<open>
  The derived decoder of an internally tagged enum: the tag wherever it stands, or first in the
  positional form. A unit variant ignores the other fields of an object.
\<close>

definition handshake_variant :: "string \<Rightarrow> bool \<Rightarrow> json \<Rightarrow> frontend_handshake option" where
  "handshake_variant tag positional rest =
     (if tag = ''ready'' then
        if positional \<and> body rest \<noteq> JArr [] then None else Some HandshakeReady
      else if tag = ''rejected'' then
        do { m \<leftarrow> struct_fields [(''error'', False)] rest;
             map_option HandshakeRejected (field_req m ''error'' dec_tool_error) }
      else None)"

definition dec_handshake :: "json \<Rightarrow> frontend_handshake option" where
  "dec_handshake j = (case body j of
     JObj kvs \<Rightarrow>
       (case filter (\<lambda>(k, v). k = ''type'') kvs of
          [(k, v)] \<Rightarrow>
            do { tag \<leftarrow> dec_str v;
                 handshake_variant tag False
                   (Json (src_len j) (JObj (filter (\<lambda>(k, v). k \<noteq> ''type'') kvs))) }
        | _ \<Rightarrow> None)
   | JArr (v # vs) \<Rightarrow>
       do { tag \<leftarrow> dec_str v; handshake_variant tag True (Json (src_len j) (JArr vs)) }
   | _ \<Rightarrow> None)"

definition dec_rpc_progress :: "json \<Rightarrow> rpc_progress option" where
  "dec_rpc_progress j =
     do { m \<leftarrow> struct_fields [(''completed'', False), (''total'', True), (''message'', True)] j;
          completed \<leftarrow> field_req m ''completed'' dec_u32;
          total \<leftarrow> field_opt m ''total'' dec_u32;
          message \<leftarrow> field_opt m ''message'' (bounded_deserialize DISPLAY_TEXT);
          Some \<lparr>rp_completed = completed, rp_total = total, rp_message = message\<rparr> }"

datatype frontend_tag = TagRequest | TagCancel

definition dec_frontend_tag :: "json \<Rightarrow> frontend_tag option" where
  "dec_frontend_tag = dec_unit_enum [(''request'', TagRequest), (''cancel'', TagCancel)]"

text \<open>\<open>replace(...).is_some()\<close>: the value is decoded first, then a second occurrence is an error.\<close>

definition replaced :: "(json \<Rightarrow> 'a option) \<Rightarrow> json \<Rightarrow> 'a option \<Rightarrow> 'a option option" where
  "replaced d v old = do { a \<leftarrow> d v; if old \<noteq> None then None else Some (Some a) }"

fun frontend_visit ::
    "(json \<Rightarrow> 'c option) \<Rightarrow> (string \<times> json) list \<Rightarrow> frontend_tag option \<times> string option \<times> 'c option
      \<Rightarrow> (frontend_tag option \<times> string option \<times> 'c option) option" where
  "frontend_visit dc [] acc = Some acc"
| "frontend_visit dc ((field, v) # kvs) (tag, i, call) =
     (if field = ''type'' then
        do { tag \<leftarrow> replaced dec_frontend_tag v tag; frontend_visit dc kvs (tag, i, call) }
      else if field = ''rpcRequestId'' then
        do { i \<leftarrow> replaced dec_rpc_request_id v i; frontend_visit dc kvs (tag, i, call) }
      else if field = ''call'' then
        do { call \<leftarrow> replaced dc v call; frontend_visit dc kvs (tag, i, call) }
      else None)"

definition dec_frontend_to_leader ::
    "(json \<Rightarrow> 'i broker_call option) \<Rightarrow> json \<Rightarrow> 'i frontend_to_leader option" where
  "dec_frontend_to_leader dc j = (case body j of
     JObj kvs \<Rightarrow>
       do { (tag, rpc_request_id, call) \<leftarrow> frontend_visit dc kvs (None, None, None);
            i \<leftarrow> rpc_request_id;
            t \<leftarrow> tag;
            case t of
              TagRequest \<Rightarrow> map_option (FRequest i) call
            | TagCancel \<Rightarrow> if call \<noteq> None then None else Some (FCancel i) }
   | _ \<Rightarrow> None)"

datatype leader_tag = TagProgress | TagResponse | TagError

definition dec_leader_tag :: "json \<Rightarrow> leader_tag option" where
  "dec_leader_tag = dec_unit_enum
     [(''progress'', TagProgress), (''response'', TagResponse), (''error'', TagError)]"

fun leader_visit ::
    "(json \<Rightarrow> 'b option) \<Rightarrow> (string \<times> json) list
      \<Rightarrow> leader_tag option \<times> string option \<times> rpc_progress option \<times> 'b option \<times> tool_error option
      \<Rightarrow> (leader_tag option \<times> string option \<times> rpc_progress option \<times> 'b option \<times> tool_error option) option"
  where
  "leader_visit db [] acc = Some acc"
| "leader_visit db ((field, v) # kvs) (tag, i, progress, result, error) =
     (if field = ''type'' then
        do { tag \<leftarrow> replaced dec_leader_tag v tag;
             leader_visit db kvs (tag, i, progress, result, error) }
      else if field = ''rpcRequestId'' then
        do { i \<leftarrow> replaced dec_rpc_request_id v i;
             leader_visit db kvs (tag, i, progress, result, error) }
      else if field = ''progress'' then
        do { progress \<leftarrow> replaced dec_rpc_progress v progress;
             leader_visit db kvs (tag, i, progress, result, error) }
      else if field = ''result'' then
        do { result \<leftarrow> replaced db v result;
             leader_visit db kvs (tag, i, progress, result, error) }
      else if field = ''error'' then
        do { error \<leftarrow> replaced dec_tool_error v error;
             leader_visit db kvs (tag, i, progress, result, error) }
      else None)"

definition reject_leader_fields :: "'b option \<Rightarrow> tool_error option \<Rightarrow> unit option" where
  "reject_leader_fields result error = (if result \<noteq> None \<or> error \<noteq> None then None else Some ())"

definition dec_leader_to_frontend ::
    "(json \<Rightarrow> ('f, 'r) broker_result option) \<Rightarrow> json \<Rightarrow> ('f, 'r) leader_to_frontend option" where
  "dec_leader_to_frontend db j = (case body j of
     JObj kvs \<Rightarrow>
       do { (tag, rpc_request_id, progress, result, error) \<leftarrow>
              leader_visit db kvs (None, None, None, None, None);
            i \<leftarrow> rpc_request_id;
            t \<leftarrow> tag;
            case t of
              TagProgress \<Rightarrow>
                do { _ \<leftarrow> reject_leader_fields result error; map_option (LProgress i) progress }
            | TagResponse \<Rightarrow>
                if progress \<noteq> None \<or> error \<noteq> None then None else map_option (LResponse i) result
            | TagError \<Rightarrow>
                if progress \<noteq> None \<or> result \<noteq> None then None else map_option (LError i) error }
   | _ \<Rightarrow> None)"

section \<open>Framing\<close>

unbundle bit_operations_syntax

datatype frame_error =
    FrameTooLarge nat nat
  | FrameLengthOverflow nat
  | FrameLengthMismatch nat nat
  | FrameIo
  | FrameJson

text \<open>A writer that takes a buffer whole or fails, remembering that it did.\<close>

record capped_writer =
  cw_bytes :: "u8 list"
  cw_maximum :: nat
  cw_exceeded :: bool

definition capped_new :: "nat \<Rightarrow> capped_writer" where
  "capped_new maximum = \<lparr>cw_bytes = [], cw_maximum = maximum, cw_exceeded = False\<rparr>"

definition capped_write :: "u8 list \<Rightarrow> capped_writer \<Rightarrow> capped_writer \<times> nat option" where
  "capped_write buffer w =
     (let remaining = cw_maximum w - length (cw_bytes w) in
      if length buffer > remaining then (w\<lparr>cw_exceeded := True\<rparr>, None)
      else (w\<lparr>cw_bytes := cw_bytes w @ buffer\<rparr>, Some (length buffer)))"

text \<open>
  \<open>serde_json::to_writer\<close>: every buffer is written with \<open>write_all\<close>, which writes nothing for an
  empty one; the first failed write ends the serialization. The result says whether it succeeded.
\<close>

type_synonym serialized = "u8 list list \<times> bool"

fun to_writer :: "serialized \<Rightarrow> capped_writer \<Rightarrow> capped_writer \<times> bool" where
  "to_writer ([], ok) w = (w, ok)"
| "to_writer (buffer # buffers, ok) w =
     (if buffer = [] then to_writer (buffers, ok) w
      else case capped_write buffer w of
        (w, None) \<Rightarrow> (w, False)
      | (w, Some n) \<Rightarrow> to_writer (buffers, ok) w)"

definition to_be_bytes :: "u32 \<Rightarrow> u8 list" where
  "to_be_bytes n =
     [ucast (drop_bit 24 n), ucast (drop_bit 16 n), ucast (drop_bit 8 n), ucast n]"

definition from_be_bytes :: "u8 list \<Rightarrow> u32" where
  "from_be_bytes bs = foldl (\<lambda>n b. push_bit 8 n OR ucast b) 0 bs"

definition encode_frame_with_maximum :: "serialized \<Rightarrow> nat \<Rightarrow> frame_error + u8 list" where
  "encode_frame_with_maximum value maximum =
     (case to_writer value (capped_new maximum) of
        (writer, False) \<Rightarrow>
          if cw_exceeded writer then Inl (FrameTooLarge (min (maximum + 1) (2 ^ 64 - 1)) maximum)
          else Inl FrameJson
      | (writer, True) \<Rightarrow>
          (let bytes = cw_bytes writer in
           if length bytes < 2 ^ 32 then Inr (to_be_bytes (of_nat (length bytes)) @ bytes)
           else Inl (FrameLengthOverflow (length bytes))))"

definition encode_frame :: "serialized \<Rightarrow> frame_error + u8 list" where
  "encode_frame value = encode_frame_with_maximum value MAX_ENVELOPE_BYTES"

definition validate_body_length :: "nat \<Rightarrow> frame_error + unit" where
  "validate_body_length n =
     (if n > MAX_ENVELOPE_BYTES then Inl (FrameTooLarge n MAX_ENVELOPE_BYTES) else Inr ())"

definition decode_frame :: "(u8 list \<Rightarrow> 'a option) \<Rightarrow> u8 list \<Rightarrow> frame_error + 'a" where
  "decode_frame parse f =
     (if length f < 4 then Inl (FrameLengthMismatch 4 (length f))
      else
        (let declared = unat (from_be_bytes (take 4 f)) in
         and_then (validate_body_length declared) (\<lambda>_.
           let bytes = drop 4 f in
           if length bytes \<noteq> declared then Inl (FrameLengthMismatch declared (length bytes))
           else ok_or FrameJson (parse bytes))))"

text \<open>
  Reading from a stream: \<open>read_exact\<close> fails when the stream is too short, having consumed it. The
  result carries what is left of the stream and the size of the buffer allocated for the body.
\<close>

definition read_exact :: "nat \<Rightarrow> u8 list \<Rightarrow> u8 list \<times> u8 list option" where
  "read_exact n reader =
     (if length reader < n then ([], None) else (drop n reader, Some (take n reader)))"

definition read_frame ::
    "(u8 list \<Rightarrow> 'a option) \<Rightarrow> u8 list \<Rightarrow> u8 list \<times> nat \<times> (frame_error + 'a)" where
  "read_frame parse reader =
     (case read_exact 4 reader of
        (reader, None) \<Rightarrow> (reader, 0, Inl FrameIo)
      | (reader, Some prefix) \<Rightarrow>
          (let declared = unat (from_be_bytes prefix) in
           case validate_body_length declared of
             Inl e \<Rightarrow> (reader, 0, Inl e)
           | Inr _ \<Rightarrow>
               (case read_exact declared reader of
                  (reader, None) \<Rightarrow> (reader, declared, Inl FrameIo)
                | (reader, Some bytes) \<Rightarrow> (reader, declared, ok_or FrameJson (parse bytes)))))"

definition write_frame :: "serialized \<Rightarrow> u8 list \<Rightarrow> u8 list \<times> (frame_error + unit)" where
  "write_frame value written =
     (case encode_frame value of
        Inl e \<Rightarrow> (written, Inl e)
      | Inr f \<Rightarrow> (written @ f, Inr ()))"

section \<open>Properties of the framing\<close>

lemma from_to_be_bytes: "from_be_bytes (to_be_bytes n) = n"
proof -
  let ?byte = "\<lambda>k. ucast (ucast (drop_bit k n :: u32) :: u8) :: u32"
  have "from_be_bytes (to_be_bytes n) =
      push_bit 24 (?byte 24) OR (push_bit 16 (?byte 16) OR (push_bit 8 (?byte 8) OR ?byte 0))"
    by (simp add: from_be_bytes_def to_be_bytes_def or.assoc)
  also have "\<dots> = n"
  proof (rule bit_word_eqI)
    fix i
    assume i: "i < LENGTH(32)"
    then consider "i < 8" | "8 \<le> i" "i < 16" | "16 \<le> i" "i < 24" | "24 \<le> i" by linarith
    then show "bit (push_bit 24 (?byte 24) OR (push_bit 16 (?byte 16) OR
        (push_bit 8 (?byte 8) OR ?byte 0))) i = bit n i"
      using i by cases (auto simp: bit_or_iff bit_push_bit_iff bit_unsigned_iff bit_drop_bit_eq)
  qed
  finally show ?thesis .
qed

lemma be_bytes [simp]: "length (to_be_bytes n) = 4" "from_be_bytes (to_be_bytes n) = n"
  by (simp add: to_be_bytes_def) (rule from_to_be_bytes)

lemma to_writer_fits:
  "length (cw_bytes w) + length (concat bs) \<le> cw_maximum w \<Longrightarrow>
     to_writer (bs, ok) w = (w\<lparr>cw_bytes := cw_bytes w @ concat bs\<rparr>, ok)"
  by (induction bs arbitrary: w) (auto simp: capped_write_def Let_def)

lemma to_writer_exceeds:
  "length (cw_bytes w) \<le> cw_maximum w \<Longrightarrow> cw_maximum w < length (cw_bytes w) + length (concat bs) \<Longrightarrow>
     \<exists>w'. to_writer (bs, ok) w = (w', False) \<and> cw_exceeded w' \<and> length (cw_bytes w') \<le> cw_maximum w"
proof (induction bs arbitrary: w)
  case (Cons b bs)
  show ?case
  proof (cases "length b > cw_maximum w - length (cw_bytes w)")
    case True
    then show ?thesis using Cons.prems(1) by (auto simp: capped_write_def Let_def)
  next
    case False
    then show ?thesis
      using Cons.IH [of w] Cons.IH [of "w\<lparr>cw_bytes := cw_bytes w @ b\<rparr>"] Cons.prems
      by (auto simp: capped_write_def Let_def)
  qed
qed simp

text \<open>
  C33. Encoding is exact, however the serializer cuts its output into buffers: a body within the
  envelope gets its own length as prefix, a longer one is refused with the length that was reached
  first, and whatever happens no more than the envelope is ever buffered. The length always fits
  the prefix.
\<close>

theorem encode_frame_exact:
  "encode_frame (buffers, ok) =
     (if length (concat buffers) > MAX_ENVELOPE_BYTES
      then Inl (FrameTooLarge (MAX_ENVELOPE_BYTES + 1) MAX_ENVELOPE_BYTES)
      else if ok then Inr (to_be_bytes (of_nat (length (concat buffers))) @ concat buffers)
      else Inl FrameJson) \<and>
   length (cw_bytes (fst (to_writer (buffers, ok) (capped_new MAX_ENVELOPE_BYTES)))) \<le> MAX_ENVELOPE_BYTES"
proof (cases "length (concat buffers) > MAX_ENVELOPE_BYTES")
  case True
  then obtain w' where "to_writer (buffers, ok) (capped_new MAX_ENVELOPE_BYTES) = (w', False)"
    "cw_exceeded w'" "length (cw_bytes w') \<le> MAX_ENVELOPE_BYTES"
    using to_writer_exceeds [of "capped_new MAX_ENVELOPE_BYTES" buffers ok]
    by (auto simp: capped_new_def)
  then show ?thesis
    using True by (simp add: encode_frame_def encode_frame_with_maximum_def limit_defs)
next
  case False
  then have "to_writer (buffers, ok) (capped_new MAX_ENVELOPE_BYTES) =
      (\<lparr>cw_bytes = concat buffers, cw_maximum = MAX_ENVELOPE_BYTES, cw_exceeded = False\<rparr>, ok)"
    by (subst to_writer_fits) (simp_all add: capped_new_def)
  then show ?thesis
    using False
    by (auto simp: encode_frame_def encode_frame_with_maximum_def Let_def limit_defs)
qed

lemma encode_frame_Inr:
  "encode_frame (buffers, True) = Inr f \<longleftrightarrow>
     length (concat buffers) \<le> MAX_ENVELOPE_BYTES \<and>
     f = to_be_bytes (of_nat (length (concat buffers))) @ concat buffers"
  using encode_frame_exact [of buffers True] by auto

text \<open>
  Reading a frame from a stream is decoding the bytes it takes from it: it succeeds exactly when
  some prefix of the stream decodes as a whole frame, it leaves the rest, and it never allocates more
  than the envelope for a body, whatever length the prefix declares.
\<close>

theorem read_frame_decodes:
  "((\<exists>n. read_frame parse reader = (left, n, Inr v)) \<longleftrightarrow>
      (\<exists>f. reader = f @ left \<and> decode_frame parse f = Inr v)) \<and>
   fst (snd (read_frame parse reader)) \<le> MAX_ENVELOPE_BYTES"
proof -
  let ?n = "unat (from_be_bytes (take 4 reader))"
  have read: "read_frame parse reader = (left, n, Inr v) \<longleftrightarrow>
      4 \<le> length reader \<and> ?n \<le> MAX_ENVELOPE_BYTES \<and> 4 + ?n \<le> length reader \<and> n = ?n \<and>
      left = drop (4 + ?n) reader \<and> parse (take ?n (drop 4 reader)) = Some v" for n
    by (auto simp: read_frame_def read_exact_def validate_body_length_def Let_def add.commute
        split: if_splits)
  have decode: "decode_frame parse f = Inr v \<longleftrightarrow>
      4 \<le> length f \<and> unat (from_be_bytes (take 4 f)) \<le> MAX_ENVELOPE_BYTES \<and>
      length f = 4 + unat (from_be_bytes (take 4 f)) \<and> parse (drop 4 f) = Some v" for f
    by (auto simp: decode_frame_def validate_body_length_def Let_def)
  have "(\<exists>n. read_frame parse reader = (left, n, Inr v)) \<longleftrightarrow>
      (\<exists>f. reader = f @ left \<and> decode_frame parse f = Inr v)"
  proof
    assume "\<exists>n. read_frame parse reader = (left, n, Inr v)"
    then have "reader = take (4 + ?n) reader @ left \<and> decode_frame parse (take (4 + ?n) reader) = Inr v"
      unfolding read decode by (auto simp: drop_take min_def)
    then show "\<exists>f. reader = f @ left \<and> decode_frame parse f = Inr v" by blast
  next
    assume "\<exists>f. reader = f @ left \<and> decode_frame parse f = Inr v"
    then show "\<exists>n. read_frame parse reader = (left, n, Inr v)"
      unfolding read decode by auto
  qed
  moreover have "fst (snd (read_frame parse reader)) \<le> MAX_ENVELOPE_BYTES"
    by (auto simp: read_frame_def read_exact_def validate_body_length_def Let_def)
  ultimately show ?thesis by blast
qed

text \<open>Reading several frames from one stream, one after the other.\<close>

fun read_frames :: "(u8 list \<Rightarrow> 'a option) \<Rightarrow> nat \<Rightarrow> u8 list \<Rightarrow> u8 list \<times> (frame_error + 'a) list" where
  "read_frames parse 0 reader = (reader, [])"
| "read_frames parse (Suc n) reader =
     (case read_frame parse reader of
        (reader, _, r) \<Rightarrow> (case read_frames parse n reader of (reader, rs) \<Rightarrow> (reader, r # rs)))"

definition write_frames :: "serialized list \<Rightarrow> u8 list" where
  "write_frames values = fold (\<lambda>v written. fst (write_frame v written)) values []"

lemma write_frame_appends: "fst (write_frame v w) = w @ fst (write_frame v [])"
  by (auto simp: write_frame_def split: sum.split)

lemma write_frames_append: "fold (\<lambda>v written. fst (write_frame v written)) vs w = w @ write_frames vs"
proof (induction vs arbitrary: w)
  case (Cons v vs)
  have "fold (\<lambda>v written. fst (write_frame v written)) (v # vs) w = fst (write_frame v w) @ write_frames vs" for w
    by (simp add: Cons.IH)
  from this [of w] this [of "[]"] show ?case
    using write_frame_appends [of v w] by (simp add: write_frames_def)
qed (simp add: write_frames_def)

lemma write_frames_Cons: "write_frames (v # vs) = fst (write_frame v []) @ write_frames vs"
  by (subst write_frames_def) (simp add: write_frames_append)

text \<open>
  C32. Frames are delimited without ambiguity: messages written one after the other to a stream are
  read back in order, each whole, and what follows them is left, whatever bytes they hold.
\<close>

theorem frame_stream:
  assumes "\<forall>(value, v) \<in> set messages.
      snd value \<and> length (concat (fst value)) \<le> MAX_ENVELOPE_BYTES \<and> parse (concat (fst value)) = Some v"
  shows "read_frames parse (length messages) (write_frames (map fst messages) @ rest) =
    (rest, map (Inr \<circ> snd) messages)"
  using assms
proof (induction messages)
  case (Cons m messages)
  obtain buffers ok v where m: "m = ((buffers, ok), v)" by (metis surj_pair)
  let ?bytes = "concat buffers"
  have v: "ok" "length ?bytes \<le> MAX_ENVELOPE_BYTES" "parse ?bytes = Some v"
    using Cons.prems by (auto simp: m)
  let ?f = "to_be_bytes (of_nat (length ?bytes)) @ ?bytes"
  have "encode_frame (buffers, ok) = Inr ?f" using v encode_frame_Inr [of buffers ?f] by simp
  then have written: "fst (write_frame (buffers, ok) []) = ?f" by (simp add: write_frame_def)
  have "unat (of_nat (length ?bytes) :: u32) = length ?bytes"
    using v(2) by (simp add: limit_defs unat_of_nat take_bit_nat_eq_self)
  then have "read_frame parse (?f @ s) = (s, length ?bytes, Inr v)" for s
    using v by (simp add: read_frame_def read_exact_def validate_body_length_def Let_def)
  then have "read_frame parse (write_frames (map fst (m # messages)) @ rest) =
      (write_frames (map fst messages) @ rest, length ?bytes, Inr v)"
    by (simp add: m write_frames_Cons written)
  then show ?case using Cons.IH Cons.prems by (simp add: m)
qed (simp add: write_frames_def)

theorem frame_stream_witness:
  "read_frames Some 2 (write_frames [([[1], [], [2, 3]], True), ([], True)] @ [9]) =
     ([9], [Inr [1, 2, 3], Inr []])"
  using frame_stream [of "[(([[1], [], [2, 3]], True), [1, 2, 3]), (([], True), [])]" Some "[9]"]
  by (simp add: limit_defs numeral_2_eq_2)

section \<open>Properties of the messages\<close>

lemma img_fst: "(a, b) \<in> S \<Longrightarrow> a \<in> fst ` S"
  by force

text \<open>
  How a field of a closed visitor evolves: untouched if it does not occur, and set once, from
  nothing, if it does.
\<close>

definition slot ::
    "(json \<Rightarrow> 'a option) \<Rightarrow> string \<Rightarrow> (string \<times> json) list \<Rightarrow> 'a option \<Rightarrow> 'a option \<Rightarrow> bool" where
  "slot d f kvs old new \<longleftrightarrow> (case map_of kvs f of
     None \<Rightarrow> new = old
   | Some v \<Rightarrow> old = None \<and> (\<exists>a. d v = Some a \<and> new = Some a))"

lemma slot_simps [simp]:
  "slot d f [] old new \<longleftrightarrow> new = old"
  "slot d f ((f, v) # kvs) old new \<longleftrightarrow> old = None \<and> (\<exists>a. d v = Some a \<and> new = Some a)"
  "f \<noteq> k \<Longrightarrow> slot d f ((k, v) # kvs) old new \<longleftrightarrow> slot d f kvs old new"
  "slot d f kvs (Some a) new \<longleftrightarrow> f \<notin> fst ` set kvs \<and> new = Some a"
  by (auto simp: slot_def map_of_eq_None_iff intro: img_fst dest!: map_of_SomeD split: option.splits)

lemma slot_absent: "slot d f kvs None None \<longleftrightarrow> f \<notin> fst ` set kvs"
proof (cases "f \<in> fst ` set kvs")
  case True
  then obtain v where "map_of kvs f = Some v"
    by (cases "map_of kvs f") (simp_all add: map_of_eq_None_iff)
  then show ?thesis using True by (simp add: slot_def del: map_of_eq_Some_iff)
next
  case False
  then have "map_of kvs f = None" by (simp add: map_of_eq_None_iff)
  then show ?thesis using False unfolding slot_def by simp
qed

lemma slot_present: "slot d f kvs None (Some a) \<longleftrightarrow> Option.bind (map_of kvs f) d = Some a"
  by (cases "map_of kvs f") (auto simp: slot_def simp del: map_of_eq_Some_iff)

lemma slot_present_mem: "slot d f kvs None (Some a) \<Longrightarrow> f \<in> fst ` set kvs"
  by (auto simp: slot_def intro: img_fst dest: map_of_SomeD split: option.splits)

lemma replaced_Some [simp]:
  "replaced d v old = Some x \<longleftrightarrow> old = None \<and> (\<exists>a. d v = Some a \<and> x = Some a)"
  by (auto simp: replaced_def bind_eq_Some_conv)

lemma frontend_visit_Some:
  "frontend_visit dc kvs (tag, i, call) = Some (tag', i', call') \<longleftrightarrow>
     distinct (map fst kvs) \<and> set (map fst kvs) \<subseteq> {''type'', ''rpcRequestId'', ''call''} \<and>
     slot dec_frontend_tag ''type'' kvs tag tag' \<and> slot dec_rpc_request_id ''rpcRequestId'' kvs i i' \<and>
     slot dc ''call'' kvs call call'"
proof (induction kvs arbitrary: tag i call)
  case (Cons kv kvs)
  obtain k v where kv: "kv = (k, v)" by (cases kv)
  consider "k = ''type''" | "k = ''rpcRequestId''" | "k = ''call''"
    | "k \<notin> {''type'', ''rpcRequestId'', ''call''}" by blast
  then show ?case
    by cases (auto simp: kv Cons.IH bind_eq_Some_conv intro: img_fst)
qed auto

lemma leader_visit_Some:
  "leader_visit db kvs (tag, i, p, r, e) = Some (tag', i', p', r', e') \<longleftrightarrow>
     distinct (map fst kvs) \<and>
     set (map fst kvs) \<subseteq> {''type'', ''rpcRequestId'', ''progress'', ''result'', ''error''} \<and>
     slot dec_leader_tag ''type'' kvs tag tag' \<and> slot dec_rpc_request_id ''rpcRequestId'' kvs i i' \<and>
     slot dec_rpc_progress ''progress'' kvs p p' \<and> slot db ''result'' kvs r r' \<and>
     slot dec_tool_error ''error'' kvs e e'"
proof (induction kvs arbitrary: tag i p r e)
  case (Cons kv kvs)
  obtain k v where kv: "kv = (k, v)" by (cases kv)
  consider "k = ''type''" | "k = ''rpcRequestId''" | "k = ''progress''" | "k = ''result''" | "k = ''error''"
    | "k \<notin> {''type'', ''rpcRequestId'', ''progress'', ''result'', ''error''}" by blast
  then show ?case
    by cases (auto simp: kv Cons.IH bind_eq_Some_conv intro: img_fst)
qed auto

text \<open>The value of a field that must be there.\<close>

abbreviation field_is :: "(string \<times> json) list \<Rightarrow> string \<Rightarrow> (json \<Rightarrow> 'a option) \<Rightarrow> 'a \<Rightarrow> bool" where
  "field_is kvs f d a \<equiv> Option.bind (map_of kvs f) d = Some a"

lemma dec_frontend_Some:
  "dec_frontend_to_leader dc j = Some m \<longleftrightarrow>
     (\<exists>kvs. body j = JObj kvs \<and>
        frontend_visit dc kvs (None, None, None) = Some (case m of
          FRequest i call \<Rightarrow> (Some TagRequest, Some i, Some call)
        | FCancel i \<Rightarrow> (Some TagCancel, Some i, None)))"
proof (cases "body j")
  case (JObj kvs)
  show ?thesis
  proof (cases "frontend_visit dc kvs (None, None, None)")
    case (Some x)
    obtain t i c where "x = (t, i, c)" by (cases x)
    then show ?thesis
      using Some JObj by (cases t; cases i; cases c; cases m)
        (simp_all add: dec_frontend_to_leader_def split: frontend_tag.split)
  qed (simp add: JObj dec_frontend_to_leader_def)
qed (simp_all add: dec_frontend_to_leader_def)

lemma dec_leader_Some:
  "dec_leader_to_frontend db j = Some n \<longleftrightarrow>
     (\<exists>kvs. body j = JObj kvs \<and> leader_visit db kvs (None, None, None, None, None) =
        Some (case n of
          LProgress i p \<Rightarrow> (Some TagProgress, Some i, Some p, None, None)
        | LResponse i r \<Rightarrow> (Some TagResponse, Some i, None, Some r, None)
        | LError i e \<Rightarrow> (Some TagError, Some i, None, None, Some e)))"
proof (cases "body j")
  case (JObj kvs)
  show ?thesis
  proof (cases "leader_visit db kvs (None, None, None, None, None)")
    case (Some x)
    obtain t i p r e where "x = (t, i, p, r, e)" by (cases x)
    then show ?thesis
      using Some JObj by (cases t; cases i; cases p; cases r; cases e; cases n)
        (simp_all add: dec_leader_to_frontend_def reject_leader_fields_def split: leader_tag.split)
  qed (simp add: JObj dec_leader_to_frontend_def)
qed (simp_all add: dec_leader_to_frontend_def)

lemmas visit_slots = frontend_visit_Some leader_visit_Some slot_absent

text \<open>The fields present are exactly those of the kind.\<close>

lemma exact_fields:
  assumes "P \<Longrightarrow> a \<in> K" and "Q \<Longrightarrow> b \<in> K" and "R \<Longrightarrow> c \<in> K"
  shows "K \<subseteq> {a, b, c} \<and> P \<and> Q \<and> R \<longleftrightarrow> K = {a, b, c} \<and> P \<and> Q \<and> R"
    and "c \<notin> {a, b} \<Longrightarrow> K \<subseteq> {a, b, c} \<and> P \<and> Q \<and> c \<notin> K \<longleftrightarrow> K = {a, b} \<and> P \<and> Q"
    and "d \<notin> {a, b, c} \<Longrightarrow> e \<notin> {a, b, c} \<Longrightarrow>
      K \<subseteq> {a, b, c, d, e} \<and> P \<and> Q \<and> R \<and> d \<notin> K \<and> e \<notin> K \<longleftrightarrow> K = {a, b, c} \<and> P \<and> Q \<and> R"
    and "d \<notin> {a, b, c} \<Longrightarrow> e \<notin> {a, b, c} \<Longrightarrow>
      K \<subseteq> {a, b, d, c, e} \<and> P \<and> Q \<and> d \<notin> K \<and> R \<and> e \<notin> K \<longleftrightarrow> K = {a, b, c} \<and> P \<and> Q \<and> R"
    and "d \<notin> {a, b, c} \<Longrightarrow> e \<notin> {a, b, c} \<Longrightarrow>
      K \<subseteq> {a, b, d, e, c} \<and> P \<and> Q \<and> d \<notin> K \<and> e \<notin> K \<and> R \<longleftrightarrow> K = {a, b, c} \<and> P \<and> Q \<and> R"
  using assms by blast+

lemmas exact_slots = exact_fields [OF slot_present_mem slot_present_mem slot_present_mem]

text \<open>
  The messages between front ends and leader are closed: a message decodes exactly when its
  fields, each once and in any order, are those of its kind and no others, with the tag of its kind,
  a bounded identifier and a payload that decodes. A field of another kind is refused even though
  the visitor knows it.
\<close>

theorem rpc_messages_closed:
  "(dec_frontend_to_leader dc j = Some m \<longleftrightarrow>
      (\<exists>kvs. body j = JObj kvs \<and> distinct (map fst kvs) \<and>
        (case m of
           FRequest i call \<Rightarrow>
             set (map fst kvs) = {''type'', ''rpcRequestId'', ''call''} \<and>
             field_is kvs ''type'' dec_frontend_tag TagRequest \<and>
             field_is kvs ''rpcRequestId'' dec_rpc_request_id i \<and> field_is kvs ''call'' dc call
         | FCancel i \<Rightarrow>
             set (map fst kvs) = {''type'', ''rpcRequestId''} \<and>
             field_is kvs ''type'' dec_frontend_tag TagCancel \<and>
             field_is kvs ''rpcRequestId'' dec_rpc_request_id i))) \<and>
   (dec_leader_to_frontend db j = Some n \<longleftrightarrow>
      (\<exists>kvs. body j = JObj kvs \<and> distinct (map fst kvs) \<and>
        (case n of
           LProgress i p \<Rightarrow>
             set (map fst kvs) = {''type'', ''rpcRequestId'', ''progress''} \<and>
             field_is kvs ''type'' dec_leader_tag TagProgress \<and>
             field_is kvs ''rpcRequestId'' dec_rpc_request_id i \<and>
             field_is kvs ''progress'' dec_rpc_progress p
         | LResponse i r \<Rightarrow>
             set (map fst kvs) = {''type'', ''rpcRequestId'', ''result''} \<and>
             field_is kvs ''type'' dec_leader_tag TagResponse \<and>
             field_is kvs ''rpcRequestId'' dec_rpc_request_id i \<and> field_is kvs ''result'' db r
         | LError i e \<Rightarrow>
             set (map fst kvs) = {''type'', ''rpcRequestId'', ''error''} \<and>
             field_is kvs ''type'' dec_leader_tag TagError \<and>
             field_is kvs ''rpcRequestId'' dec_rpc_request_id i \<and>
             field_is kvs ''error'' dec_tool_error e)))"
proof -
  have "dec_frontend_to_leader dc j = Some (FRequest i call) \<longleftrightarrow>
     (\<exists>kvs. body j = JObj kvs \<and> distinct (map fst kvs) \<and>
        set (map fst kvs) = {''type'', ''rpcRequestId'', ''call''} \<and>
        field_is kvs ''type'' dec_frontend_tag TagRequest \<and>
        field_is kvs ''rpcRequestId'' dec_rpc_request_id i \<and> field_is kvs ''call'' dc call)" for i call
    unfolding dec_frontend_Some frontend_to_leader.case visit_slots slot_present [symmetric] set_map
    by (subst exact_slots) simp_all
  moreover have "dec_frontend_to_leader dc j = Some (FCancel i) \<longleftrightarrow>
     (\<exists>kvs. body j = JObj kvs \<and> distinct (map fst kvs) \<and>
        set (map fst kvs) = {''type'', ''rpcRequestId''} \<and>
        field_is kvs ''type'' dec_frontend_tag TagCancel \<and>
        field_is kvs ''rpcRequestId'' dec_rpc_request_id i)" for i
    unfolding dec_frontend_Some frontend_to_leader.case visit_slots slot_present [symmetric] set_map
    by (subst exact_slots) simp_all
  moreover have "dec_leader_to_frontend db j = Some (LProgress i p) \<longleftrightarrow>
     (\<exists>kvs. body j = JObj kvs \<and> distinct (map fst kvs) \<and>
        set (map fst kvs) = {''type'', ''rpcRequestId'', ''progress''} \<and>
        field_is kvs ''type'' dec_leader_tag TagProgress \<and>
        field_is kvs ''rpcRequestId'' dec_rpc_request_id i \<and>
        field_is kvs ''progress'' dec_rpc_progress p)" for i p
    unfolding dec_leader_Some leader_to_frontend.case visit_slots slot_present [symmetric] set_map
    by (subst exact_slots) simp_all
  moreover have "dec_leader_to_frontend db j = Some (LResponse i r) \<longleftrightarrow>
     (\<exists>kvs. body j = JObj kvs \<and> distinct (map fst kvs) \<and>
        set (map fst kvs) = {''type'', ''rpcRequestId'', ''result''} \<and>
        field_is kvs ''type'' dec_leader_tag TagResponse \<and>
        field_is kvs ''rpcRequestId'' dec_rpc_request_id i \<and> field_is kvs ''result'' db r)" for i r
    unfolding dec_leader_Some leader_to_frontend.case visit_slots slot_present [symmetric] set_map
    by (subst exact_slots) simp_all
  moreover have "dec_leader_to_frontend db j = Some (LError i e) \<longleftrightarrow>
     (\<exists>kvs. body j = JObj kvs \<and> distinct (map fst kvs) \<and>
        set (map fst kvs) = {''type'', ''rpcRequestId'', ''error''} \<and>
        field_is kvs ''type'' dec_leader_tag TagError \<and>
        field_is kvs ''rpcRequestId'' dec_rpc_request_id i \<and>
        field_is kvs ''error'' dec_tool_error e)" for i e
    unfolding dec_leader_Some leader_to_frontend.case visit_slots slot_present [symmetric] set_map
    by (subst exact_slots) simp_all
  ultimately show ?thesis by (cases m; cases n) (simp_all only: frontend_to_leader.case leader_to_frontend.case)
qed

text \<open>The values the types of the messages can hold.\<close>

fun frontend_message_ok :: "(string \<Rightarrow> string option) \<Rightarrow> 'i frontend_to_leader \<Rightarrow> bool" where
  "frontend_message_ok hyphenated (FRequest i ListFiles) \<longleftrightarrow> bounded_ok REQUEST_ID i"
| "frontend_message_ok hyphenated (FRequest i (Invoke c op)) \<longleftrightarrow>
     bounded_ok REQUEST_ID i \<and> (\<forall>u \<in> set_option c. dec_connection_id hyphenated (js_str u) = Some u)"
| "frontend_message_ok hyphenated (FCancel i) \<longleftrightarrow> bounded_ok REQUEST_ID i"

fun leader_message_ok :: "('f, 'r) leader_to_frontend \<Rightarrow> bool" where
  "leader_message_ok (LProgress i p) \<longleftrightarrow>
     bounded_ok REQUEST_ID i \<and> (\<forall>m \<in> set_option (rp_message p). bounded_ok DISPLAY_TEXT m)"
| "leader_message_ok (LResponse i r) \<longleftrightarrow> bounded_ok REQUEST_ID i"
| "leader_message_ok (LError i e) \<longleftrightarrow> bounded_ok REQUEST_ID i \<and> tool_error_ok e"

lemma dec_js_u32 [simp]: "dec_u32 (js_u32 n) = Some n"
proof -
  have "take_bit 64 (unat n) < 2 ^ LENGTH(32)"
    by (rule le_less_trans [OF take_bit_nat_less_eq_self unsigned_less])
  then have "(ucast n :: u64) < 2 ^ 32" by (simp add: word_less_nat_alt unsigned_ucast_eq)
  moreover have "ucast (ucast n :: u64) = n" by (rule bit_word_eqI) (simp add: bit_unsigned_iff)
  ultimately show ?thesis by (simp add: dec_u32_def js_u32_def)
qed

lemma js_u32_not_null [simp]: "body (js_u32 n) \<noteq> JNull"
  by (simp add: js_u32_def)

lemma dec_enc_rpc_progress:
  assumes "\<forall>m \<in> set_option (rp_message p). bounded_ok DISPLAY_TEXT m"
  shows "dec_rpc_progress (enc_rpc_progress p) = Some p"
  using assms
  by (cases p; cases "rp_total p"; cases "rp_message p")
    (simp_all add: dec_rpc_progress_def enc_rpc_progress_def field_req_def field_opt_def
      field_default_def dec_option_def)

lemma dec_enc_broker_call:
  assumes "enc_broker_call ei call = Some j" and "\<And>i op. ei i = Some op \<Longrightarrow> di op = Some i"
    and "\<And>c i. call = Invoke (Some c) i \<Longrightarrow> dec_connection_id hyphenated (js_str c) = Some c"
  shows "dec_broker_call hyphenated di j = Some call"
proof (cases call)
  case ListFiles
  then show ?thesis using assms(1) by (auto simp: dec_broker_call_def dec_call_tag_def)
next
  case (Invoke c i)
  then obtain op where "ei i = Some op" using assms(1) by (auto simp: bind_eq_Some_conv)
  then show ?thesis
    using assms Invoke by (cases c)
      (auto simp: dec_broker_call_def dec_call_tag_def dec_invocation_def field_req_def)
qed

lemma dec_enc_broker_result:
  assumes "enc_broker_result ef er r = Some j" and "src_len j \<le> MAX_ENVELOPE_BYTES"
    and "\<And>f k. ef f = Some k \<Longrightarrow> df k = Some f" and "\<And>x k. er x = Some k \<Longrightarrow> dr k = Some x"
  shows "dec_broker_result df dr j = Some r"
  using assms
  by (cases r) (auto simp: bind_eq_Some_conv dec_broker_result_def dec_tag_payload_def
      dec_result_tag_def decode_raw_def js_obj_def)

section \<open>Codecs\<close>

text \<open>
  What the two sides of a connection need of the messages they exchange: a value that is written is
  never read as another value. It may be unreadable, which ends the connection. The values the type
  of the messages can hold are \<open>ok\<close>.
\<close>

locale message_codec =
  fixes ok :: "'m \<Rightarrow> bool" and em :: "'m \<Rightarrow> json option" and dm :: "json \<Rightarrow> 'm option"
  assumes faithful: "ok m \<Longrightarrow> em m = Some j \<Longrightarrow> dm j = Some m' \<Longrightarrow> m' = m"
begin

lemma read_back: "ok m \<Longrightarrow> Option.bind (em m) dm = Some m' \<Longrightarrow> m' = m"
  by (cases "em m") (auto dest: faithful)

lemma read_all:
  "list_all ok ms \<Longrightarrow> map em ms = map Some js \<Longrightarrow> map dm js = map Some ms' \<Longrightarrow> ms' = ms"
proof (induction ms arbitrary: js ms')
  case (Cons m ms)
  then show ?case by (cases js; cases ms') (auto dest: faithful)
qed simp

end

lemma dec_option_js [simp]:
  "body j \<noteq> JNull \<Longrightarrow> dec_option d j = map_option Some (d j)"
  by (simp add: dec_option_def)

lemma enc_item_error_faithful: "dec_item_error (enc_item_error e) = Some e' \<Longrightarrow> e' = e"
  by (cases e; cases "ie_id e")
    (auto simp: dec_item_error_def enc_item_error_def field_defs bind_eq_Some_conv bounded_deserialize_iff
      item_error_new_def split: if_splits)

interpretation item_error_codec: message_codec "\<lambda>_. True" "Some \<circ> enc_item_error" dec_item_error
  by unfold_locales (auto dest: enc_item_error_faithful)

lemma enc_tool_error_faithful:
  assumes "dec_tool_error (enc_tool_error e) = Some e'"
  shows "e' = e"
proof (cases "te_items e")
  case None
  then show ?thesis
    using assms by (cases e) (auto simp: dec_tool_error_def enc_tool_error_def field_defs
        bind_eq_Some_conv split: if_splits)
next
  case (Some items)
  have "items' = items" if "visit_seq dec_item_error n (map enc_item_error items) = Some items'" for n items'
    using that item_error_codec.read_all [of items "map enc_item_error items" items']
    by (simp add: visit_seq_iff list_all_iff comp_def)
  then show ?thesis
    using assms Some by (cases e) (auto simp: dec_tool_error_def enc_tool_error_def field_defs
        dec_error_items_def dec_bounded_list_def bind_eq_Some_conv split: if_splits)
qed

interpretation tool_error_codec: message_codec "\<lambda>_. True" "Some \<circ> enc_tool_error" dec_tool_error
  by unfold_locales (auto dest: enc_tool_error_faithful)

interpretation rpc_progress_codec: message_codec "\<lambda>_. True" "Some \<circ> enc_rpc_progress" dec_rpc_progress
proof
  fix m j m'
  assume "(Some \<circ> enc_rpc_progress) m = Some j" "dec_rpc_progress j = Some m'"
  then show "m' = m"
    by (cases m; cases "rp_total m"; cases "rp_message m")
      (auto simp: dec_rpc_progress_def enc_rpc_progress_def field_defs bind_eq_Some_conv bounded_deserialize_iff)
qed

interpretation frontend_hello_codec: message_codec "\<lambda>_. True" "Some \<circ> enc_frontend_hello" dec_frontend_hello
  by unfold_locales (auto simp: dec_frontend_hello_def enc_frontend_hello_def dec_rpc_request_id_def
      field_req_def bind_eq_Some_conv bounded_deserialize_iff)

interpretation handshake_codec: message_codec "\<lambda>_. True" "Some \<circ> enc_handshake" dec_handshake
proof
  fix m j m'
  assume "(Some \<circ> enc_handshake) m = Some j" "dec_handshake j = Some m'"
  then show "m' = m"
    by (cases m) (auto simp: dec_handshake_def handshake_variant_def struct_fields_def field_req_def
        bind_eq_Some_conv dest: enc_tool_error_faithful)
qed

text \<open>The codecs of the two directions, from those of operations and results.\<close>

lemma broker_call_faithful:
  assumes "message_codec (\<lambda>_. True) ei di"
    and "\<forall>c i. call = Invoke (Some c) i \<longrightarrow> dec_connection_id hyphenated (js_str c) = Some c"
    and "enc_broker_call ei call = Some j" and "dec_broker_call hyphenated di j = Some call'"
  shows "call' = call"
proof (cases call)
  case ListFiles
  then show ?thesis using assms(3,4) by (auto simp: dec_broker_call_def dec_call_tag_def)
next
  case (Invoke c i)
  then obtain op where "ei i = Some op" using assms(3) by (auto simp: bind_eq_Some_conv)
  then show ?thesis
    using assms Invoke message_codec.faithful [OF assms(1), of i op]
    by (cases c) (auto simp: dec_broker_call_def dec_call_tag_def dec_invocation_def field_req_def
        bind_eq_Some_conv)
qed

lemma frontend_codec:
  assumes "message_codec (\<lambda>_. True) ei di"
  shows "message_codec (frontend_message_ok hyphenated) (enc_frontend_to_leader ei)
    (dec_frontend_to_leader (dec_broker_call hyphenated di))"
proof
  fix m j m'
  assume m: "frontend_message_ok hyphenated m" "enc_frontend_to_leader ei m = Some j"
    "dec_frontend_to_leader (dec_broker_call hyphenated di) j = Some m'"
  show "m' = m"
  proof (cases m)
    case (FRequest i call)
    then obtain c where "enc_broker_call ei call = Some c" "bounded_ok REQUEST_ID i"
      using m by (cases call) (auto simp: bind_eq_Some_conv)
    moreover have "\<forall>c i. call = Invoke (Some c) i \<longrightarrow> dec_connection_id hyphenated (js_str c) = Some c"
      using m(1) FRequest by auto
    ultimately show ?thesis
      using m FRequest broker_call_faithful [OF assms, of call hyphenated c]
      by (auto simp: dec_frontend_to_leader_def dec_frontend_tag_def dec_rpc_request_id_def
          replaced_def bind_eq_Some_conv)
  next
    case (FCancel i)
    then show ?thesis
      using m by (auto simp: dec_frontend_to_leader_def dec_frontend_tag_def dec_rpc_request_id_def
          replaced_def)
  qed
qed

lemma broker_result_faithful:
  assumes "message_codec (\<lambda>_. True) ef df" and "message_codec (\<lambda>_. True) er dr"
    and "enc_broker_result ef er r = Some j" and "dec_broker_result df dr j = Some r'"
  shows "r' = r"
  using assms(3,4) message_codec.faithful [OF assms(1)] message_codec.faithful [OF assms(2)]
  by (cases r) (auto simp: bind_eq_Some_conv dec_broker_result_def dec_tag_payload_def
      dec_result_tag_def decode_raw_def split: if_splits)

lemma leader_codec:
  assumes "message_codec (\<lambda>_. True) ef df" and "message_codec (\<lambda>_. True) er dr"
  shows "message_codec (\<lambda>_. True) (enc_leader_to_frontend ef er)
    (dec_leader_to_frontend (dec_broker_result df dr))"
proof
  fix m j m'
  assume m: "enc_leader_to_frontend ef er m = Some j"
    "dec_leader_to_frontend (dec_broker_result df dr) j = Some m'"
  show "m' = m"
  proof (cases m)
    case (LProgress i p)
    then show ?thesis
      using m rpc_progress_codec.faithful [of p]
      by (auto simp: dec_leader_to_frontend_def dec_leader_tag_def dec_rpc_request_id_def replaced_def
          reject_leader_fields_def bind_eq_Some_conv bounded_deserialize_iff)
  next
    case (LResponse i r)
    then show ?thesis
      using m broker_result_faithful [OF assms, of r]
      by (auto simp: dec_leader_to_frontend_def dec_leader_tag_def dec_rpc_request_id_def replaced_def
          bind_eq_Some_conv bounded_deserialize_iff)
  next
    case (LError i e)
    then show ?thesis
      using m enc_tool_error_faithful [of e]
      by (auto simp: dec_leader_to_frontend_def dec_leader_tag_def dec_rpc_request_id_def replaced_def
          bind_eq_Some_conv bounded_deserialize_iff)
  qed
qed

text \<open>What is encoded decodes to itself.\<close>

lemma dec_enc_frontend:
  assumes "\<And>i op. ei i = Some op \<Longrightarrow> di op = Some i"
    and m: "enc_frontend_to_leader ei m = Some j" "frontend_message_ok hyphenated m"
  shows "dec_frontend_to_leader (dec_broker_call hyphenated di) j = Some m"
proof (cases m)
  case (FRequest i call)
  then obtain c where c: "enc_broker_call ei call = Some c" "bounded_ok REQUEST_ID i"
    using m by (cases call) (auto simp: bind_eq_Some_conv)
  moreover have "dec_broker_call hyphenated di c = Some call"
    using c(1) assms(1) m(2) FRequest by (intro dec_enc_broker_call [where ei = ei]) auto
  ultimately show ?thesis
    using m FRequest by (auto simp: dec_frontend_to_leader_def dec_frontend_tag_def
        dec_rpc_request_id_def replaced_def)
next
  case (FCancel i)
  then show ?thesis
    using m by (auto simp: dec_frontend_to_leader_def dec_frontend_tag_def dec_rpc_request_id_def
        replaced_def)
qed

lemma dec_enc_leader:
  assumes "\<And>f k. ef f = Some k \<Longrightarrow> df k = Some f" and "\<And>r k. er r = Some k \<Longrightarrow> dr k = Some r"
    and n: "enc_leader_to_frontend ef er n = Some k" "leader_message_ok n" "src_len k \<le> MAX_ENVELOPE_BYTES"
  shows "dec_leader_to_frontend (dec_broker_result df dr) k = Some n"
proof (cases n)
  case (LProgress i p)
  then show ?thesis
    using n dec_enc_rpc_progress [of p]
    by (auto simp: dec_leader_to_frontend_def dec_leader_tag_def dec_rpc_request_id_def replaced_def
        reject_leader_fields_def)
next
  case (LResponse i r)
  then obtain x where x: "enc_broker_result ef er r = Some x"
    "k = js_obj [(''type'', js_str ''response''), (''rpcRequestId'', js_str i), (''result'', x)]"
    using n by (auto simp: bind_eq_Some_conv)
  then have "src_len x \<le> MAX_ENVELOPE_BYTES" using n(3) by (simp add: js_obj_def)
  then have "dec_broker_result df dr x = Some r"
    using x(1) assms(1,2) by (intro dec_enc_broker_result [where ef = ef and er = er]) auto
  then show ?thesis
    using n x LResponse by (simp add: dec_leader_to_frontend_def dec_leader_tag_def
        dec_rpc_request_id_def replaced_def)
next
  case (LError i e)
  then show ?thesis
    using n dec_enc_tool_error [of e]
    by (auto simp: dec_leader_to_frontend_def dec_leader_tag_def dec_rpc_request_id_def replaced_def)
qed

text \<open>
  C34. What one side of the front-end protocol writes the other reads: a message of either direction,
  with identifiers and texts within their bounds and an envelope that fits, decodes back to itself.
\<close>

theorem rpc_messages_roundtrip:
  assumes "\<And>i op. ei i = Some op \<Longrightarrow> di op = Some i"
    and "\<And>f k. ef f = Some k \<Longrightarrow> df k = Some f" and "\<And>r k. er r = Some k \<Longrightarrow> dr k = Some r"
  shows "(enc_frontend_to_leader ei m = Some j \<and> frontend_message_ok hyphenated m \<longrightarrow>
      dec_frontend_to_leader (dec_broker_call hyphenated di) j = Some m) \<and>
    (enc_leader_to_frontend ef er n = Some k \<and> leader_message_ok n \<and> src_len k \<le> MAX_ENVELOPE_BYTES \<longrightarrow>
      dec_leader_to_frontend (dec_broker_result df dr) k = Some n)"
  using dec_enc_frontend [of ei di, OF assms(1)] dec_enc_leader [of ef df er dr, OF assms(2,3)] by blast

theorem rpc_messages_roundtrip_witness:
  "dec_frontend_to_leader (dec_broker_call Some dec_bool)
      (the (enc_frontend_to_leader (Some \<circ> js_bool) (FRequest ''f'' (Invoke None True)))) =
     Some (FRequest ''f'' (Invoke None True)) \<and>
   dec_leader_to_frontend (dec_broker_result dec_bool dec_bool)
      (the (enc_leader_to_frontend (Some \<circ> js_bool) (Some \<circ> js_bool)
         (LResponse ''f'' (Invocation True) :: (bool, bool) leader_to_frontend))) =
     Some (LResponse ''f'' (Invocation True))"
proof -
  have "dec_bool (js_bool b) = Some b" for b by simp
  then show ?thesis
    using rpc_messages_roundtrip [of "Some \<circ> js_bool" dec_bool "Some \<circ> js_bool" dec_bool
        "Some \<circ> js_bool" dec_bool "FRequest ''f'' (Invoke None True)" _ Some "LResponse ''f'' (Invocation True)"]
    by (auto simp: bounded_ok_def newtype_defs limit_defs js_defs quoted_len_def escape_len_def
        commas_def)
qed

end
