(* ===== verification/Socket.thy ===== *)
theory Socket
  imports Broker Frames
begin

text \<open>
  The plugin transport (\<open>crates/broker/src/ws.rs\<close>): the handshake, what one incoming frame does,
  one turn of a socket's loop, and the serve loop with its expiry tick. The web socket itself is
  the environment: a frame that arrived, and whether a write succeeded, are arguments. The payload
  of a text frame is the JSON value it parses to, if it parses.
\<close>

section \<open>Frames and errors\<close>

datatype ws_message =
    WText "json option" | WBinary | WPing string | WPong string | WClose | WFrame

text \<open>
  What \<open>socket.next()\<close> yields: the end of the stream, a transport error or a frame. \<open>'w\<close> is the
  type of the transport's errors.
\<close>

type_synonym 'w incoming = "('w + ws_message) option"

datatype 'w broker_error =
    IoError 'w
  | WebSocketError 'w
  | JsonError
  | RegistryFailed registry_error
  | FirstFrameNotHello
  | ProtocolMismatch
  | SecondHello
  | NonTextProtocolFrame
  | HeartbeatExpired
  | SocketClosed
  | FrontendFirstFrame
  | FrontendProtocolMismatch
  | FrontendHandshakeTimedOut
  | FrontendFrame frame_error
  | FrontendTool tool_error
  | DuplicateFrontendRequest

datatype 'i ws_out = OutMessage "'i broker_to_plugin" | OutPong string

section \<open>Handshake\<close>

definition require_null_origin :: "string option \<Rightarrow> bool" where
  "require_null_origin origin \<longleftrightarrow> origin = Some ''null''"

fun first_hello ::
    "(string \<Rightarrow> string option) \<Rightarrow> (json \<Rightarrow> 'r option) \<Rightarrow> 'w incoming \<Rightarrow> 'w broker_error + hello" where
  "first_hello hyphenated dr None = Inl FirstFrameNotHello"
| "first_hello hyphenated dr (Some (Inl e)) = Inl (WebSocketError e)"
| "first_hello hyphenated dr (Some (Inr (WText text))) =
     (case Option.bind text (dec_plugin_to_broker hyphenated dr) of
        None \<Rightarrow> Inl JsonError
      | Some (PHello h) \<Rightarrow>
          if h_protocol_version h \<noteq> PLUGIN_PROTOCOL_VERSION then Inl ProtocolMismatch else Inr h
      | Some _ \<Rightarrow> Inl FirstFrameNotHello)"
| "first_hello hyphenated dr (Some (Inr _)) = Inl FirstFrameNotHello"

text \<open>
  Registration under a fresh socket number, which names the outbound channel too: first the lease, then the
  session, under the lock of the registry. A refused lease ends the socket without an error; a refused
  session gives the lease back.
\<close>

definition lease_plugin :: "('i, 'r) broker \<Rightarrow> ('i, 'r) broker option" where
  "lease_plugin b = map_option (\<lambda>a. b\<lparr>bk_activity := a\<rparr>) (plugin_lease (bk_activity b))"

definition register_socket ::
    "instant \<Rightarrow> int \<Rightarrow> uuid \<Rightarrow> hello \<Rightarrow> ('i, 'r) broker
      \<Rightarrow> ('i, 'r) broker \<times> ('w broker_error + unit)" where
  "register_socket now wall socket h b =
     (case registry_insert now (session_from_hello now h socket wall socket) (bk_registry b) of
        (r, Inl e) \<Rightarrow> (b\<lparr>bk_activity := drop_plugin_lease (bk_activity b)\<rparr>, Inl (RegistryFailed e))
      | (r, Inr _) \<Rightarrow>
          (b\<lparr>bk_registry := r,
             bk_outbound := (bk_outbound b)
               (socket := mpsc_new (outbound_queue (cfg_limits (bk_config b))))\<rparr>,
           Inr ()))"

definition open_socket ::
    "instant \<Rightarrow> int \<Rightarrow> uuid \<Rightarrow> hello \<Rightarrow> ('i, 'r) broker
      \<Rightarrow> ('i, 'r) broker \<times> ('w broker_error + bool)" where
  "open_socket now wall socket h b =
     (case lease_plugin b of
        None \<Rightarrow> (b, Inr False)
      | Some b' \<Rightarrow>
          (case register_socket now wall socket h b' of
             (b'', r) \<Rightarrow> (b'', map_sum id (\<lambda>_. True) r)))"

definition install_queue :: "uuid \<Rightarrow> ('i, 'r) broker \<Rightarrow> ('i, 'r) broker" where
  "install_queue socket b =
     b\<lparr>bk_queues := hm_insert socket socket (bk_queues b),
       bk_queue := (bk_queue b)(socket := queue_new)\<rparr>"

section \<open>Writing\<close>

datatype 'w send_result = SendOk | SendFailed 'w | SendAbandoned

text \<open>A shutdown during the write abandons it without an error.\<close>

fun send_with_shutdown :: "'w send_result \<Rightarrow> 'i ws_out \<Rightarrow> 'i ws_out list \<times> ('w broker_error + unit)" where
  "send_with_shutdown SendOk m = ([m], Inr ())"
| "send_with_shutdown (SendFailed e) m = ([], Inl (WebSocketError e))"
| "send_with_shutdown SendAbandoned m = ([], Inr ())"

section \<open>Incoming frames\<close>

definition touch :: "uuid \<Rightarrow> instant \<Rightarrow> int \<Rightarrow> ('i, 'r) broker \<Rightarrow> ('i, 'r) broker" where
  "touch socket now wall b =
     b\<lparr>bk_registry := fst (registry_touch_socket socket now wall (bk_registry b))\<rparr>"

text \<open>What a decoded message does, after the socket has been touched.\<close>

fun handle_message ::
    "(ticket \<Rightarrow> bool) \<Rightarrow> instant \<Rightarrow> uuid \<Rightarrow> 'r plugin_to_broker \<Rightarrow> ('i, 'r) broker
      \<Rightarrow> ('i, 'r) broker \<times> ('w broker_error + unit)" where
  "handle_message alive now socket (PHello h) b = (b, Inl SecondHello)"
| "handle_message alive now socket (PProgress p) b =
     (case note_progress now socket (p_request_id p) p (bk_pending b) of (m, _, sends) \<Rightarrow>
        (b\<lparr>bk_pending := m, bk_progress := bk_progress b @ sends\<rparr>, Inr ()))"
| "handle_message alive now socket (PResponse r) b =
     (case pending_complete socket (r_request_id r) (Inr (r_result r)) (bk_pending b) of
        (m, _, ds, ts) \<Rightarrow> (settle alive m ds ts b, Inr ()))"
| "handle_message alive now socket (PError e) b =
     (case pending_complete socket (we_request_id e) (Inl (tool_error_from (we_error e)))
        (bk_pending b) of (m, _, ds, ts) \<Rightarrow> (settle alive m ds ts b, Inr ()))"
| "handle_message alive now socket (PPong nonce) b = (b, Inr ())"

text \<open>
  The result: the broker, the socket's new \<open>last_seen\<close>, what was written back, and the error that
  ends the socket, if any. \<open>wall\<close> is the time of day the registry records.
\<close>

fun handle_incoming ::
    "(string \<Rightarrow> string option) \<Rightarrow> (json \<Rightarrow> 'r option) \<Rightarrow> (ticket \<Rightarrow> bool) \<Rightarrow> instant \<Rightarrow> int
      \<Rightarrow> 'w send_result \<Rightarrow> uuid \<Rightarrow> ws_message \<Rightarrow> instant \<Rightarrow> ('i, 'r) broker
      \<Rightarrow> ('i, 'r) broker \<times> instant \<times> 'i ws_out list \<times> ('w broker_error + unit)" where
  "handle_incoming hyphenated dr alive now wall send socket (WText text) last_seen b =
     (case Option.bind text (dec_plugin_to_broker hyphenated dr) of
        None \<Rightarrow> (b, last_seen, [], Inl JsonError)
      | Some message \<Rightarrow>
          (case handle_message alive now socket message (touch socket now wall b) of
             (b', r) \<Rightarrow> (b', now, [], r)))"
| "handle_incoming hyphenated dr alive now wall send socket (WPong payload) last_seen b =
     (touch socket now wall b, now, [], Inr ())"
| "handle_incoming hyphenated dr alive now wall send socket (WPing payload) last_seen b =
     (case send_with_shutdown send (OutPong payload) of
        (out, r) \<Rightarrow> (touch socket now wall b, now, out, r))"
| "handle_incoming hyphenated dr alive now wall send socket WClose last_seen b =
     (b, last_seen, [], Inl SocketClosed)"
| "handle_incoming hyphenated dr alive now wall send socket WBinary last_seen b =
     (b, last_seen, [], Inl NonTextProtocolFrame)"
| "handle_incoming hyphenated dr alive now wall send socket WFrame last_seen b =
     (b, last_seen, [], Inl NonTextProtocolFrame)"

section \<open>The loop of a socket\<close>

record ws_state =
  ws_last_seen :: instant
  ws_nonce :: u64

text \<open>
  What is ready at a turn: the clocks, whether every sender of the outbound channel is gone, what
  the socket yields if it yields, whether the heartbeat is due, and how a write ends.
\<close>

record 'w readiness =
  rd_now :: instant
  rd_wall :: int
  rd_senders_gone :: bool
  rd_incoming :: "'w incoming option"
  rd_heartbeat :: bool
  rd_send :: "'w send_result"

datatype 'w turn_result = Continue ws_state | Break "'w broker_error + unit" | Blocked

definition after_send :: "ws_state \<Rightarrow> 'w broker_error + unit \<Rightarrow> 'w turn_result" where
  "after_send st r = (case r of Inl e \<Rightarrow> Break (Inl e) | Inr _ \<Rightarrow> Continue st)"

text \<open>\<open>select!\<close> is biased: the first ready branch in the order of the text is taken.\<close>

definition socket_turn ::
    "('i \<Rightarrow> json option) \<Rightarrow> (string \<Rightarrow> string option) \<Rightarrow> (json \<Rightarrow> 'r option) \<Rightarrow> (ticket \<Rightarrow> bool)
      \<Rightarrow> 'w readiness \<Rightarrow> uuid \<Rightarrow> ws_state \<Rightarrow> ('i, 'r) broker
      \<Rightarrow> ('i, 'r) broker \<times> 'i ws_out list \<times> 'w turn_result" where
  "socket_turn ei hyphenated dr alive rd socket st b =
     (if bk_shutdown b then (b, [], Break (Inr ()))
      else case mpsc_recv (bk_outbound b socket) of
        Some (outbound, ch) \<Rightarrow>
          (let b = b\<lparr>bk_outbound := (bk_outbound b)(socket := ch)\<rparr> in
           case enc_broker_to_plugin ei outbound of
             None \<Rightarrow> (b, [], Break (Inl JsonError))
           | Some encoded \<Rightarrow>
               (case send_with_shutdown (rd_send rd) (OutMessage outbound) of
                  (out, r) \<Rightarrow> (b, out, after_send st r)))
      | None \<Rightarrow>
          if rd_senders_gone rd then (b, [], Break (Inr ()))
          else case rd_incoming rd of
            Some (Some (Inr message)) \<Rightarrow>
              (case handle_incoming hyphenated dr alive (rd_now rd) (rd_wall rd) (rd_send rd)
                  socket message (ws_last_seen st) b of
                 (b', last_seen, out, r) \<Rightarrow> (b', out, after_send (st\<lparr>ws_last_seen := last_seen\<rparr>) r))
          | Some (Some (Inl e)) \<Rightarrow> (b, [], Break (Inl (WebSocketError e)))
          | Some None \<Rightarrow> (b, [], Break (Inr ()))
          | None \<Rightarrow>
              if rd_heartbeat rd then
                (let st = st\<lparr>ws_nonce := ws_nonce st + 1\<rparr> in
                 case send_with_shutdown (rd_send rd) (OutMessage (BPing (ws_nonce st))) of
                   (out, r) \<Rightarrow> (b, out, after_send st r))
              else if ws_last_seen st + stale_after (cfg_limits (bk_config b)) \<le> rd_now rd
              then (b, [], Break (Inl HeartbeatExpired))
              else (b, [], Blocked))"

text \<open>
  The message a turn reads, if it comes to reading a text frame that decodes: handling it takes a lock of
  its own after the one of the touch, and other tasks may run between the two.
\<close>

definition turn_message ::
    "(string \<Rightarrow> string option) \<Rightarrow> (json \<Rightarrow> 'r option) \<Rightarrow> 'w readiness \<Rightarrow> uuid \<Rightarrow> ('i, 'r) broker
      \<Rightarrow> 'r plugin_to_broker option" where
  "turn_message hyphenated dr rd socket b =
     (if bk_shutdown b \<or> ch_queue (bk_outbound b socket) \<noteq> [] \<or> rd_senders_gone rd then None
      else case rd_incoming rd of
        Some (Some (Inr (WText t))) \<Rightarrow> Option.bind t (dec_plugin_to_broker hyphenated dr)
      | _ \<Rightarrow> None)"

lemma turn_in_two:
  assumes "turn_message hyphenated dr rd socket b = Some message"
  shows "socket_turn ei hyphenated dr alive rd socket st b =
    (case handle_message alive (rd_now rd) socket message (touch socket (rd_now rd) (rd_wall rd) b) of
       (b', r) \<Rightarrow> (b', [], after_send (st\<lparr>ws_last_seen := rd_now rd\<rparr>) r))"
  using assms
  by (auto simp: turn_message_def socket_turn_def mpsc_recv_def Let_def
      split: if_splits option.splits sum.splits ws_message.splits list.splits prod.splits)

text \<open>The end of \<open>handle_socket\<close>, after the cleanup: the receiver and then the lease are dropped.\<close>

definition close_socket :: "uuid \<Rightarrow> ('i, 'r) broker \<Rightarrow> ('i, 'r) broker" where
  "close_socket socket b =
     b\<lparr>bk_outbound := (bk_outbound b)(socket := mpsc_close (bk_outbound b socket)),
       bk_activity := drop_plugin_lease (bk_activity b)\<rparr>"

section \<open>The serve loop\<close>

definition notify_expired :: "uuid \<times> string \<Rightarrow> ('i, 'r) broker \<Rightarrow> ('i, 'r) broker" where
  "notify_expired = (\<lambda>(socket, request_id) b.
     case outbound_for_socket socket (bk_registry b) of
       None \<Rightarrow> b
     | Some outbound \<Rightarrow> try_send_cancel outbound request_id b)"

text \<open>
  The tick: the sweep under the lock of the pending map, and the requests whose plugins are then told one
  after the other, each under the lock of the registry.
\<close>

definition expiry_sweep ::
    "(ticket \<Rightarrow> bool) \<Rightarrow> instant \<Rightarrow> ('i, 'r) broker \<Rightarrow> ('i, 'r) broker \<times> (uuid \<times> string) list" where
  "expiry_sweep alive now b =
     (case take_expired now (bk_pending b) of (m, expired, ds, ts) \<Rightarrow> (settle alive m ds ts b, expired))"

text \<open>
  One turn of \<open>serve\<close>: seeing the shutdown, an accepted connection (or its error), the tick. The
  result is what the tick has still to tell, the peer to serve, if any, and the terminal error once the
  loop is over.
\<close>

datatype 'w serve_input = ShutdownSeen | Accepted "'w + ip_addr" | Tick instant

fun serve_turn ::
    "(ticket \<Rightarrow> bool) \<Rightarrow> 'w serve_input \<Rightarrow> ('i, 'r) broker
      \<Rightarrow> ('i, 'r) broker \<times> (uuid \<times> string) list \<times> ip_addr option \<times> 'w broker_error option option" where
  "serve_turn alive ShutdownSeen b = (b, [], None, Some None)"
| "serve_turn alive (Accepted (Inl e)) b =
     (b\<lparr>bk_shutdown := True\<rparr>, [], None, Some (Some (IoError e)))"
| "serve_turn alive (Accepted (Inr peer)) b =
     (b, [], if is_loopback peer then Some peer else None, None)"
| "serve_turn alive (Tick now) b =
     (case expiry_sweep alive now b of (b', expired) \<Rightarrow> (b', expired, None, None))"

text \<open>After the loop the pending requests are told that their connection is lost.\<close>

definition serve_end :: "(ticket \<Rightarrow> bool) \<Rightarrow> ('i, 'r) broker \<Rightarrow> ('i, 'r) broker" where
  "serve_end alive b =
     (case pending_shutdown (bk_pending b) of (m, _, ds, ts) \<Rightarrow> settle alive m ds ts b)"

section \<open>Frames of a concrete plugin\<close>

definition plugin_uuid :: string where
  "plugin_uuid = ''123e4567-e89b-42d3-a456-426614174000''"

definition hello_fields :: "(string \<times> json) list" where
  "hello_fields =
     [(''type'', js_str ''hello''), (''protocolVersion'', js_str ''4''),
      (''connectionId'', js_str plugin_uuid),
      (''displayName'', js_str ''d''), (''fileName'', js_str ''f''),
      (''currentPage'', js_obj [(''id'', js_str ''0:1''), (''name'', js_str ''p'')]),
      (''editorType'', js_str ''figma''), (''pluginVersion'', js_str ''1''),
      (''capabilities'', js_obj [])]"

definition plugin_hello :: hello where
  "plugin_hello =
     \<lparr>h_protocol_version = ''4'', h_connection_id = plugin_uuid, h_display_name = ''d'',
      h_file_key = None, h_file_name = ''f'',
      h_current_page = \<lparr>ps_id = ''0:1'', ps_name = ''p''\<rparr>,
      h_editor_type = ''figma'', h_plugin_version = ''1'',
      h_capabilities = \<lparr>cap_annotations = False, cap_dev_resources = False, cap_motion = False,
        cap_svg_string_export = False, cap_variable_code_syntax = False\<rparr>\<rparr>"

definition response_fields :: "(string \<times> json) list" where
  "response_fields =
     [(''type'', js_str ''response''), (''requestId'', js_str ''r''), (''result'', js_bool True)]"

definition response_frame :: json where
  "response_frame = js_obj response_fields"

lemma json_of_obj:
  assumes "src_len (js_obj kvs) \<le> MAX_ENVELOPE_BYTES"
  shows "dec_plugin_to_broker hyphenated dr (js_obj kvs) =
    (if set (map fst kvs) \<subseteq> set MESSAGE_FIELDS \<and> distinct (map fst kvs)
     then do { v \<leftarrow> map_of kvs ''type''; t \<leftarrow> dec_plugin_tag v;
               plugin_struct hyphenated dr t (Json 0 (JObj (untyped kvs))) }
     else None)"
  using message_visit_decode [of _ kvs "plugin_struct hyphenated dr" dec_plugin_tag 0]
    plugin_struct_len [of hyphenated dr] js_obj_honest [of kvs] assms
  by (simp add: dec_plugin_to_broker_def js_obj_def)

lemmas js_len_defs = js_defs quoted_len_def escape_len_def commas_def digits_len.simps

lemmas frame_defs = MESSAGE_FIELDS_def dec_plugin_tag_def struct_decoder_defs dec_page_summary_def
  dec_capability_set_def struct_fields_def field_req_def field_opt_def field_default_def
  dec_bool_def bounded_ok_def newtype_defs limit_defs

lemma plugin_uuid_ok: "dec_connection_id Some (js_str plugin_uuid) = Some plugin_uuid"
  unfolding plugin_uuid_def by code_simp

lemma hello_decodes: "dec_plugin_to_broker Some dec_bool (js_obj hello_fields) = Some (PHello plugin_hello)"
proof -
  have "src_len (js_obj hello_fields) \<le> MAX_ENVELOPE_BYTES"
    by (simp add: hello_fields_def plugin_uuid_def js_len_defs limit_defs)
  then show ?thesis
    by (subst json_of_obj) (simp_all add: hello_fields_def plugin_hello_def frame_defs plugin_uuid_ok)
qed

lemma response_decodes:
  "dec_plugin_to_broker Some dec_bool response_frame =
    Some (PResponse \<lparr>r_request_id = ''r'', r_result = True\<rparr>)"
proof -
  have "src_len (js_obj response_fields) \<le> MAX_ENVELOPE_BYTES"
    by (simp add: response_fields_def js_len_defs limit_defs)
  then show ?thesis
    unfolding response_frame_def by (subst json_of_obj) (simp_all add: response_fields_def frame_defs)
qed

section \<open>Properties\<close>

text \<open>Touching a socket changes the times of its own session and nothing else.\<close>

lemma touch_frame [frame, simp]:
  "bk_config (touch s now wall b) = bk_config b" "bk_pending (touch s now wall b) = bk_pending b"
  "bk_queues (touch s now wall b) = bk_queues b" "bk_activity (touch s now wall b) = bk_activity b"
  "bk_queue (touch s now wall b) = bk_queue b" "bk_outbound (touch s now wall b) = bk_outbound b"
  "bk_results (touch s now wall b) = bk_results b" "bk_progress (touch s now wall b) = bk_progress b"
  by (simp_all add: touch_def)

lemma touch_sessions:
  assumes "registry_inv (bk_registry b)"
  shows "hm_get (sessions (bk_registry (touch s now wall b))) c =
    map_option (\<lambda>t. if s_socket_id t = s then t\<lparr>s_last_seen := now, s_last_seen_at := wall\<rparr> else t)
      (hm_get (sessions (bk_registry b)) c)"
proof (cases "hm_get (sockets (bk_registry b)) s")
  case None
  have "s_socket_id t \<noteq> s" if "hm_get (sessions (bk_registry b)) c = Some t" for t
    using assms None that inverse_mapsD1 [of _ "hm_get (sockets (bk_registry b))" c t]
    by (auto simp: registry_inv_def simp del: map_of_eq_Some_iff)
  then show ?thesis
    using None by (cases "hm_get (sessions (bk_registry b)) c")
      (auto simp: touch_def registry_touch_socket_def simp del: map_of_eq_Some_iff)
next
  case (Some d)
  have inv: "inverse_maps (hm_get (sessions (bk_registry b))) (hm_get (sockets (bk_registry b)))"
    using assms by (simp add: registry_inv_def)
  obtain u where u: "hm_get (sessions (bk_registry b)) d = Some u" "s_socket_id u = s"
    using inverse_mapsD2 [OF inv Some] by blast
  show ?thesis
  proof (cases "c = d")
    case True
    then show ?thesis
      using Some u by (simp add: touch_def registry_touch_socket_def update_conv' del: map_of_eq_Some_iff)
  next
    case False
    have "s_socket_id t \<noteq> s" if "hm_get (sessions (bk_registry b)) c = Some t" for t
      using inverse_maps_socket [OF inv Some that] False by simp
    then show ?thesis
      using Some u False by (cases "hm_get (sessions (bk_registry b)) c")
        (simp_all add: touch_def registry_touch_socket_def update_conv' del: map_of_eq_Some_iff)
  qed
qed

lemma settle_queue:
  assumes "\<And>t. (q, t) \<notin> set ts"
  shows "bk_queue (settle alive m ds ts b) q = bk_queue b q"
proof -
  have "bk_queue (drop_tickets alive ts c) q = bk_queue c q" for c :: "('a, 'b) broker"
    using assms unfolding drop_tickets_def
    by (induction ts arbitrary: c) (auto simp: drop_ticket_def split: prod.split)
  then show ?thesis by (simp add: settle_def)
qed

text \<open>What a message may change, whichever it is.\<close>

definition confined :: "uuid \<Rightarrow> ('i, 'r) broker \<Rightarrow> ('i, 'r) broker \<Rightarrow> bool" where
  "confined s b b' \<longleftrightarrow>
     (\<forall>s' r. s' \<noteq> s \<longrightarrow> hm_get (bk_pending b') (s', r) = hm_get (bk_pending b) (s', r)) \<and>
     (\<exists>ds. bk_results b' = bk_results b @ ds \<and> length ds \<le> 1 \<and>
        (\<forall>d \<in> set ds. \<exists>r p. hm_get (bk_pending b) (s, r) = Some p \<and> fst d = pr_sender p)) \<and>
     (\<exists>ps. bk_progress b' = bk_progress b @ ps \<and> length ps \<le> 1 \<and>
        (\<forall>d \<in> set ps. \<exists>r p. hm_get (bk_pending b) (s, r) = Some p \<and> pr_progress p = Some (fst d))) \<and>
     bk_outbound b' = bk_outbound b \<and> bk_queues b' = bk_queues b \<and>
     bk_activity b' = bk_activity b \<and>
     (\<forall>q. (\<forall>r p t. hm_get (bk_pending b) (s, r) = Some p \<longrightarrow> pr_ticket p \<noteq> Some (q, t)) \<longrightarrow>
        bk_queue b' q = bk_queue b q)"

lemma confined_same:
  assumes "bk_pending b' = bk_pending b" "bk_results b' = bk_results b" "bk_progress b' = bk_progress b"
    "bk_outbound b' = bk_outbound b" "bk_queues b' = bk_queues b" "bk_activity b' = bk_activity b"
    "bk_queue b' = bk_queue b"
  shows "confined s b b'"
  using assms by (simp add: confined_def)

lemma complete_confined:
  assumes "keyed_ok (bk_pending b)" and "bk_pending c = bk_pending b"
    "bk_results c = bk_results b" "bk_progress c = bk_progress b" "bk_outbound c = bk_outbound b"
    "bk_queues c = bk_queues b" "bk_activity c = bk_activity b" "bk_queue c = bk_queue b"
    and "pending_complete s r result (bk_pending c) = (m, found, ds, ts)"
  shows "confined s b (settle alive m ds ts c)"
proof (cases "hm_get (bk_pending b) (s, r)")
  case None
  then show ?thesis
    using assms by (intro confined_same) (auto simp: pending_complete_def settle_def drop_tickets_def)
next
  case (Some p)
  then have out: "m = hm_remove (s, r) (bk_pending b)" "ds = [(pr_sender p, result)]"
    "ts = opt_list (pr_ticket p)"
    using assms(2,9) by (auto simp: pending_complete_def simp del: map_of_eq_Some_iff)
  have "hm_ok (bk_pending b)" using assms(1) by (simp add: keyed_ok_def)
  then have other: "hm_get m (s', r') = hm_get (bk_pending b) (s', r')" if "s' \<noteq> s" for s' r'
    unfolding out using that by (intro hash.del_other) simp_all
  have "bk_queue (settle alive m ds ts c) q = bk_queue b q"
    if "\<And>r p t. hm_get (bk_pending b) (s, r) = Some p \<Longrightarrow> pr_ticket p \<noteq> Some (q, t)" for q
    using that [OF Some] settle_queue [of q ts alive m ds c] assms(8)
    by (cases "pr_ticket p") (auto simp: out)
  then show ?thesis
    using other Some assms(3-7) unfolding confined_def
    by (auto simp: out simp del: map_of_eq_Some_iff)
qed

lemma handle_message_confined:
  assumes "keyed_ok (bk_pending b)"
    and "handle_message alive now s message (touch s now wall b) = (b', r)"
  shows "confined s b b' \<and> bk_registry b' = bk_registry (touch s now wall b)"
proof (cases message)
  case (PProgress p)
  show ?thesis
  proof (cases "hm_get (bk_pending b) (s, p_request_id p)")
    case None
    then show ?thesis
      using assms PProgress by (auto simp: note_progress_def intro!: confined_same)
  next
    case (Some e)
    have "hm_ok (bk_pending b)" using assms(1) by (simp add: keyed_ok_def)
    then show ?thesis
      using assms(2) PProgress Some
      by (cases "pr_progress e")
        (auto simp: note_progress_def confined_def hash.put_other simp del: map_of_eq_Some_iff
          intro!: exI [of _ "p_request_id p"] exI [of _ e])
  qed
next
  case (PResponse x)
  then show ?thesis
    using assms(2) complete_confined [OF assms(1), where c = "touch s now wall b"]
    by (auto split: prod.splits)
next
  case (PError x)
  then show ?thesis
    using assms(2) complete_confined [OF assms(1), where c = "touch s now wall b"]
    by (auto split: prod.splits)
qed (use assms(2) in \<open>auto intro!: confined_same\<close>)

text \<open>
  C6. A plugin can act only on its own requests. Whatever frame arrives on a socket, the requests of
  other sockets stay as they are; at most one caller is answered and at most one is told progress, each
  waiting for a request of that very socket; no message is put on any channel; only the slots its
  requests hold can be released; and of the registry only the times of its own session change.
\<close>

theorem frame_isolated:
  assumes "keyed_ok (bk_pending b)" and "registry_inv (bk_registry b)"
    and "handle_incoming hyphenated dr alive now wall send s message last_seen b = (b', seen, out, r)"
  shows "confined s b b' \<and> (\<forall>c.
    hm_get (sessions (bk_registry b')) c = hm_get (sessions (bk_registry b)) c \<or>
    (\<exists>t. hm_get (sessions (bk_registry b)) c = Some t \<and> s_socket_id t = s \<and>
       hm_get (sessions (bk_registry b')) c = Some (t\<lparr>s_last_seen := now, s_last_seen_at := wall\<rparr>)))"
proof -
  have "confined s b b' \<and> (bk_registry b' = bk_registry b \<or> bk_registry b' = bk_registry (touch s now wall b))"
  proof (cases message)
    case (WText x)
    show ?thesis
    proof (cases "Option.bind x (dec_plugin_to_broker hyphenated dr)")
      case None
      then show ?thesis using assms(3) WText by (auto intro!: confined_same)
    next
      case (Some decoded)
      have "handle_message alive now s decoded (touch s now wall b) = (b', r)"
        using assms(3) WText Some by (auto split: prod.splits)
      then show ?thesis using handle_message_confined [OF assms(1)] by blast
    qed
  next
    case (WPing payload)
    then show ?thesis using assms(3) by (cases send) (auto intro!: confined_same)
  qed (use assms(3) in \<open>auto intro!: confined_same\<close>)
  then show ?thesis
    using touch_sessions [OF assms(2), of s now wall]
    by (auto simp: map_option_case simp del: map_of_eq_Some_iff split: option.split)
qed

definition waiting_on :: "uuid \<Rightarrow> nat \<Rightarrow> pending_request" where
  "waiting_on s c =
     \<lparr>pr_socket = s, pr_request = ''r'', pr_started_at = 0, pr_total_deadline = 9,
      pr_inactivity_deadline = 9, pr_sender = c, pr_progress = None, pr_ticket = None\<rparr>"

text \<open>Two sockets wait under the same request identifier: the answer of one is not the other's.\<close>

theorem frame_isolated_witness:
  "\<exists>b'. handle_incoming Some dec_bool (\<lambda>_. True) 5 5 (SendOk :: unit send_result) 7 (WText (Some response_frame)) 0
      (one_plugin\<lparr>bk_pending := [((7, ''r''), waiting_on 7 3), ((8, ''r''), waiting_on 8 4)]\<rparr>)
      = (b', 5, [], Inr ()) \<and>
     bk_results b' = [(3, Inr True)] \<and> hm_get (bk_pending b') (8, ''r'') = Some (waiting_on 8 4)"
proof -
  let ?b = "one_plugin\<lparr>bk_pending := [((7, ''r''), waiting_on 7 3), ((8, ''r''), waiting_on 8 4)]\<rparr>"
  obtain b' where run: "handle_incoming Some dec_bool (\<lambda>_. True) 5 5 (SendOk :: unit send_result) 7
      (WText (Some response_frame)) 0 ?b = (b', 5, [], Inr ())"
    and results: "bk_results b' = [(3, Inr True)]"
    by (simp add: response_decodes pending_complete_def waiting_on_def)
      (simp add: one_plugin_def broker_new_def)
  have "keyed_ok (bk_pending ?b)" by (simp add: keyed_ok_def waiting_on_def)
  moreover have "registry_inv (bk_registry ?b)"
    using registry_insert_inv [OF registry_new_inv] by (simp add: one_plugin_def one_session_def)
  ultimately show ?thesis
    using frame_isolated [OF _ _ run] run results by (auto simp: confined_def)
qed

text \<open>
  C15. A socket serves a connection only after a hello of the one supported version, and registration
  is all or nothing. A registered session routes to its own socket, with an empty channel of the
  configured capacity and one more plugin lease, and every other connection routes as before. A
  broker that is closing turns the socket away without an error; a connection identifier or socket
  already registered is refused. Either way the broker is as it was, the lease given back.
\<close>

theorem registration_outcome:
  assumes "registry_inv (bk_registry b)"
    and "first_hello hyphenated dr frm = Inr h"
    and "open_socket now wall socket h b = (b', r)"
  shows "h_protocol_version h = PLUGIN_PROTOCOL_VERSION \<and>
    (case r of
      Inr True \<Rightarrow>
        \<not> closing (bk_activity b) \<and>
        plugins (counts (bk_activity b')) = plugins (counts (bk_activity b)) + 1 \<and>
        route_for (h_connection_id h) (bk_registry b) = None \<and>
        route_for (h_connection_id h) (bk_registry b') = Some (socket, socket) \<and>
        (\<forall>c. c \<noteq> h_connection_id h \<longrightarrow> route_for c (bk_registry b') = route_for c (bk_registry b)) \<and>
        bk_outbound b' socket = mpsc_new (outbound_queue (cfg_limits (bk_config b))) \<and>
        bk_pending b' = bk_pending b
    | Inr False \<Rightarrow> closing (bk_activity b) \<and> b' = b
    | Inl e \<Rightarrow>
        b' = b \<and>
        (e = RegistryFailed DuplicateConnectionId \<and> route_for (h_connection_id h) (bk_registry b) \<noteq> None \<or>
         e = RegistryFailed DuplicateSocketId \<and> hm_contains (sockets (bk_registry b)) socket))"
proof -
  have version: "h_protocol_version h = PLUGIN_PROTOCOL_VERSION"
    using assms(2) by (cases "(hyphenated, dr, frm)" rule: first_hello.cases)
      (auto split: option.splits plugin_to_broker.splits if_splits)
  have lease: "drop_plugin_lease a = bk_activity b" if "plugin_lease (bk_activity b) = Some a" for a
    using that by (auto simp: plugin_lease_def drop_plugin_lease_def split: if_splits)
  show ?thesis
  proof (cases "plugin_lease (bk_activity b)")
    case None
    then show ?thesis
      using assms(3) version by (auto simp: open_socket_def lease_plugin_def plugin_lease_def split: if_splits)
  next
    case (Some a)
    have a: "\<not> closing (bk_activity b)" "plugins (counts a) = plugins (counts (bk_activity b)) + 1"
      using Some by (auto simp: plugin_lease_def split: if_splits)
    let ?s = "session_from_hello now h socket wall socket"
    have id: "s_connection_id ?s = h_connection_id h" "s_socket_id ?s = socket" "s_outbound ?s = socket"
      by (simp_all add: session_from_hello_def)
    show ?thesis
    proof (cases "registry_insert now ?s (bk_registry b)")
      case (Pair reg out)
      show ?thesis
      proof (cases out)
        case (Inl e)
        then show ?thesis
          using assms(3) version Some lease [OF Some] Pair
          by (cases "hm_contains (sessions (bk_registry b)) (h_connection_id h)")
            (auto simp: open_socket_def lease_plugin_def register_socket_def registry_insert_def id route_for_def Let_def
              simp del: map_of_eq_Some_iff split: if_splits)
      next
        case (Inr u)
        then have "hm_get (sessions (bk_registry b)) (h_connection_id h) = None"
          "hm_get (sockets (bk_registry b)) socket = None"
          using Pair by (auto simp: registry_insert_def id simp del: map_of_eq_Some_iff split: if_splits)
        then show ?thesis
          using assms(3) version Some a
          by (auto simp: open_socket_def lease_plugin_def register_socket_def registry_insert_def id route_for_def Let_def update_conv'
              simp del: map_of_eq_Some_iff)
      qed
    qed
  qed
qed

theorem registration_outcome_witness:
  "\<exists>b'. open_socket 5 5 9 plugin_hello (broker_new config_production 0 :: (bool, bool) broker)
      = (b', Inr True :: unit broker_error + bool) \<and>
     route_for plugin_uuid (bk_registry b') = Some (9, 9)"
proof -
  obtain b' r where run: "open_socket 5 5 9 plugin_hello (broker_new config_production 0 :: (bool, bool) broker)
      = (b', r :: unit broker_error + bool)" by fastforce
  have r: "r = Inr True"
    using run by (auto simp: open_socket_def lease_plugin_def register_socket_def broker_new_def activity_default_def plugin_lease_def
        registry_insert_def registry_new_def Let_def)
  have h: "first_hello Some dec_bool (Some (Inr (WText (Some (js_obj hello_fields)))) :: unit incoming) = Inr plugin_hello"
    by (simp add: hello_decodes) (simp add: plugin_hello_def PLUGIN_PROTOCOL_VERSION_def)
  have "registry_inv (bk_registry (broker_new config_production 0 :: (bool, bool) broker))"
    by (simp add: broker_new_def)
  from registration_outcome [OF this h run] show ?thesis
    unfolding r using run r by (auto simp: plugin_hello_def)
qed

end
