(* ===== verification/Slots.thy ===== *)
theory Slots
  imports Broker
begin

text \<open>
  Who owns the slots of the queues. A ticket is owned by a pending request or by a call between its
  admission to the queue and its admission to the map; it is loose while a call that was abandoned
  there has dropped its \<open>DispatchWait\<close> but not yet the ticket. A receiver is a \<open>DispatchWait\<close> that
  still exists. The invariant below says that the tickets in the queues are exactly the owned ones
  and some loose ones, and that no owned ticket waits without a receiver.
\<close>

type_synonym queues = "uuid \<Rightarrow> queue_inner"

section \<open>What a release does to one queue\<close>

lemma release_effect:
  assumes "queue_inv q" and "queue_release alive t q = (q', gs)"
  shows "set (waiting_ids q') \<subseteq> set (waiting_ids q)"
    and "set (active_ids q') \<subseteq> set (active_ids q) \<union> set gs"
    and "set gs \<subseteq> set (waiting_ids q)"
    and "set gs \<inter> set (waiting_ids q') = {}"
    and "next_id q' = next_id q"
    and "t \<notin> tickets q'" and "tickets q' \<subseteq> tickets q"
proof -
  show "next_id q' = next_id q" using release_next_id [OF assms(1), of alive t] assms(2) by simp
  show "t \<notin> tickets q'" "tickets q' \<subseteq> tickets q"
    using release_tickets(1) [OF assms(1), of alive t] assms(2) by auto
  consider "t \<in> set (waiting_ids q)" | "t \<in> set (active_ids q)" | "t \<notin> tickets q"
    by (auto simp: tickets_def)
  then have "set (waiting_ids q') \<subseteq> set (waiting_ids q) \<and>
    set (active_ids q') \<subseteq> set (active_ids q) \<union> set gs \<and> set gs \<subseteq> set (waiting_ids q) \<and>
    set gs \<inter> set (waiting_ids q') = {}"
  proof cases
    case 1
    then show ?thesis using release_waiting [OF assms(1) 1, of alive] assms(2) by auto
  next
    case 2
    let ?q = "q\<lparr>active := hm_remove t (active q), in_flight := in_flight q - 1\<rparr>"
    have "promote_spec alive ?q (q', gs)"
      unfolding assms(2) [symmetric] release_active(1) [OF assms(1) 2]
      using assms(1) release_active(2) [OF assms(1) 2]
      by (intro promote_meets_spec core_remove_active) (simp_all add: queue_inv_def)
    then obtain skipped where
      active: "active q' = hm_remove t (active q) @ map (\<lambda>i. (i, ())) gs" and
      waiting: "waiting q = skipped @ waiting q'" and
      gs: "gs = filter alive (map waiter_id skipped)"
      by (auto simp: promote_spec_def)
    have "distinct (waiting_ids q)" using assms(1) core_distinct_waiting by (simp add: queue_inv_def)
    then have "set (map waiter_id skipped) \<inter> set (waiting_ids q') = {}" by (simp add: waiting)
    then show ?thesis
      unfolding active waiting gs by (auto simp: delete_keys)
  next
    case 3
    then show ?thesis using assms(2) by (simp add: release_absent)
  qed
  then show "set (waiting_ids q') \<subseteq> set (waiting_ids q)"
    "set (active_ids q') \<subseteq> set (active_ids q) \<union> set gs" "set gs \<subseteq> set (waiting_ids q)"
    "set gs \<inter> set (waiting_ids q') = {}" by blast+
qed

section \<open>The invariant\<close>

text \<open>Queues, granted, owned, loose tickets, receivers.\<close>

definition known :: "ticket list \<Rightarrow> ticket list \<Rightarrow> ticket list \<Rightarrow> ticket list \<Rightarrow> ticket set" where
  "known gr ow lo re = set ow \<union> set lo \<union> set re \<union> set gr"

definition slots_ok ::
    "queues \<Rightarrow> ticket list \<Rightarrow> ticket list \<Rightarrow> ticket list \<Rightarrow> ticket list \<Rightarrow> bool" where
  "slots_ok qs gr ow lo re \<longleftrightarrow>
     (\<forall>q. queue_inv (qs q)) \<and>
     distinct (ow @ lo) \<and> distinct re \<and>
     (\<forall>q t. (q, t) \<in> set ow \<longrightarrow> t \<in> tickets (qs q)) \<and>
     (\<forall>q t. t \<in> tickets (qs q) \<longrightarrow> (q, t) \<in> set ow \<union> set lo) \<and>
     (\<forall>q t. (q, t) \<in> set ow \<longrightarrow> t \<in> set (waiting_ids (qs q)) \<longrightarrow> (q, t) \<in> set re) \<and>
     (\<forall>q t. (q, t) \<in> set gr \<longrightarrow> t \<notin> set (waiting_ids (qs q))) \<and>
     (\<forall>q t. t \<in> set (active_ids (qs q)) \<longrightarrow> (q, t) \<in> set gr) \<and>
     (\<forall>q t. (q, t) \<in> known gr ow lo re \<longrightarrow> t < next_id (qs q))"

text \<open>Selectors, so that the proofs below need not unfold the whole invariant.\<close>

lemma slots_okD:
  assumes "slots_ok qs gr ow lo re"
  shows "queue_inv (qs q)"
    and "distinct (ow @ lo)" and "distinct re"
    and "(q, t) \<in> set ow \<Longrightarrow> t \<in> tickets (qs q)"
    and "t \<in> tickets (qs q) \<Longrightarrow> (q, t) \<in> set ow \<union> set lo"
    and "(q, t) \<in> set ow \<Longrightarrow> t \<in> set (waiting_ids (qs q)) \<Longrightarrow> (q, t) \<in> set re"
    and "(q, t) \<in> set gr \<Longrightarrow> t \<notin> set (waiting_ids (qs q))"
    and "t \<in> set (active_ids (qs q)) \<Longrightarrow> (q, t) \<in> set gr"
    and "(q, t) \<in> known gr ow lo re \<Longrightarrow> t < next_id (qs q)"
  using assms unfolding slots_ok_def by iprover+

lemma slots_okI:
  assumes "\<And>q. queue_inv (qs q)"
    and "distinct (ow @ lo)" and "distinct re"
    and "\<And>q t. (q, t) \<in> set ow \<Longrightarrow> t \<in> tickets (qs q)"
    and "\<And>q t. t \<in> tickets (qs q) \<Longrightarrow> (q, t) \<in> set ow \<union> set lo"
    and "\<And>q t. (q, t) \<in> set ow \<Longrightarrow> t \<in> set (waiting_ids (qs q)) \<Longrightarrow> (q, t) \<in> set re"
    and "\<And>q t. (q, t) \<in> set gr \<Longrightarrow> t \<notin> set (waiting_ids (qs q))"
    and "\<And>q t. t \<in> set (active_ids (qs q)) \<Longrightarrow> (q, t) \<in> set gr"
    and "\<And>q t. (q, t) \<in> known gr ow lo re \<Longrightarrow> t < next_id (qs q)"
  shows "slots_ok qs gr ow lo re"
  using assms unfolding slots_ok_def by iprover

text \<open>The order in which tickets are listed does not matter.\<close>

lemma slots_ok_cong:
  assumes "slots_ok qs gr ow lo re"
    and "mset ow = mset ow'" and "mset lo = mset lo'" and "mset re = mset re'"
  shows "slots_ok qs gr ow' lo' re'"
proof -
  note sets = mset_eq_setD [OF assms(2)] mset_eq_setD [OF assms(3)] mset_eq_setD [OF assms(4)]
  have "mset (ow @ lo) = mset (ow' @ lo')" using assms by simp
  then have "distinct (ow' @ lo')"
    using slots_okD(2) [OF assms(1)] mset_eq_imp_distinct_iff by blast
  moreover have "distinct re'"
    using slots_okD(3) [OF assms(1)] mset_eq_imp_distinct_iff [OF assms(4)] by blast
  ultimately show ?thesis
    using assms(1) unfolding slots_ok_def known_def sets by blast
qed

text \<open>A ticket whose owner lets go of it becomes loose.\<close>

lemma slots_loosen:
  assumes "slots_ok qs gr (tk # ow) lo re"
  shows "slots_ok qs gr ow (tk # lo) re"
proof (rule slots_okI)
  note D = slots_okD [OF assms]
  show "queue_inv (qs q)" for q by (rule D)
  show "distinct (ow @ tk # lo)" "distinct re" using D(2,3) by auto
  show "(q, t) \<in> set ow \<Longrightarrow> t \<in> tickets (qs q)" for q t using D(4) by simp
  show "t \<in> tickets (qs q) \<Longrightarrow> (q, t) \<in> set ow \<union> set (tk # lo)" for q t using D(5) [of t q] by auto
  show "(q, t) \<in> set ow \<Longrightarrow> t \<in> set (waiting_ids (qs q)) \<Longrightarrow> (q, t) \<in> set re" for q t
    using D(6) by simp
  show "(q, t) \<in> known gr ow (tk # lo) re \<Longrightarrow> t < next_id (qs q)" for q t
    using D(9) [of q t] by (auto simp: known_def)
qed (rule slots_okD [OF assms]; assumption)+

text \<open>A receiver may go if its ticket is not owned, or does not wait any more.\<close>

lemma slots_drop_receiver:
  assumes "slots_ok qs gr ow lo ((q, t) # re)"
    and "(q, t) \<notin> set ow \<or> t \<notin> set (waiting_ids (qs q))"
  shows "slots_ok qs gr ow lo re"
proof (rule slots_okI)
  note D = slots_okD [OF assms(1)]
  show "queue_inv (qs q')" for q' by (rule D)
  show "distinct (ow @ lo)" "distinct re" using D(2,3) by auto
  show "(q', t') \<in> set ow \<Longrightarrow> t' \<in> set (waiting_ids (qs q')) \<Longrightarrow> (q', t') \<in> set re" for q' t'
    using D(6) [of q' t'] assms(2) by auto
  show "(q', t') \<in> known gr ow lo re \<Longrightarrow> t' < next_id (qs q')" for q' t'
    using D(9) [of q' t'] by (auto simp: known_def)
qed (rule slots_okD [OF assms(1)]; assumption)+

section \<open>Releasing a ticket\<close>

lemma slots_release:
  assumes ok: "slots_ok qs gr ow ((q, t) # lo) re"
    and alive: "\<And>i. alive i \<longleftrightarrow> (q, i) \<in> set re"
    and release: "queue_release alive t (qs q) = (inner, gs)"
  shows "slots_ok (qs(q := inner)) (gr @ map (Pair q) gs) ow lo re"
proof (rule slots_okI)
  note D = slots_okD [OF ok]
  let ?Q = "qs(q := inner)"
  note E = release_effect [OF D(1) release]
  have notin: "(q, t) \<notin> set ow" "(q, t) \<notin> set lo" using D(2) by auto
  show "queue_inv (?Q q')" for q'
    using D(1) queue_release_inv [OF D(1) [of q], of alive t] release by simp
  show "distinct (ow @ lo)" "distinct re" using D(2,3) by auto
  show "t' \<in> tickets (?Q q')" if *: "(q', t') \<in> set ow" for q' t'
  proof (cases "q' = q")
    case True
    have "t' \<noteq> t" using * True notin(1) by auto
    moreover have held: "t' \<in> tickets (qs q)" using D(4) * True by blast
    moreover have "alive t' \<or> t' \<in> set (active_ids (qs q))"
      using D(6) [of q t'] * True held alive by (auto simp: tickets_def)
    ultimately have "t' \<in> tickets (fst (queue_release alive t (qs q)))"
      using release_tickets(2) [OF D(1) [of q], of t alive] by blast
    then show ?thesis using True release by simp
  qed (use D(4) * in simp)
  show "(q', t') \<in> set ow \<union> set lo" if *: "t' \<in> tickets (?Q q')" for q' t'
  proof (cases "q' = q")
    case True
    then have "t' \<in> tickets (qs q)" "t' \<noteq> t" using * E(6,7) by auto
    then show ?thesis using D(5) [of t' q] True by auto
  qed (use D(5) [of t' q'] * in auto)
  show "(q', t') \<in> set re"
    if "(q', t') \<in> set ow" "t' \<in> set (waiting_ids (?Q q'))" for q' t'
    using D(6) [of q' t'] that E(1) by (cases "q' = q") auto
  show "t' \<notin> set (waiting_ids (?Q q'))" if "(q', t') \<in> set (gr @ map (Pair q) gs)" for q' t'
    using D(7) [of q' t'] that E(1,4) by (cases "q' = q") auto
  show "(q', t') \<in> set (gr @ map (Pair q) gs)" if "t' \<in> set (active_ids (?Q q'))" for q' t'
    using D(8) [of t' q'] that E(2) by (cases "q' = q") auto
  fix q' t'
  assume *: "(q', t') \<in> known (gr @ map (Pair q) gs) ow lo re"
  show "t' < next_id (?Q q')"
  proof (cases "q' = q \<and> t' \<in> set gs")
    case True
    then have "t' \<in> tickets (qs q)" using E(3) by (auto simp: tickets_def)
    then have "(q, t') \<in> known gr ow ((q, t) # lo) re" using D(5) by (auto simp: known_def)
    then show ?thesis using D(9) True E(5) by simp
  next
    case False
    then have "(q', t') \<in> known gr ow ((q, t) # lo) re" using * by (auto simp: known_def)
    then show ?thesis using D(9) [of q' t'] E(5) by (cases "q' = q") auto
  qed
qed

lemma drop_ticket_slots:
  assumes "slots_ok (bk_queue b) (bk_granted b) ow (tk # lo) re"
  shows "slots_ok (bk_queue (drop_ticket (\<lambda>k. k \<in> set re) tk b))
    (bk_granted (drop_ticket (\<lambda>k. k \<in> set re) tk b)) ow lo re"
proof -
  obtain q t where tk: "tk = (q, t)" by (cases tk)
  obtain inner gs where "queue_release (\<lambda>i. (q, i) \<in> set re) t (bk_queue b q) = (inner, gs)"
    by fastforce
  with slots_release [OF assms [unfolded tk] refl this] show ?thesis
    by (simp add: drop_ticket_def tk)
qed

lemma drop_tickets_slots:
  assumes "slots_ok (bk_queue b) (bk_granted b) ow (ts @ lo) re"
  shows "slots_ok (bk_queue (drop_tickets (\<lambda>k. k \<in> set re) ts b))
    (bk_granted (drop_tickets (\<lambda>k. k \<in> set re) ts b)) ow lo re"
  using assms
proof (induction ts arbitrary: b)
  case (Cons tk ts)
  then show ?case using drop_ticket_slots [of b ow tk "ts @ lo" re] by (simp add: drop_tickets_def)
qed (simp add: drop_tickets_def)

lemma slots_loosen_all: "slots_ok qs gr (ts @ ow) lo re \<Longrightarrow> slots_ok qs gr ow (ts @ lo) re"
proof (induction ts arbitrary: lo)
  case (Cons tk ts)
  then have "slots_ok qs gr ow (ts @ tk # lo) re" using slots_loosen [of qs gr tk "ts @ ow"] by simp
  then show ?case by (rule slots_ok_cong) simp_all
qed simp

text \<open>
  The main step: an operation of the pending map that gives up the tickets \<open>ts\<close>, then dropped.
\<close>

lemma settle_slots:
  assumes "slots_ok (bk_queue b) (bk_granted b) (held_tickets (bk_pending b) @ ow) lo re"
    and "mset (held_tickets (bk_pending b)) = mset (held_tickets m) + mset ts"
  shows "slots_ok (bk_queue (settle (\<lambda>k. k \<in> set re) m ds ts b))
    (bk_granted (settle (\<lambda>k. k \<in> set re) m ds ts b)) (held_tickets m @ ow) lo re"
proof -
  have "slots_ok (bk_queue b) (bk_granted b) (ts @ held_tickets m @ ow) lo re"
    by (rule slots_ok_cong [OF assms(1)]) (simp_all add: assms(2))
  then have "slots_ok (bk_queue b) (bk_granted b) (held_tickets m @ ow) (ts @ lo) re"
    by (rule slots_loosen_all)
  then show ?thesis unfolding settle_def by (intro drop_tickets_slots) simp
qed

section \<open>Entering a queue\<close>

lemma enqueue_effect:
  assumes "queue_inv q" and "try_enqueue q = (q', Inr t, gs)"
  shows "t = next_id q" and "next_id q' = sat_succ (next_id q)"
    and "tickets q' = insert t (tickets q)"
    and "set (active_ids q') = set (active_ids q) \<union> set gs"
    and "set (waiting_ids q') = set (waiting_ids q) \<union> ({t} - set gs)"
    and "set gs \<subseteq> {t}"
proof -
  have fresh: "map_of (active q) (next_id q) = None"
    using assms(1) core_active_fresh by (simp add: queue_inv_def)
  show "t = next_id q" "next_id q' = sat_succ (next_id q)"
    "set (active_ids q') = set (active_ids q) \<union> set gs"
    "set (waiting_ids q') = set (waiting_ids q) \<union> ({t} - set gs)" "set gs \<subseteq> {t}"
    using assms(2) fresh by (auto simp: try_enqueue_def Let_def hm_insert_fresh split: if_splits)
  show "tickets q' = insert t (tickets q)" using try_enqueue_tickets [OF assms(1)] assms(2) by simp
qed

lemma enqueue_refused:
  "try_enqueue q = (q', Inl e, gs) \<Longrightarrow> q' = q\<lparr>next_id := sat_succ (next_id q)\<rparr> \<and> gs = []"
  by (auto simp: try_enqueue_def Let_def split: if_splits)

lemma slots_enqueue:
  assumes ok: "slots_ok qs gr ow lo re" and room: "next_id (qs q) \<noteq> - 1"
    and enq: "try_enqueue (qs q) = (inner, Inr t, gs)"
  shows "slots_ok (qs(q := inner)) (gr @ map (Pair q) gs) ((q, t) # ow) lo ((q, t) # re)"
proof (rule slots_okI)
  note D = slots_okD [OF ok]
  note E = enqueue_effect [OF D(1) enq]
  let ?Q = "qs(q := inner)"
  have below: "next_id (qs q) < next_id inner" using sat_succ_below [OF room] E(2) by simp
  have fresh: "(q, t) \<notin> known gr ow lo re" using D(9) [of q t] E(1) by auto
  show "queue_inv (?Q q')" for q'
    using D(1) try_enqueue_inv [OF D(1) room] enq by simp
  show "distinct (((q, t) # ow) @ lo)" "distinct ((q, t) # re)"
    using D(2,3) fresh by (auto simp: known_def)
  show "t' \<in> tickets (?Q q')" if "(q', t') \<in> set ((q, t) # ow)" for q' t'
    using that D(4) [of q' t'] E(3) by (cases "q' = q") auto
  show "(q', t') \<in> set ((q, t) # ow) \<union> set lo" if "t' \<in> tickets (?Q q')" for q' t'
    using that D(5) [of t' q'] E(3) by (cases "q' = q") auto
  show "(q', t') \<in> set ((q, t) # re)"
    if "(q', t') \<in> set ((q, t) # ow)" "t' \<in> set (waiting_ids (?Q q'))" for q' t'
    using that D(6) [of q' t'] E(5) by (cases "q' = q") auto
  show "t' \<notin> set (waiting_ids (?Q q'))" if *: "(q', t') \<in> set (gr @ map (Pair q) gs)" for q' t'
  proof (cases "q' = q")
    case True
    have "t \<notin> set (waiting_ids (qs q))" using core_fresh [of "qs q"] D(1) [of q] E(1)
      by (auto simp: queue_inv_def tickets_def)
    moreover have "(q, t) \<notin> set gr" using fresh by (simp add: known_def)
    ultimately show ?thesis
      using * True D(7) [of q t'] E(5,6) by auto
  qed (use * D(7) [of q' t'] in auto)
  show "(q', t') \<in> set (gr @ map (Pair q) gs)" if "t' \<in> set (active_ids (?Q q'))" for q' t'
    using that D(8) [of t' q'] E(4) by (cases "q' = q") auto
  fix q' t'
  assume *: "(q', t') \<in> known (gr @ map (Pair q) gs) ((q, t) # ow) lo ((q, t) # re)"
  show "t' < next_id (?Q q')"
  proof (cases "(q', t') = (q, t)")
    case True
    then show ?thesis using E(1) below by simp
  next
    case False
    then have "(q', t') \<in> known gr ow lo re" using * E(6) by (auto simp: known_def)
    then have "t' < next_id (qs q')" by (rule D(9))
    then show ?thesis using below by (cases "q' = q") (auto intro: order.strict_trans)
  qed
qed

lemma slots_enqueue_refused:
  assumes ok: "slots_ok qs gr ow lo re" and room: "next_id (qs q) \<noteq> - 1"
    and enq: "try_enqueue (qs q) = (inner, Inl e, gs)"
  shows "slots_ok (qs(q := inner)) (gr @ map (Pair q) gs) ow lo re"
proof (rule slots_okI)
  note D = slots_okD [OF ok]
  let ?Q = "qs(q := inner)"
  have inner: "inner = (qs q)\<lparr>next_id := sat_succ (next_id (qs q))\<rparr>" and gs: "gs = []"
    using enqueue_refused [OF enq] by simp_all
  have same: "tickets (?Q q') = tickets (qs q')" "waiting_ids (?Q q') = waiting_ids (qs q')"
    "active_ids (?Q q') = active_ids (qs q')" for q'
    by (simp_all add: inner tickets_def)
  have below: "next_id (qs q') \<le> next_id (?Q q')" for q'
    using less_imp_le [OF sat_succ_below [OF room]] by (simp add: inner)
  show "queue_inv (?Q q')" for q'
    using D(1) try_enqueue_inv [OF D(1) room] enq by simp
  show "distinct (ow @ lo)" "distinct re" by (rule D)+
  show "t < next_id (?Q q')" if *: "(q', t) \<in> known (gr @ map (Pair q) gs) ow lo re" for q' t
    using D(9) [of q' t] that below [of q'] by (auto simp: gs intro: order.strict_trans2)
  show "(q', t) \<in> set ow \<Longrightarrow> t \<in> tickets (?Q q')"
    "t \<in> tickets (?Q q') \<Longrightarrow> (q', t) \<in> set ow \<union> set lo"
    "(q', t) \<in> set ow \<Longrightarrow> t \<in> set (waiting_ids (?Q q')) \<Longrightarrow> (q', t) \<in> set re"
    "(q', t) \<in> set (gr @ map (Pair q) gs) \<Longrightarrow> t \<notin> set (waiting_ids (?Q q'))"
    "t \<in> set (active_ids (?Q q')) \<Longrightarrow> (q', t) \<in> set (gr @ map (Pair q) gs)" for q' t
    unfolding same gs list.map append_Nil2 by (rule D; assumption)+
qed

end
