(* ===== verification/System.thy ===== *)
theory System
  imports Socket Slots
begin

text \<open>
  The broker as a whole: the calls in progress, the sockets being registered and served, the serve loops
  and the cancel messages still to be sent, as tasks that interleave at the points where the code waits for
  a lock. A task is the program point it stands at; an event lets one task take its next step. Sockets are
  numbered in the order they register, which stands for the freshness of \<open>Uuid::new_v4\<close>.
\<close>

section \<open>Tasks\<close>

text \<open>
  A call between routing and the map of queues, with its queue in hand, between the queue and the pending
  map, waiting for its slot (by then a task of its own), or abandoned by its caller while it held a ticket
  that nothing else owned: the receiver is dropped before the ticket.
\<close>

datatype call_at =
    AtRoute | AtEnqueue uuid | AtAdmit ticket | AtWait ticket | AtDropTicket ticket

record 'i call =
  cl_connection :: string
  cl_request :: "'i request"
  cl_socket :: uuid
  cl_outbound :: uuid
  cl_at :: call_at

text \<open>
  A socket after its registration, in its loop, with a message it has read and not yet handled, and in the
  steps of its cleanup.
\<close>

datatype 'r socket_at =
    AtInstall | AtLoop ws_state | AtHandle ws_state "'r plugin_to_broker"
  | AtCleanRegistry | AtCleanPending | AtCleanQueue | AtClose

text \<open>A cancel message to be sent: for a request that expired on a socket, or on a channel a caller has.\<close>

datatype notice = NoticeExpired uuid string | NoticeCancel uuid string

text \<open>
  The sockets that hold a lease and are not registered yet are known by their hello. The histories at the
  end are not read by any step: the connection a socket registered as, the requests put on an outbound
  channel with their tickets, what each call returned, and what was written to each socket.
\<close>

record ('i, 'r) system =
  sy_broker :: "('i, 'r) broker"
  sy_calls :: "(nat, 'i call) hash_map"
  sy_joining :: "hello list"
  sy_sockets :: "(uuid, 'r socket_at) hash_map"
  sy_notices :: "notice list"
  sy_next_socket :: uuid
  sy_identity :: "uuid \<Rightarrow> string"
  sy_dispatched :: "(ticket \<times> string \<times> 'i request) list"
  sy_returns :: "(nat \<times> (tool_error + open_call)) list"
  sy_written :: "(uuid \<times> 'i ws_out) list"

definition system_new :: "broker_config \<Rightarrow> instant \<Rightarrow> ('i, 'r) system" where
  "system_new config now =
     \<lparr>sy_broker = broker_new config now, sy_calls = [], sy_joining = [], sy_sockets = [], sy_notices = [],
      sy_next_socket = 0, sy_identity = (\<lambda>_. []), sy_dispatched = [], sy_returns = [], sy_written = []\<rparr>"

definition collect :: "('v \<Rightarrow> 'a list) \<Rightarrow> ('k, 'v) hash_map \<Rightarrow> 'a list" where
  "collect f m = concat (map (f \<circ> snd) m)"

fun at_owned :: "call_at \<Rightarrow> ticket list" where
  "at_owned (AtAdmit tk) = [tk]"
| "at_owned _ = []"

fun at_loose :: "call_at \<Rightarrow> ticket list" where
  "at_loose (AtDropTicket tk) = [tk]"
| "at_loose _ = []"

fun at_receiver :: "call_at \<Rightarrow> ticket list" where
  "at_receiver (AtAdmit tk) = [tk]"
| "at_receiver (AtWait tk) = [tk]"
| "at_receiver _ = []"

abbreviation receivers :: "(nat, 'i call) hash_map \<Rightarrow> ticket list" where
  "receivers calls \<equiv> collect (at_receiver \<circ> cl_at) calls"

definition alive_in :: "(nat, 'i call) hash_map \<Rightarrow> ticket \<Rightarrow> bool" where
  "alive_in calls = (\<lambda>tk. tk \<in> set (receivers calls))"

section \<open>Steps\<close>

text \<open>
  What the receiver of a ticket reads: a grant, or the loss of its sender once the ticket has left
  the queue; the outer \<^const>\<open>None\<close> while it still waits.
\<close>

definition received :: "ticket \<Rightarrow> ('i, 'r) broker \<Rightarrow> (queue_error + unit) option option" where
  "received tk b =
     (if tk \<in> set (bk_granted b) then Some (Some (Inr ()))
      else if snd tk \<in> set (waiting_ids (bk_queue b (fst tk))) then None
      else Some None)"

definition call_step ::
    "('i \<Rightarrow> json option) \<Rightarrow> nat \<Rightarrow> instant \<Rightarrow> nat \<Rightarrow> nat \<Rightarrow> 'i call \<Rightarrow> ('i, 'r) system
      \<Rightarrow> ('i, 'r) system" where
  "call_step ei c now started progress call sy =
     (let b = sy_broker sy; calls = sy_calls sy; request = cl_request call in
      case cl_at call of
        AtRoute \<Rightarrow>
          (case invoke_queue (cl_socket call) b of
             Inl e \<Rightarrow>
               sy\<lparr>sy_calls := hm_remove c calls, sy_returns := sy_returns sy @ [(c, Inl e)]\<rparr>
           | Inr queue \<Rightarrow> sy\<lparr>sy_calls := hm_insert c (call\<lparr>cl_at := AtEnqueue queue\<rparr>) calls\<rparr>)
      | AtEnqueue queue \<Rightarrow>
          (case queue_enter queue b of
             (b, Inl e) \<Rightarrow>
               sy\<lparr>sy_broker := b, sy_calls := hm_remove c calls,
                  sy_returns := sy_returns sy @ [(c, Inl e)]\<rparr>
           | (b, Inr tk) \<Rightarrow>
               sy\<lparr>sy_broker := b, sy_calls := hm_insert c (call\<lparr>cl_at := AtAdmit tk\<rparr>) calls\<rparr>)
      | AtAdmit tk \<Rightarrow>
          (case invoke_admit (alive_in calls) now started progress (cl_connection call)
              (cl_socket call) tk (rq_request_id request) b of
             (b, Inl e) \<Rightarrow>
               sy\<lparr>sy_broker := b, sy_calls := hm_remove c calls,
                  sy_returns := sy_returns sy @ [(c, Inl e)]\<rparr>
           | (b, Inr opened) \<Rightarrow>
               sy\<lparr>sy_broker := b, sy_calls := hm_insert c (call\<lparr>cl_at := AtWait tk\<rparr>) calls,
                  sy_returns := sy_returns sy @ [(c, Inr opened)]\<rparr>)
      | AtWait tk \<Rightarrow>
          (case received tk b of
             None \<Rightarrow> sy
           | Some r \<Rightarrow>
               (let calls = hm_remove c calls in
                case dispatch ei (alive_in calls) r (cl_socket call) (cl_outbound call) request b of
                  (b, sent) \<Rightarrow>
                    sy\<lparr>sy_broker := b, sy_calls := calls,
                       sy_dispatched := sy_dispatched sy @
                         (if sent = Some (Inr ()) then [(tk, cl_connection call, request)] else [])\<rparr>))
      | AtDropTicket tk \<Rightarrow>
          sy\<lparr>sy_broker := drop_ticket (alive_in calls) tk b, sy_calls := hm_remove c calls\<rparr>)"

definition abandon_step :: "nat \<Rightarrow> 'i call \<Rightarrow> ('i, 'r) system \<Rightarrow> ('i, 'r) system" where
  "abandon_step c call sy = (case cl_at call of
     AtRoute \<Rightarrow> sy\<lparr>sy_calls := hm_remove c (sy_calls sy)\<rparr>
   | AtEnqueue queue \<Rightarrow> sy\<lparr>sy_calls := hm_remove c (sy_calls sy)\<rparr>
   | AtAdmit tk \<Rightarrow> sy\<lparr>sy_calls := hm_insert c (call\<lparr>cl_at := AtDropTicket tk\<rparr>) (sy_calls sy)\<rparr>
   | _ \<Rightarrow> sy)"

definition socket_step ::
    "('i \<Rightarrow> json option) \<Rightarrow> (string \<Rightarrow> string option) \<Rightarrow> (json \<Rightarrow> 'r option) \<Rightarrow> 'w readiness \<Rightarrow> uuid
      \<Rightarrow> 'r socket_at \<Rightarrow> ('i, 'r) system \<Rightarrow> ('i, 'r) system" where
  "socket_step ei hyphenated dr rd s at sy =
     (let b = sy_broker sy; alive = alive_in (sy_calls sy);
          goto = (\<lambda>at b. sy\<lparr>sy_broker := b, sy_sockets := hm_insert s at (sy_sockets sy)\<rparr>);
          turned = (\<lambda>st r. case r of Continue st' \<Rightarrow> AtLoop st' | Break _ \<Rightarrow> AtCleanRegistry | Blocked \<Rightarrow> AtLoop st) in
      case at of
        AtInstall \<Rightarrow>
          goto (AtLoop \<lparr>ws_last_seen = rd_now rd, ws_nonce = 0\<rparr>) (install_queue s b)
      | AtLoop st \<Rightarrow>
          (case turn_message hyphenated dr rd s b of
             Some message \<Rightarrow>
               goto (AtHandle (st\<lparr>ws_last_seen := rd_now rd\<rparr>) message) (touch s (rd_now rd) (rd_wall rd) b)
           | None \<Rightarrow>
               (case socket_turn ei hyphenated dr alive rd s st b of
                  (b, out, r) \<Rightarrow>
                    (goto (turned st r) b)\<lparr>sy_written := sy_written sy @ map (Pair s) out\<rparr>))
      | AtHandle st message \<Rightarrow>
          (case handle_message alive (rd_now rd) s message b :: ('i, 'r) broker \<times> ('w broker_error + unit) of
             (b, r) \<Rightarrow> goto (turned st (after_send st r)) b)
      | AtCleanRegistry \<Rightarrow> goto AtCleanPending (cleanup_registry s b)
      | AtCleanPending \<Rightarrow> goto AtCleanQueue (cleanup_pending alive s b)
      | AtCleanQueue \<Rightarrow> goto AtClose (cleanup_queue s b)
      | AtClose \<Rightarrow>
          sy\<lparr>sy_broker := close_socket s b, sy_sockets := hm_remove s (sy_sockets sy)\<rparr>)"

text \<open>A connection up to its lease, and its registration under the next number.\<close>

definition connect_step ::
    "(string \<Rightarrow> string option) \<Rightarrow> (json \<Rightarrow> 'r option) \<Rightarrow> 'w incoming \<Rightarrow> ('i, 'r) system
      \<Rightarrow> ('i, 'r) system" where
  "connect_step hyphenated dr first sy =
     (case first_hello hyphenated dr first of
        Inl _ \<Rightarrow> sy
      | Inr h \<Rightarrow> (case lease_plugin (sy_broker sy) of
          None \<Rightarrow> sy
        | Some b \<Rightarrow> sy\<lparr>sy_broker := b, sy_joining := sy_joining sy @ [h]\<rparr>))"

definition register_step :: "nat \<Rightarrow> instant \<Rightarrow> int \<Rightarrow> ('i, 'r) system \<Rightarrow> ('i, 'r) system" where
  "register_step n now wall sy =
     (if n < length (sy_joining sy) then
        (let h = sy_joining sy ! n; s = sy_next_socket sy; joining = remove_at n (sy_joining sy) in
         case register_socket now wall s h (sy_broker sy) :: ('i, 'r) broker \<times> (unit broker_error + unit) of
           (b, Inl _) \<Rightarrow> sy\<lparr>sy_broker := b, sy_joining := joining\<rparr>
         | (b, Inr _) \<Rightarrow>
             sy\<lparr>sy_broker := b, sy_joining := joining, sy_sockets := hm_insert s AtInstall (sy_sockets sy),
                sy_next_socket := Suc s, sy_identity := (sy_identity sy)(s := h_connection_id h)\<rparr>)
      else sy)"

fun send_notice :: "notice \<Rightarrow> ('i, 'r) broker \<Rightarrow> ('i, 'r) broker" where
  "send_notice (NoticeExpired socket request_id) b = notify_expired (socket, request_id) b"
| "send_notice (NoticeCancel outbound request_id) b = try_send_cancel outbound request_id b"

definition notify_step :: "nat \<Rightarrow> ('i, 'r) system \<Rightarrow> ('i, 'r) system" where
  "notify_step n sy =
     (if n < length (sy_notices sy)
      then sy\<lparr>sy_broker := send_notice (sy_notices sy ! n) (sy_broker sy), sy_notices := remove_at n (sy_notices sy)\<rparr>
      else sy)"

text \<open>
  The events. A cancellation carries the route it read earlier, which may be out of date. Events of
  a task that does not exist do nothing. The loss of the pending requests at the end of the serve loop and
  in \<open>shutdown\<close>, after the flag is raised, is the same step.
\<close>

datatype ('i, 'w) event =
    EvInvoke nat string "'i request"
  | EvCall nat instant nat nat
  | EvAbandon nat
  | EvCancel uuid uuid string
  | EvConnect "'w incoming"
  | EvRegister nat instant int
  | EvSocket uuid "'w readiness"
  | EvServe "'w serve_input"
  | EvNotify nat
  | EvServeEnd
  | EvShutdown

fun system_step ::
    "('i \<Rightarrow> json option) \<Rightarrow> (string \<Rightarrow> string option) \<Rightarrow> (json \<Rightarrow> 'r option)
      \<Rightarrow> ('i, 'r) system \<Rightarrow> ('i, 'w) event \<Rightarrow> ('i, 'r) system" where
  "system_step ei hyphenated dr sy (EvInvoke c connection_id request) =
     (if hm_contains (sy_calls sy) c then sy
      else case invoke_route connection_id (sy_broker sy) of
        Inl e \<Rightarrow> sy\<lparr>sy_returns := sy_returns sy @ [(c, Inl e)]\<rparr>
      | Inr (socket, outbound) \<Rightarrow>
          sy\<lparr>sy_calls := hm_insert c
               \<lparr>cl_connection = connection_id, cl_request = request, cl_socket = socket,
                cl_outbound = outbound, cl_at = AtRoute\<rparr> (sy_calls sy)\<rparr>)"
| "system_step ei hyphenated dr sy (EvCall c now started progress) =
     (case hm_get (sy_calls sy) c of
        None \<Rightarrow> sy
      | Some call \<Rightarrow> call_step ei c now started progress call sy)"
| "system_step ei hyphenated dr sy (EvAbandon c) =
     (case hm_get (sy_calls sy) c of None \<Rightarrow> sy | Some call \<Rightarrow> abandon_step c call sy)"
| "system_step ei hyphenated dr sy (EvCancel socket outbound request_id) =
     (case cancel_pending (alive_in (sy_calls sy)) socket request_id (sy_broker sy) of
        (b, found) \<Rightarrow>
          sy\<lparr>sy_broker := b,
             sy_notices := sy_notices sy @ (if found then [NoticeCancel outbound request_id] else [])\<rparr>)"
| "system_step ei hyphenated dr sy (EvConnect first) = connect_step hyphenated dr first sy"
| "system_step ei hyphenated dr sy (EvRegister n now wall) = register_step n now wall sy"
| "system_step ei hyphenated dr sy (EvSocket s rd) =
     (case hm_get (sy_sockets sy) s of
        None \<Rightarrow> sy
      | Some at \<Rightarrow> socket_step ei hyphenated dr rd s at sy)"
| "system_step ei hyphenated dr sy (EvServe inp) =
     (case serve_turn (alive_in (sy_calls sy)) inp (sy_broker sy) of
        (b, expired, _) \<Rightarrow>
          sy\<lparr>sy_broker := b,
             sy_notices := sy_notices sy @ map (\<lambda>(socket, request_id). NoticeExpired socket request_id) expired\<rparr>)"
| "system_step ei hyphenated dr sy (EvNotify n) = notify_step n sy"
| "system_step ei hyphenated dr sy EvServeEnd =
     sy\<lparr>sy_broker := serve_end (alive_in (sy_calls sy)) (sy_broker sy)\<rparr>"
| "system_step ei hyphenated dr sy EvShutdown =
     sy\<lparr>sy_broker := (sy_broker sy)\<lparr>bk_shutdown := True\<rparr>\<rparr>"

text \<open>A shutdown is the raised flag and then the loss of what is pending.\<close>

lemma shutdown_in_two:
  "broker_shutdown alive b = serve_end alive (b\<lparr>bk_shutdown := True\<rparr>)"
  by (simp add: broker_shutdown_def serve_end_def)

end
