(* ===== verification/Ownership.thy ===== *)
theory Ownership
  imports System
begin

text \<open>
  The invariant of the whole broker: who owns which slot, that every pending request will be
  answered once, that queues, sessions and calls name the socket they belong to, and what is known
  of the requests dispatched so far. Each part is a predicate on the components it reads, and each
  kind of step preserves them all.
\<close>

section \<open>Collected lists\<close>

lemma collect_insert_fresh:
  "hm_get m k = None \<Longrightarrow> collect f (hm_insert k v m) = collect f m @ f v"
  by (simp add: collect_def hm_insert_fresh)

lemma collect_Cons: "collect f ((k, v) # m) = f v @ collect f m"
  by (simp add: collect_def)

lemma mset_collect_remove:
  assumes "hm_ok m" and "hm_get m k = Some v"
  shows "mset (collect f m) = mset (f v) + mset (collect f (hm_remove k m))"
  using assms
proof (induction m)
  case (Cons kv m)
  obtain k' v' where kv: "kv = (k', v')" by (cases kv)
  show ?case
  proof (cases "k' = k")
    case True
    then have "hm_remove k m = m" using Cons.prems(1) kv
      by (intro hm_remove_absent) (simp add: map_of_eq_None_iff)
    then show ?thesis using True Cons.prems(2) kv by (simp add: collect_Cons)
  next
    case False
    then show ?thesis using Cons kv by (simp add: collect_Cons)
  qed
qed simp

lemma mset_collect_update:
  assumes "hm_ok m" and "hm_get m k = Some v"
  shows "mset (collect f (hm_insert k v' m)) = mset (f v') + mset (collect f (hm_remove k m))"
  using assms
proof (induction m)
  case (Cons kv m)
  obtain k' u where kv: "kv = (k', u)" by (cases kv)
  show ?case
  proof (cases "k' = k")
    case True
    then have "hm_remove k m = m" using Cons.prems(1) kv
      by (intro hm_remove_absent) (simp add: map_of_eq_None_iff)
    then show ?thesis using True kv by (simp add: collect_Cons)
  next
    case False
    then show ?thesis using Cons kv by (simp add: collect_Cons)
  qed
qed simp

lemma set_collect: "x \<in> set (collect f m) \<longleftrightarrow> (\<exists>k v. (k, v) \<in> set m \<and> x \<in> set (f v))"
  by (force simp: collect_def)

lemma held_tickets_collect: "held_tickets m = collect (opt_list \<circ> pr_ticket) m"
  by (simp add: held_tickets_def collect_def comp_assoc)

section \<open>Operations that empty the pending map\<close>

definition drains :: "pending_map \<Rightarrow> pending_map \<Rightarrow> 'r deliveries \<Rightarrow> ticket list \<Rightarrow> bool" where
  "drains m m' ds ts \<longleftrightarrow>
     (\<exists>P. m' = filter P m) \<and>
     mset (senders m) = mset (senders m') + mset (map fst ds) \<and>
     mset (held_tickets m) = mset (held_tickets m') + mset ts"

lemma drains_refl [simp]: "drains m m [] []"
proof -
  have "\<exists>P. m = filter P m" by (rule exI [of _ "\<lambda>_. True"]) simp
  then show ?thesis by (simp add: drains_def)
qed

lemma complete_drains:
  assumes "keyed_ok m" and "pending_complete s r result m = (m', found, ds, ts)"
  shows "drains m m' ds ts"
proof (cases "hm_get m (s, r)")
  case None
  then show ?thesis using assms(2) by (auto simp: pending_complete_def)
next
  case (Some e)
  have "hm_ok m" using assms(1) by (simp add: keyed_ok_def)
  note split = mset_remove_split [OF this Some]
  show ?thesis
    using assms(2) split Some
    by (auto simp: pending_complete_def drains_def hm_remove_as_filter)
qed

lemma cancel_drains:
  "keyed_ok m \<Longrightarrow> pending_cancel s r m = (m', found, ds, ts) \<Longrightarrow> drains m m' ds ts"
  unfolding pending_cancel_def by (rule complete_drains)

lemma filter_drains:
  "drains m (filter (\<lambda>x. \<not> P x) m) (map (\<lambda>c. (c, Inl e)) (senders (filter P m)))
     (held_tickets (filter P m))"
  using mset_filter_split [of P m] by (auto simp: drains_def comp_def add.commute)

lemma remove_matching_drains:
  assumes "keyed_ok m" and "remove_matching P code m = (m', n, ds, ts)"
  shows "drains m m' ds ts"
proof -
  have "hm_ok m" using assms(1) by (simp add: keyed_ok_def)
  then show ?thesis
    using assms(2) filter_drains [of m "\<lambda>(k, p). P p"]
    by (auto simp: remove_matching_eq case_prod_unfold)
qed

lemma take_expired_drains:
  assumes "keyed_ok m" and "take_expired now m = (m', ks, ds, ts)"
  shows "drains m m' ds ts"
proof -
  have "hm_ok m" using assms(1) by (simp add: keyed_ok_def)
  then show ?thesis
    using assms(2) filter_drains [of m "\<lambda>(k, p). is_expired now p"]
    by (auto simp: take_expired_eq case_prod_unfold)
qed

lemmas pending_drains = complete_drains cancel_drains take_expired_drains
  remove_matching_drains [folded pending_remove_socket_def]

section \<open>The parts of the invariant\<close>

definition pend_ok :: "pending_map \<Rightarrow> nat \<Rightarrow> 'r deliveries \<Rightarrow> bool" where
  "pend_ok m channels results \<longleftrightarrow>
     keyed_ok m \<and> (\<forall>(k, p) \<in> set m. \<exists>t. pr_ticket p = Some (pr_socket p, t)) \<and>
     mset (senders m) + mset (map fst results) = mset [0..<channels]"

definition queues_ok :: "(uuid, uuid) hash_map \<Rightarrow> queues \<Rightarrow> (uuid, 'r socket_at) hash_map \<Rightarrow> uuid \<Rightarrow> bool" where
  "queues_ok qs queue tasks fresh \<longleftrightarrow>
     (\<forall>s q. hm_get qs s = Some q \<longrightarrow> q = s \<and> s < fresh \<and> hm_get tasks s \<noteq> Some AtInstall) \<and>
     (\<forall>s. fresh \<le> s \<or> hm_get tasks s = Some AtInstall \<longrightarrow> queue s = queue_new) \<and>
     (\<forall>s at. hm_get tasks s = Some at \<longrightarrow> s < fresh)"

definition regs_ok :: "registry \<Rightarrow> (uuid \<Rightarrow> string) \<Rightarrow> uuid \<Rightarrow> bool" where
  "regs_ok r identity fresh \<longleftrightarrow>
     registry_inv r \<and>
     (\<forall>c s. hm_get (sessions r) c = Some s \<longrightarrow>
        s_outbound s = s_socket_id s \<and> identity (s_socket_id s) = c \<and> s_socket_id s < fresh)"

fun at_tickets :: "call_at \<Rightarrow> ticket set" where
  "at_tickets AtRoute = {}"
| "at_tickets (AtEnqueue q) = {}"
| "at_tickets (AtAdmit tk) = {tk}"
| "at_tickets (AtWait tk) = {tk}"
| "at_tickets (AtDropTicket tk) = {tk}"

definition call_ok :: "(uuid \<Rightarrow> string) \<Rightarrow> uuid \<Rightarrow> 'i call \<Rightarrow> bool" where
  "call_ok identity fresh call \<longleftrightarrow>
     cl_outbound call = cl_socket call \<and> identity (cl_socket call) = cl_connection call \<and>
     cl_socket call < fresh \<and> (\<forall>tk \<in> at_tickets (cl_at call). fst tk = cl_socket call) \<and>
     (\<forall>q. cl_at call = AtEnqueue q \<longrightarrow> q = cl_socket call)"

definition calls_ok :: "(nat, 'i call) hash_map \<Rightarrow> (uuid \<Rightarrow> string) \<Rightarrow> uuid \<Rightarrow> bool" where
  "calls_ok calls identity fresh \<longleftrightarrow>
     hm_ok calls \<and> (\<forall>c call. hm_get calls c = Some call \<longrightarrow> call_ok identity fresh call)"

text \<open>A call that has found a queue has found an installed one, which may have left the map since.\<close>

definition entering_ok :: "(nat, 'i call) hash_map \<Rightarrow> (uuid, 'r socket_at) hash_map \<Rightarrow> bool" where
  "entering_ok calls tasks \<longleftrightarrow>
     (\<forall>c call q. hm_get calls c = Some call \<and> cl_at call = AtEnqueue q \<longrightarrow> hm_get tasks q \<noteq> Some AtInstall)"

definition dispatched_ok ::
    "(ticket \<times> string \<times> 'i request) list \<Rightarrow> ticket list \<Rightarrow> ticket list \<Rightarrow> (uuid \<Rightarrow> string) \<Rightarrow> uuid \<Rightarrow> bool"
  where
  "dispatched_ok dispatched re gr identity fresh \<longleftrightarrow>
     distinct (map fst dispatched) \<and>
     (\<forall>(tk, connection_id, request) \<in> set dispatched.
        tk \<in> set gr \<and> tk \<notin> set re \<and> identity (fst tk) = connection_id \<and> fst tk < fresh)"

definition sys_slots :: "('i, 'r) broker \<Rightarrow> (nat, 'i call) hash_map \<Rightarrow> bool" where
  "sys_slots b calls \<longleftrightarrow>
     slots_ok (bk_queue b) (bk_granted b)
       (held_tickets (bk_pending b) @ collect (at_owned \<circ> cl_at) calls)
       (collect (at_loose \<circ> cl_at) calls) (receivers calls)"

definition sys_inv :: "('i, 'r) system \<Rightarrow> bool" where
  "sys_inv sy \<longleftrightarrow>
     sys_slots (sy_broker sy) (sy_calls sy) \<and>
     pend_ok (bk_pending (sy_broker sy)) (bk_channels (sy_broker sy)) (bk_results (sy_broker sy)) \<and>
     queues_ok (bk_queues (sy_broker sy)) (bk_queue (sy_broker sy)) (sy_sockets sy)
       (sy_next_socket sy) \<and>
     regs_ok (bk_registry (sy_broker sy)) (sy_identity sy) (sy_next_socket sy) \<and>
     calls_ok (sy_calls sy) (sy_identity sy) (sy_next_socket sy) \<and>
     dispatched_ok (sy_dispatched sy) (receivers (sy_calls sy)) (bk_granted (sy_broker sy))
       (sy_identity sy) (sy_next_socket sy) \<and>
     entering_ok (sy_calls sy) (sy_sockets sy)"

lemma sys_invD:
  assumes "sys_inv sy"
  shows "sys_slots (sy_broker sy) (sy_calls sy)"
    and "pend_ok (bk_pending (sy_broker sy)) (bk_channels (sy_broker sy)) (bk_results (sy_broker sy))"
    and "queues_ok (bk_queues (sy_broker sy)) (bk_queue (sy_broker sy)) (sy_sockets sy)
       (sy_next_socket sy)"
    and "regs_ok (bk_registry (sy_broker sy)) (sy_identity sy) (sy_next_socket sy)"
    and "calls_ok (sy_calls sy) (sy_identity sy) (sy_next_socket sy)"
    and "dispatched_ok (sy_dispatched sy) (receivers (sy_calls sy)) (bk_granted (sy_broker sy))
       (sy_identity sy) (sy_next_socket sy)"
    and "keyed_ok (bk_pending (sy_broker sy))"
    and "entering_ok (sy_calls sy) (sy_sockets sy)"
  using assms by (simp_all add: sys_inv_def pend_ok_def)

lemma system_new_inv [simp]: "sys_inv (system_new config now)"
  by (simp add: sys_inv_def system_new_def broker_new_def sys_slots_def slots_ok_def known_def
      held_tickets_def collect_def pend_ok_def keyed_ok_def senders_def queues_ok_def regs_ok_def
      calls_ok_def dispatched_ok_def entering_ok_def)
    (simp add: registry_new_def queue_new_def)

section \<open>Steps of the broker that settle\<close>

lemma drop_ticket_fresh:
  "bk_queue b s = queue_new \<Longrightarrow> bk_queue (drop_ticket alive tk b) s = queue_new"
  by (cases tk) (auto simp: drop_ticket_def release_absent split: prod.splits)

lemma drop_tickets_fresh:
  "bk_queue b s = queue_new \<Longrightarrow> bk_queue (drop_tickets alive ts b) s = queue_new"
  unfolding drop_tickets_def by (induction ts arbitrary: b) (auto simp: drop_ticket_fresh)

lemma drop_tickets_granted: "set (bk_granted b) \<subseteq> set (bk_granted (drop_tickets alive ts b))"
  unfolding drop_tickets_def
proof (induction ts arbitrary: b)
  case (Cons tk ts)
  have "set (bk_granted b) \<subseteq> set (bk_granted (drop_ticket alive tk b))"
    by (cases tk) (auto simp: drop_ticket_def split: prod.splits)
  then show ?case using Cons [of "drop_ticket alive tk b"] by auto
qed simp

lemma settle_fresh: "bk_queue b s = queue_new \<Longrightarrow> bk_queue (settle alive m ds ts b) s = queue_new"
  by (simp add: settle_def drop_tickets_fresh)

lemma settle_granted: "set (bk_granted b) \<subseteq> set (bk_granted (settle alive m ds ts b))"
  using drop_tickets_granted [of "b\<lparr>bk_pending := m, bk_results := bk_results b @ ds\<rparr>"]
  by (simp add: settle_def)

lemma pend_ok_drains:
  "pend_ok m channels results \<Longrightarrow> drains m m' ds ts \<Longrightarrow> pend_ok m' channels (results @ ds)"
  by (auto simp: pend_ok_def drains_def keyed_ok_filter ac_simps)

lemma queues_ok_mono:
  "queues_ok qs queue tasks fresh \<Longrightarrow> (\<And>s. queue s = queue_new \<Longrightarrow> queue' s = queue_new) \<Longrightarrow>
     queues_ok qs queue' tasks fresh"
  by (simp add: queues_ok_def)

lemma dispatched_ok_mono:
  "dispatched_ok disp re gr identity fresh \<Longrightarrow> set re' \<subseteq> set re \<Longrightarrow> set gr \<subseteq> set gr' \<Longrightarrow>
     dispatched_ok disp re' gr' identity fresh"
  by (fastforce simp: dispatched_ok_def)

lemma settle_inv:
  assumes "sys_inv sy" and "drains (bk_pending (sy_broker sy)) m ds ts"
  shows "sys_inv (sy\<lparr>sy_broker := settle (alive_in (sy_calls sy)) m ds ts (sy_broker sy)\<rparr>)"
proof -
  note inv = sys_invD [OF assms(1)]
  let ?b = "settle (alive_in (sy_calls sy)) m ds ts (sy_broker sy)"
  have "sys_slots ?b (sy_calls sy)"
    using inv(1) settle_slots [of "sy_broker sy" _ _ "receivers (sy_calls sy)" m ts ds] assms(2)
    by (simp add: sys_slots_def alive_in_def drains_def)
  moreover have "pend_ok (bk_pending ?b) (bk_channels ?b) (bk_results ?b)"
    using pend_ok_drains [OF inv(2) assms(2)] by simp
  moreover have "queues_ok (bk_queues ?b) (bk_queue ?b) (sy_sockets sy) (sy_next_socket sy)"
    using queues_ok_mono [OF inv(3), of "bk_queue ?b"] by (simp add: settle_fresh)
  moreover have "dispatched_ok (sy_dispatched sy) (receivers (sy_calls sy)) (bk_granted ?b)
      (sy_identity sy) (sy_next_socket sy)"
    by (rule dispatched_ok_mono [OF inv(6) subset_refl settle_granted])
  ultimately show ?thesis using inv(4,5,8) by (simp add: sys_inv_def)
qed

text \<open>The fields of a broker that the invariant reads.\<close>

definition same_core :: "('i, 'r) broker \<Rightarrow> ('i, 'r) broker \<Rightarrow> bool" where
  "same_core b b' \<longleftrightarrow>
     bk_registry b' = bk_registry b \<and> bk_pending b' = bk_pending b \<and> bk_queues b' = bk_queues b \<and>
     bk_queue b' = bk_queue b \<and> bk_granted b' = bk_granted b \<and> bk_channels b' = bk_channels b \<and>
     bk_results b' = bk_results b"

lemma same_core_inv:
  "sys_inv (sy\<lparr>sy_broker := b\<rparr>) \<Longrightarrow> same_core b b' \<Longrightarrow> sys_inv (sy\<lparr>sy_broker := b'\<rparr>)"
  by (simp add: sys_inv_def same_core_def sys_slots_def)

lemma same_core_self:
  "sys_inv sy \<Longrightarrow> same_core (sy_broker sy) b \<Longrightarrow> sys_inv (sy\<lparr>sy_broker := b\<rparr>)"
  using same_core_inv [where sy = sy and b = "sy_broker sy"] by simp

lemma same_core_simps [simp]:
  "same_core b b" "same_core b (b\<lparr>bk_outbound := x\<rparr>)" "same_core b (b\<lparr>bk_activity := y\<rparr>)"
  "same_core b (b\<lparr>bk_shutdown := z\<rparr>)" "same_core b (b\<lparr>bk_progress := w\<rparr>)"
  "same_core b (try_send_cancel out r b)"
  by (simp_all add: same_core_def try_send_cancel_def)

lemma same_core_trans: "same_core b b' \<Longrightarrow> same_core b' b'' \<Longrightarrow> same_core b b''"
  by (simp add: same_core_def)

section \<open>The serve loop, shutdown and cancellation\<close>

lemma log_inv [simp]:
  "sys_inv (sy\<lparr>sy_written := x\<rparr>) = sys_inv sy" "sys_inv (sy\<lparr>sy_returns := y\<rparr>) = sys_inv sy"
  "sys_inv (sy\<lparr>sy_notices := z\<rparr>) = sys_inv sy" "sys_inv (sy\<lparr>sy_joining := u\<rparr>) = sys_inv sy"
  "sys_inv (sy\<lparr>sy_broker := b, sy_notices := z\<rparr>) = sys_inv (sy\<lparr>sy_broker := b\<rparr>)"
  "sys_inv (sy\<lparr>sy_broker := b, sy_joining := u\<rparr>) = sys_inv (sy\<lparr>sy_broker := b\<rparr>)"
  by (simp_all add: sys_inv_def)

lemma expiry_sweep_inv:
  fixes sy :: "('i, 'r) system"
  assumes "sys_inv sy"
  shows "sys_inv (sy\<lparr>sy_broker := fst (expiry_sweep (alive_in (sy_calls sy)) now (sy_broker sy))\<rparr>)"
proof -
  obtain m ks and ds :: "'r deliveries" and ts where *: "take_expired now (bk_pending (sy_broker sy)) = (m, ks, ds, ts)"
    by (metis prod_cases4)
  have "sys_inv (sy\<lparr>sy_broker := settle (alive_in (sy_calls sy)) m ds ts (sy_broker sy)\<rparr>)"
    by (rule settle_inv [OF assms take_expired_drains [OF sys_invD(7) [OF assms] *]])
  then show ?thesis by (simp add: expiry_sweep_def *)
qed

lemma serve_turn_inv:
  assumes "sys_inv sy"
  shows "sys_inv (sy\<lparr>sy_broker := fst (serve_turn (alive_in (sy_calls sy)) inp (sy_broker sy))\<rparr>)"
proof (cases inp)
  case (Accepted peer)
  then show ?thesis using assms by (cases peer) (auto intro: same_core_self)
qed (use assms expiry_sweep_inv [OF assms] in \<open>auto split: prod.split dest!: arg_cong [of _ _ fst]\<close>)

lemma send_notice_same: "same_core b (send_notice n b)"
proof (cases n)
  case (NoticeExpired s r)
  then show ?thesis by (simp add: notify_expired_def split: option.split)
qed simp

lemma notify_inv: "sys_inv sy \<Longrightarrow> sys_inv (notify_step n sy)"
  using same_core_self [OF _ send_notice_same, of sy "sy_notices sy ! n"] by (simp add: notify_step_def)

lemma cancel_pending_inv:
  fixes sy :: "('i, 'r) system"
  assumes "sys_inv sy"
  shows "sys_inv (sy\<lparr>sy_broker := fst (cancel_pending (alive_in (sy_calls sy)) socket r (sy_broker sy))\<rparr>)"
proof -
  obtain m found and ds :: "'r deliveries" and ts
    where *: "pending_cancel socket r (bk_pending (sy_broker sy)) = (m, found, ds, ts)"
    by (metis prod_cases4)
  have "sys_inv (sy\<lparr>sy_broker := settle (alive_in (sy_calls sy)) m ds ts (sy_broker sy)\<rparr>)"
    by (rule settle_inv [OF assms cancel_drains [OF sys_invD(7) [OF assms] *]])
  then show ?thesis using assms by (simp add: cancel_pending_def *)
qed

lemma pending_shutdown_inv:
  assumes "sys_inv sy" and "pending_shutdown (bk_pending (sy_broker sy)) = (m, n, ds, ts)"
  shows "sys_inv (sy\<lparr>sy_broker := settle (alive_in (sy_calls sy)) m ds ts (sy_broker sy)\<rparr>)"
  using assms sys_invD(7) [OF assms(1)] unfolding pending_shutdown_def
  by (intro settle_inv remove_matching_drains)

lemma serve_end_inv:
  "sys_inv sy \<Longrightarrow> sys_inv (sy\<lparr>sy_broker := serve_end (alive_in (sy_calls sy)) (sy_broker sy)\<rparr>)"
  by (auto simp: serve_end_def pending_shutdown_inv split: prod.split)

lemma shutdown_inv:
  "sys_inv sy \<Longrightarrow> sys_inv (sy\<lparr>sy_broker := (sy_broker sy)\<lparr>bk_shutdown := True\<rparr>\<rparr>)"
  by (rule same_core_self) simp_all

section \<open>Frames\<close>

lemma regs_ok_touch:
  assumes "regs_ok r identity fresh"
  shows "regs_ok (fst (registry_touch_socket socket now wall r)) identity fresh"
  using assms registry_touch_inv [of r socket now wall]
  by (auto simp: regs_ok_def registry_touch_socket_def update_conv' split: option.splits)

lemma registry_part_inv:
  assumes "sys_inv sy" and "regs_ok r (sy_identity sy) (sy_next_socket sy)"
  shows "sys_inv (sy\<lparr>sy_broker := (sy_broker sy)\<lparr>bk_registry := r\<rparr>\<rparr>)"
  using assms by (simp add: sys_inv_def sys_slots_def)

lemma touch_inv:
  "sys_inv sy \<Longrightarrow> sys_inv (sy\<lparr>sy_broker := touch socket now wall (sy_broker sy)\<rparr>)"
  unfolding touch_def by (intro registry_part_inv regs_ok_touch sys_invD(4))

lemma note_progress_inv:
  assumes "sys_inv sy"
    and "note_progress now s r p (bk_pending (sy_broker sy)) = (m, found, sends)"
  shows "sys_inv (sy\<lparr>sy_broker := (sy_broker sy)\<lparr>bk_pending := m\<rparr>\<rparr>)"
proof (cases "hm_get (bk_pending (sy_broker sy)) (s, r)")
  case None
  then show ?thesis using assms by (auto simp: note_progress_def sys_inv_def sys_slots_def)
next
  case (Some e)
  let ?m = "bk_pending (sy_broker sy)"
  let ?e = "e\<lparr>pr_inactivity_deadline := now + from_secs INACTIVITY_TIMEOUT_SECS\<rparr>"
  note inv = sys_invD [OF assms(1)]
  have m: "m = hm_insert (s, r) ?e ?m" using assms(2) Some by (simp add: note_progress_def)
  note same = senders_update [OF Some, of ?e, simplified, folded m]
  have mem: "((s, r), e) \<in> set ?m" using Some by (rule map_of_SomeD)
  have key: "(s, r) = (pr_socket e, pr_request e)" using keyed_ok_get [OF inv(7) Some] .
  then have "keyed_ok m" unfolding m using inv(7) by (intro keyed_ok_update) simp_all
  moreover have "\<forall>(k, p) \<in> set m. \<exists>t. pr_ticket p = Some (pr_socket p, t)"
    using set_hm_insert [of "(s, r)" ?e ?m] inv(2) mem by (fastforce simp: pend_ok_def m)
  ultimately have "pend_ok m (bk_channels (sy_broker sy)) (bk_results (sy_broker sy))"
    using inv(2) same by (simp add: pend_ok_def)
  then show ?thesis using assms(1) same by (simp add: sys_inv_def sys_slots_def)
qed

lemma handle_message_inv:
  assumes "sys_inv sy"
  shows "sys_inv (sy\<lparr>sy_broker :=
    fst (handle_message (alive_in (sy_calls sy)) now socket message (sy_broker sy) ::
      ('a, 'b) broker \<times> ('w broker_error + unit))\<rparr>)"
proof (cases message)
  case (PProgress p)
  obtain m found sends where
    *: "note_progress now socket (p_request_id p) p (bk_pending (sy_broker sy)) = (m, found, sends)"
    by (metis prod_cases3)
  from note_progress_inv [OF assms *] have "sys_inv (sy\<lparr>sy_broker := (sy_broker sy)\<lparr>bk_pending := m,
      bk_progress := bk_progress (sy_broker sy) @ sends\<rparr>\<rparr>)"
    by (rule same_core_inv) (simp add: same_core_def)
  then show ?thesis by (simp add: PProgress *)
next
  case (PResponse r)
  then show ?thesis
    using assms by (auto intro!: settle_inv complete_drains sys_invD(7) split: prod.split)
next
  case (PError e)
  then show ?thesis
    using assms by (auto intro!: settle_inv complete_drains sys_invD(7) split: prod.split)
qed (use assms in simp_all)

lemma handle_incoming_inv:
  assumes "sys_inv sy"
  shows "sys_inv (sy\<lparr>sy_broker := fst (handle_incoming hyphenated dr (alive_in (sy_calls sy))
      now wall send socket message last_seen (sy_broker sy) ::
      ('a, 'b) broker \<times> instant \<times> 'a ws_out list \<times> ('w broker_error + unit))\<rparr>)"
proof -
  have touched: "sys_inv (sy\<lparr>sy_broker := touch socket now wall (sy_broker sy)\<rparr>)"
    using assms by (rule touch_inv)
  show ?thesis
    using assms touched handle_message_inv [OF touched, where 'w = 'w]
    by (cases message) (auto split: option.split prod.split dest!: arg_cong [of _ _ fst])
qed

section \<open>The tasks of a socket\<close>

lemma socket_turn_inv:
  fixes sy :: "('i, 'r) system"
  assumes "sys_inv sy"
  shows "sys_inv (sy\<lparr>sy_broker := fst (socket_turn ei hyphenated dr (alive_in (sy_calls sy)) rd s st
    (sy_broker sy) :: ('i, 'r) broker \<times> 'i ws_out list \<times> 'w turn_result)\<rparr>)"
proof (cases "bk_shutdown (sy_broker sy) \<or> mpsc_recv (bk_outbound (sy_broker sy) s) \<noteq> None")
  case True
  have "same_core (sy_broker sy) (fst (socket_turn ei hyphenated dr (alive_in (sy_calls sy)) rd s st
      (sy_broker sy) :: ('i, 'r) broker \<times> 'i ws_out list \<times> 'w turn_result))"
    using True by (auto simp: socket_turn_def Let_def split: option.split prod.split)
  with assms show ?thesis by (rule same_core_self)
next
  case False
  then show ?thesis
    using assms handle_incoming_inv [OF assms, where 'w = 'w]
    by (auto simp: socket_turn_def Let_def split: option.split sum.split prod.split
        dest!: arg_cong [of _ _ fst])
qed

lemma goto_inv:
  assumes "sys_inv (sy\<lparr>sy_broker := b\<rparr>)" and "hm_get (sy_sockets sy) s = Some at0" and "at \<noteq> AtInstall"
  shows "sys_inv (sy\<lparr>sy_broker := b, sy_sockets := hm_insert s at (sy_sockets sy)\<rparr>)"
  using assms by (auto simp: sys_inv_def queues_ok_def entering_ok_def update_conv')

lemma install_inv:
  assumes "sys_inv sy" and "hm_get (sy_sockets sy) s = Some AtInstall" and "at \<noteq> AtInstall"
  shows "sys_inv (sy\<lparr>sy_broker := install_queue s (sy_broker sy),
                     sy_sockets := hm_insert s at (sy_sockets sy)\<rparr>)"
proof -
  note inv = sys_invD [OF assms(1)]
  let ?b = "sy_broker sy"
  have "bk_queue ?b s = queue_new" "s < sy_next_socket sy"
    using inv(3) assms(2) by (auto simp: queues_ok_def)
  then have same: "(bk_queue ?b)(s := queue_new) = bk_queue ?b" by (simp add: fun_upd_idem)
  have "queues_ok (hm_insert s s (bk_queues ?b)) (bk_queue ?b) (hm_insert s at (sy_sockets sy))
      (sy_next_socket sy)"
    using inv(3) assms(3) \<open>s < sy_next_socket sy\<close>
    by (auto simp: queues_ok_def update_conv' split: if_splits)
  moreover have "entering_ok (sy_calls sy) (hm_insert s at (sy_sockets sy))"
    using inv(8) assms(3) by (auto simp: entering_ok_def update_conv')
  ultimately show ?thesis
    using assms(1) by (simp add: sys_inv_def install_queue_def same sys_slots_def)
qed

lemma cleanup_registry_inv:
  assumes "sys_inv sy"
  shows "sys_inv (sy\<lparr>sy_broker := cleanup_registry s (sy_broker sy)\<rparr>)"
proof -
  let ?r = "bk_registry (sy_broker sy)"
  have ok: "regs_ok ?r (sy_identity sy) (sy_next_socket sy)" using assms by (rule sys_invD)
  then have "registry_inv ?r" by (simp add: regs_ok_def)
  from registry_remove_get [OF this, of s] registry_remove_inv [OF this, of s]
  have "regs_ok (fst (registry_remove_socket s ?r)) (sy_identity sy) (sy_next_socket sy)"
    using ok by (auto simp: regs_ok_def simp del: map_of_eq_Some_iff split: option.splits if_splits)
  then show ?thesis using assms unfolding cleanup_registry_def by (rule registry_part_inv [rotated])
qed

lemma cleanup_pending_inv:
  "sys_inv sy \<Longrightarrow> sys_inv (sy\<lparr>sy_broker := cleanup_pending (alive_in (sy_calls sy)) s (sy_broker sy)\<rparr>)"
  unfolding cleanup_pending_def pending_remove_socket_def
  by (auto intro!: settle_inv remove_matching_drains sys_invD(7) split: prod.split)

lemma cleanup_queue_inv:
  assumes "sys_inv sy"
  shows "sys_inv (sy\<lparr>sy_broker := cleanup_queue s (sy_broker sy)\<rparr>)"
  using assms
  by (auto simp: sys_inv_def cleanup_queue_def sys_slots_def queues_ok_def delete_conv' split: if_splits)

lemma close_inv:
  assumes "sys_inv sy"
  shows "sys_inv (sy\<lparr>sy_broker := close_socket s (sy_broker sy),
                     sy_sockets := hm_remove s (sy_sockets sy)\<rparr>)"
proof -
  have "same_core (sy_broker sy) (close_socket s (sy_broker sy))"
    by (simp add: close_socket_def same_core_def)
  then have "sys_inv (sy\<lparr>sy_broker := close_socket s (sy_broker sy)\<rparr>)"
    using assms same_core_self by blast
  then show ?thesis by (auto simp: sys_inv_def queues_ok_def entering_ok_def delete_conv' split: if_splits)
qed

lemma socket_step_inv:
  fixes sy :: "('i, 'r) system"
  assumes "sys_inv sy" and "hm_get (sy_sockets sy) s = Some at"
  shows "sys_inv (socket_step ei hyphenated dr (rd :: 'w readiness) s at sy)"
proof (cases at)
  case AtInstall
  then show ?thesis using assms by (simp add: socket_step_def Let_def install_inv)
next
  case (AtLoop st)
  show ?thesis
  proof (cases "turn_message hyphenated dr rd s (sy_broker sy)")
    case None
    obtain b out and r :: "'w turn_result" where
      *: "socket_turn ei hyphenated dr (alive_in (sy_calls sy)) rd s st (sy_broker sy) = (b, out, r)"
      by (metis prod_cases3)
    have "sys_inv (sy\<lparr>sy_broker := b\<rparr>)"
      using socket_turn_inv [OF assms(1), of ei hyphenated dr rd s st] by (simp add: *)
    then show ?thesis
      using goto_inv [OF _ assms(2)] None by (simp add: AtLoop socket_step_def Let_def * split: turn_result.split)
  next
    case (Some message)
    then show ?thesis
      using goto_inv [OF touch_inv [OF assms(1)] assms(2)] by (simp add: AtLoop socket_step_def Let_def)
  qed
next
  case (AtHandle st message)
  obtain b and r :: "'w broker_error + unit" where
    *: "handle_message (alive_in (sy_calls sy)) (rd_now rd) s message (sy_broker sy) = (b, r)" by fastforce
  have "sys_inv (sy\<lparr>sy_broker := b\<rparr>)"
    using handle_message_inv [OF assms(1), where 'w = 'w, of "rd_now rd" s message] by (simp add: *)
  then show ?thesis
    using goto_inv [OF _ assms(2)] by (simp add: AtHandle socket_step_def Let_def * split: turn_result.split)
next
  case AtCleanRegistry
  then show ?thesis
    using goto_inv [OF cleanup_registry_inv [OF assms(1)] assms(2)] by (simp add: socket_step_def Let_def)
next
  case AtCleanPending
  then show ?thesis
    using goto_inv [OF cleanup_pending_inv [OF assms(1)] assms(2)] by (simp add: socket_step_def Let_def)
next
  case AtCleanQueue
  then show ?thesis
    using goto_inv [OF cleanup_queue_inv [OF assms(1)] assms(2)] by (simp add: socket_step_def Let_def)
next
  case AtClose
  then show ?thesis using close_inv [OF assms(1)] by (simp add: socket_step_def Let_def)
qed

section \<open>Registration\<close>

lemma registered_ok:
  assumes "regs_ok r identity fresh" and "registry_insert now s r = (r', Inr x)"
    and "s_socket_id s = fresh" and "s_outbound s = fresh"
  shows "regs_ok r' (identity(fresh := s_connection_id s)) (Suc fresh)"
proof -
  have "registry_inv r'"
    using registry_insert_inv [of r now s] assms(1,2) by (simp add: regs_ok_def)
  moreover have "hm_get (sessions r') =
      (hm_get (sessions r))(s_connection_id s \<mapsto> s\<lparr>s_last_seen := max (insertion_time r) now\<rparr>)"
    using assms(2) by (auto simp: registry_insert_def Let_def update_conv' split: if_splits)
  ultimately show ?thesis
    using assms(1,3,4) by (auto simp: regs_ok_def simp del: map_of_eq_Some_iff) fastforce+
qed

lemma connect_inv:
  assumes "sys_inv sy"
  shows "sys_inv (connect_step hyphenated dr first sy)"
proof -
  have "same_core (sy_broker sy) b" if "lease_plugin (sy_broker sy) = Some b" for b
    using that by (auto simp: lease_plugin_def)
  then show ?thesis
    using assms same_core_self [OF assms] by (auto simp: connect_step_def split: sum.split option.split)
qed

lemma register_inv:
  fixes sy :: "('i, 'r) system"
  assumes "sys_inv sy"
  shows "sys_inv (register_step n now wall sy)"
proof (cases "n < length (sy_joining sy)")
  case True
  note inv = sys_invD [OF assms]
  let ?b = "sy_broker sy" and ?s = "sy_next_socket sy" and ?h = "sy_joining sy ! n"
  let ?new = "session_from_hello now ?h ?s wall ?s"
  obtain reg r where *: "registry_insert now ?new (bk_registry ?b) = (reg, r)" by fastforce
  show ?thesis
  proof (cases r)
    case (Inl e)
    then show ?thesis
      using True same_core_self [OF assms] by (simp add: register_step_def Let_def register_socket_def *)
  next
    case (Inr x)
    have "regs_ok reg ((sy_identity sy)(?s := h_connection_id ?h)) (Suc ?s)"
      using registered_ok [OF inv(4) * [unfolded Inr]] by (simp add: session_from_hello_def)
    moreover have "queues_ok (bk_queues ?b) (bk_queue ?b) (hm_insert ?s AtInstall (sy_sockets sy)) (Suc ?s)"
      using inv(3) by (fastforce simp: queues_ok_def update_conv' split: if_splits)
    moreover have "calls_ok (sy_calls sy) ((sy_identity sy)(?s := h_connection_id ?h)) (Suc ?s)"
      using inv(5) by (fastforce simp: calls_ok_def call_ok_def)
    moreover have "dispatched_ok (sy_dispatched sy) (receivers (sy_calls sy)) (bk_granted ?b)
        ((sy_identity sy)(?s := h_connection_id ?h)) (Suc ?s)"
      using inv(6) by (fastforce simp: dispatched_ok_def)
    moreover have "entering_ok (sy_calls sy) (hm_insert ?s AtInstall (sy_sockets sy))"
      using inv(5,8) by (fastforce simp: entering_ok_def calls_ok_def call_ok_def update_conv')
    ultimately show ?thesis
      using True inv(1,2) by (simp add: register_step_def Let_def register_socket_def * Inr sys_inv_def sys_slots_def)
  qed
qed (use assms in \<open>simp add: register_step_def\<close>)

section \<open>The tasks of a call\<close>

text \<open>The slot invariant with one call taken apart from the others.\<close>

abbreviation others_owned :: "nat \<Rightarrow> (nat, 'i call) hash_map \<Rightarrow> ticket list" where
  "others_owned c calls \<equiv> collect (at_owned \<circ> cl_at) (hm_remove c calls)"

abbreviation others_loose :: "nat \<Rightarrow> (nat, 'i call) hash_map \<Rightarrow> ticket list" where
  "others_loose c calls \<equiv> collect (at_loose \<circ> cl_at) (hm_remove c calls)"

abbreviation others_receivers :: "nat \<Rightarrow> (nat, 'i call) hash_map \<Rightarrow> ticket list" where
  "others_receivers c calls \<equiv> receivers (hm_remove c calls)"

definition slots_with ::
    "('i, 'r) broker \<Rightarrow> nat \<Rightarrow> call_at \<Rightarrow> (nat, 'i call) hash_map \<Rightarrow> bool" where
  "slots_with b c at calls \<longleftrightarrow>
     slots_ok (bk_queue b) (bk_granted b)
       (at_owned at @ held_tickets (bk_pending b) @ others_owned c calls)
       (at_loose at @ others_loose c calls) (at_receiver at @ others_receivers c calls)"

lemma sys_slots_with:
  assumes "hm_ok calls" and "hm_get calls c = Some call"
  shows "sys_slots b calls \<longleftrightarrow> slots_with b c (cl_at call) calls"
    and "sys_slots b (hm_insert c call' calls) \<longleftrightarrow> slots_with b c (cl_at call') calls"
  unfolding sys_slots_def slots_with_def
  by (rule iffI; erule slots_ok_cong;
      simp add: mset_collect_remove [OF assms] mset_collect_update [OF assms] ac_simps)+

lemma sys_slots_without: "sys_slots b (hm_remove c calls) \<longleftrightarrow> slots_with b c AtRoute calls"
  by (simp add: sys_slots_def slots_with_def)

lemma set_receivers_with:
  assumes "hm_ok calls" and "hm_get calls c = Some call"
  shows "set (receivers calls) = set (at_receiver (cl_at call) @ others_receivers c calls)"
    and "set (receivers (hm_insert c call' calls)) =
      set (at_receiver (cl_at call') @ others_receivers c calls)"
proof -
  have "mset (receivers calls) = mset (at_receiver (cl_at call) @ others_receivers c calls)"
    by (simp add: mset_collect_remove [OF assms])
  then show "set (receivers calls) = set (at_receiver (cl_at call) @ others_receivers c calls)"
    by (rule mset_eq_setD)
  have "mset (receivers (hm_insert c call' calls)) =
      mset (at_receiver (cl_at call') @ others_receivers c calls)"
    by (simp add: mset_collect_update [OF assms])
  then show "set (receivers (hm_insert c call' calls)) =
      set (at_receiver (cl_at call') @ others_receivers c calls)"
    by (rule mset_eq_setD)
qed

lemma calls_ok_remove:
  "calls_ok calls identity fresh \<Longrightarrow> calls_ok (hm_remove c calls) identity fresh"
  by (auto simp: calls_ok_def distinct_delete delete_conv' split: if_splits)

lemma entering_ok_remove: "entering_ok calls tasks \<Longrightarrow> entering_ok (hm_remove c calls) tasks"
  by (auto simp: entering_ok_def delete_conv' split: if_splits)

lemma entering_ok_update:
  "entering_ok calls tasks \<Longrightarrow>
     (case cl_at call of AtEnqueue q \<Rightarrow> hm_get tasks q \<noteq> Some AtInstall | _ \<Rightarrow> True) \<Longrightarrow>
     entering_ok (hm_insert c call calls) tasks"
  by (auto simp: entering_ok_def update_conv' split: if_splits)

lemma calls_ok_update:
  "calls_ok calls identity fresh \<Longrightarrow> call_ok identity fresh call \<Longrightarrow>
     calls_ok (hm_insert c call calls) identity fresh"
  by (auto simp: calls_ok_def distinct_update update_conv' split: if_splits)

text \<open>How the invariant follows for a state in which one call has moved or gone.\<close>

lemma call_gone_inv:
  assumes "sys_inv sy" and "hm_get (sy_calls sy) c = Some call"
    and "slots_with (sy_broker sy) c AtRoute (sy_calls sy)"
  shows "sys_inv (sy\<lparr>sy_calls := hm_remove c (sy_calls sy)\<rparr>)"
proof -
  note inv = sys_invD [OF assms(1)]
  have "hm_ok (sy_calls sy)" using inv(5) by (simp add: calls_ok_def)
  note re = set_receivers_with [OF this assms(2)]
  have "dispatched_ok (sy_dispatched sy) (others_receivers c (sy_calls sy))
      (bk_granted (sy_broker sy)) (sy_identity sy) (sy_next_socket sy)"
    by (rule dispatched_ok_mono [OF inv(6)]) (auto simp: re)
  then show ?thesis
    using inv assms(3) by (simp add: sys_inv_def sys_slots_without calls_ok_remove entering_ok_remove)
qed

lemma abandon_inv:
  assumes "sys_inv sy" and "hm_get (sy_calls sy) c = Some call"
  shows "sys_inv (abandon_step c call sy)"
proof -
  note inv = sys_invD [OF assms(1)]
  let ?b = "sy_broker sy" and ?calls = "sy_calls sy"
  have ok: "hm_ok ?calls" using inv(5) by (simp add: calls_ok_def)
  have call: "call_ok (sy_identity sy) (sy_next_socket sy) call"
    using inv(5) assms(2) by (simp add: calls_ok_def)
  note slots = inv(1) [unfolded sys_slots_with(1) [OF ok assms(2)]]
  show ?thesis
  proof (cases "cl_at call")
    case AtRoute
    then show ?thesis using call_gone_inv [OF assms] slots by (simp add: abandon_step_def)
  next
    case (AtEnqueue q)
    then show ?thesis using call_gone_inv [OF assms] slots by (simp add: abandon_step_def slots_with_def)
  next
    case (AtAdmit tk)
    let ?call = "call\<lparr>cl_at := AtDropTicket tk\<rparr>"
    have all: "slots_ok (bk_queue ?b) (bk_granted ?b)
        (tk # held_tickets (bk_pending ?b) @ others_owned c ?calls)
        (others_loose c ?calls) (tk # others_receivers c ?calls)"
      using slots by (simp add: slots_with_def AtAdmit)
    have "tk \<notin> set (held_tickets (bk_pending ?b) @ others_owned c ?calls)"
      using slots_okD(2) [OF all] by auto
    then have "slots_with ?b c (cl_at ?call) ?calls"
      using slots_drop_receiver [of _ _ _ _ "fst tk" "snd tk"] slots_loosen [OF all]
      by (simp add: slots_with_def)
    then have "sys_slots ?b (hm_insert c ?call ?calls)"
      unfolding sys_slots_with(2) [OF ok assms(2)] .
    moreover have "dispatched_ok (sy_dispatched sy) (receivers (hm_insert c ?call ?calls))
        (bk_granted ?b) (sy_identity sy) (sy_next_socket sy)"
      by (rule dispatched_ok_mono [OF inv(6)]) (auto simp: set_receivers_with [OF ok assms(2)])
    moreover have "call_ok (sy_identity sy) (sy_next_socket sy) ?call"
      using call AtAdmit by (simp add: call_ok_def)
    ultimately show ?thesis
      using inv by (simp add: abandon_step_def AtAdmit sys_inv_def calls_ok_update entering_ok_update)
  qed (use assms(1) in \<open>simp_all add: abandon_step_def\<close>)
qed

lemma invoke_inv:
  assumes "sys_inv sy"
  shows "sys_inv (system_step ei hyphenated dr sy (EvInvoke c connection_id request))"
proof (cases "hm_get (sy_calls sy) c = None")
  case True
  note inv = sys_invD [OF assms]
  show ?thesis
  proof (cases "hm_get (sessions (bk_registry (sy_broker sy))) connection_id")
    case None
    then show ?thesis using assms True by (simp add: invoke_route_def route_for_def)
  next
    case (Some s)
    let ?call = "\<lparr>cl_connection = connection_id, cl_request = request, cl_socket = s_socket_id s,
        cl_outbound = s_outbound s, cl_at = AtRoute\<rparr>"
    have "call_ok (sy_identity sy) (sy_next_socket sy) ?call"
      using inv(4) Some by (auto simp: regs_ok_def call_ok_def)
    then have "calls_ok (hm_insert c ?call (sy_calls sy)) (sy_identity sy) (sy_next_socket sy)"
      using inv(5) by (rule calls_ok_update [rotated])
    then show ?thesis
      using assms True Some inv
      by (simp add: invoke_route_def route_for_def sys_inv_def sys_slots_def collect_insert_fresh
          entering_ok_update del: map_of_eq_Some_iff)
  qed
qed (use assms in simp)

text \<open>Finding the queue, and entering it, where the identifier counter must not have saturated.\<close>

lemma route_step_inv:
  assumes "sys_inv sy" and "hm_get (sy_calls sy) c = Some call" and "cl_at call = AtRoute"
  shows "sys_inv (call_step ei c now started progress call sy)"
proof -
  note inv = sys_invD [OF assms(1)]
  let ?b = "sy_broker sy" and ?calls = "sy_calls sy"
  have ok: "hm_ok ?calls" using inv(5) by (simp add: calls_ok_def)
  have call: "call_ok (sy_identity sy) (sy_next_socket sy) call"
    using inv(5) assms(2) by (simp add: calls_ok_def)
  have slots: "slots_with ?b c AtRoute ?calls"
    using inv(1) by (simp add: sys_slots_with(1) [OF ok assms(2)] assms(3))
  show ?thesis
  proof (cases "hm_get (bk_queues ?b) (cl_socket call)")
    case None
    then show ?thesis
      using call_gone_inv [OF assms(1,2) slots] by (simp add: call_step_def Let_def assms(3) invoke_queue_def)
  next
    case (Some q)
    then have q: "q = cl_socket call" "hm_get (sy_sockets sy) q \<noteq> Some AtInstall"
      using inv(3) by (auto simp: queues_ok_def)
    let ?call = "call\<lparr>cl_at := AtEnqueue q\<rparr>"
    have "slots_with ?b c (cl_at ?call) ?calls" using slots by (simp add: slots_with_def)
    then have "sys_slots ?b (hm_insert c ?call ?calls)" unfolding sys_slots_with(2) [OF ok assms(2)] .
    moreover have "dispatched_ok (sy_dispatched sy) (receivers (hm_insert c ?call ?calls))
        (bk_granted ?b) (sy_identity sy) (sy_next_socket sy)"
      by (rule dispatched_ok_mono [OF inv(6)]) (auto simp: set_receivers_with [OF ok assms(2)])
    moreover have "call_ok (sy_identity sy) (sy_next_socket sy) ?call"
      using call q(1) by (simp add: call_ok_def)
    ultimately show ?thesis
      using inv q(2)
      by (simp add: call_step_def Let_def assms(3) invoke_queue_def Some sys_inv_def calls_ok_update entering_ok_update)
  qed
qed

lemma enqueue_step_inv:
  assumes "sys_inv sy" and "hm_get (sy_calls sy) c = Some call" and "cl_at call = AtEnqueue q"
    and room: "next_id (bk_queue (sy_broker sy) q) \<noteq> - 1"
  shows "sys_inv (call_step ei c now started progress call sy)"
proof -
  note inv = sys_invD [OF assms(1)]
  let ?b = "sy_broker sy" and ?calls = "sy_calls sy"
  have ok: "hm_ok ?calls" using inv(5) by (simp add: calls_ok_def)
  have call: "call_ok (sy_identity sy) (sy_next_socket sy) call"
    using inv(5) assms(2) by (simp add: calls_ok_def)
  have slots: "slots_with ?b c AtRoute ?calls"
    using inv(1) by (simp add: sys_slots_with(1) [OF ok assms(2)] assms(3) slots_with_def)
  show ?thesis
  proof -
    let ?s = "cl_socket call"
    have [simp]: "q = ?s" using call assms(3) by (simp add: call_ok_def)
    have installed: "hm_get (sy_sockets sy) ?s \<noteq> Some AtInstall" "?s < sy_next_socket sy"
      using inv(8) call assms(2,3) by (auto simp: entering_ok_def call_ok_def)
    obtain inner r gs where enq: "try_enqueue (bk_queue ?b ?s) = (inner, r, gs)" by (metis prod_cases3)
    let ?b' = "?b\<lparr>bk_queue := (bk_queue ?b)(?s := inner), bk_granted := bk_granted ?b @ map (Pair ?s) gs\<rparr>"
    have queues: "queues_ok (bk_queues ?b') (bk_queue ?b') (sy_sockets sy) (sy_next_socket sy)"
      using inv(3) installed by (auto simp: queues_ok_def)
    note fields = slots [unfolded slots_with_def at_owned.simps at_loose.simps at_receiver.simps append_Nil]
    have room: "next_id (bk_queue ?b ?s) \<noteq> - 1" using room by simp
    show ?thesis
    proof (cases r)
      case (Inl e)
      have gone: "slots_with ?b' c AtRoute ?calls"
        using slots_enqueue_refused [OF fields room enq [unfolded Inl]] by (simp add: slots_with_def)
      then have "sys_slots ?b' ?calls"
        by (simp add: sys_slots_with(1) [OF ok assms(2)] assms(3) slots_with_def)
      moreover have "dispatched_ok (sy_dispatched sy) (receivers ?calls) (bk_granted ?b')
          (sy_identity sy) (sy_next_socket sy)"
        by (rule dispatched_ok_mono [OF inv(6)]) auto
      ultimately have "sys_inv (sy\<lparr>sy_broker := ?b'\<rparr>)"
        using inv queues by (simp add: sys_inv_def)
      from call_gone_inv [OF this, of c call] show ?thesis
        using gone assms(2)
        by (simp add: call_step_def Let_def assms(3) queue_enter_def enq Inl)
    next
      case (Inr t)
      let ?call = "call\<lparr>cl_at := AtAdmit (?s, t)\<rparr>"
      have "slots_with ?b' c (cl_at ?call) ?calls"
        using slots_enqueue [OF fields room enq [unfolded Inr]] by (simp add: slots_with_def)
      then have "sys_slots ?b' (hm_insert c ?call ?calls)"
        unfolding sys_slots_with(2) [OF ok assms(2)] .
      moreover have "dispatched_ok (sy_dispatched sy) (receivers (hm_insert c ?call ?calls))
          (bk_granted ?b') (sy_identity sy) (sy_next_socket sy)"
      proof -
        have "t = next_id (bk_queue ?b ?s)"
          using enqueue_effect(1) [OF _ enq [unfolded Inr]] slots_okD(1) [OF fields] by blast
        then have "(?s, t) \<notin> set (bk_granted ?b)"
          using slots_okD(9) [OF fields, of ?s t] by (auto simp: known_def)
        then have "\<forall>(tk, x) \<in> set (sy_dispatched sy). tk \<noteq> (?s, t)"
          using inv(6) by (auto simp: dispatched_ok_def)
        then show ?thesis
          using inv(6)
          by (fastforce simp: dispatched_ok_def set_receivers_with [OF ok assms(2)] assms(3))
      qed
      moreover have "call_ok (sy_identity sy) (sy_next_socket sy) ?call"
        using call by (simp add: call_ok_def)
      ultimately show ?thesis
        using inv queues
        by (simp add: call_step_def Let_def assms(3) queue_enter_def enq Inr sys_inv_def
            calls_ok_update entering_ok_update)
    qed
  qed
qed

text \<open>Entering the pending map.\<close>

lemma drop_tickets_inv:
  assumes "sys_inv sy" and "sys_slots (drop_tickets alive ts (sy_broker sy)) (sy_calls sy)"
  shows "sys_inv (sy\<lparr>sy_broker := drop_tickets alive ts (sy_broker sy)\<rparr>)"
proof -
  note inv = sys_invD [OF assms(1)]
  show ?thesis
    using inv assms(2) queues_ok_mono [OF inv(3) drop_tickets_fresh [of "sy_broker sy"]]
      dispatched_ok_mono [OF inv(6) subset_refl drop_tickets_granted]
    by (simp add: sys_inv_def frame)
qed

text \<open>
  A call that ends while it owns a ticket, or holds it loosely: the ticket is dropped, by the last
  of the three lemmas with the call's own receiver still there.
\<close>

lemma drop_loose_call:
  assumes "sys_inv sy" and "hm_get (sy_calls sy) c = Some call" and "cl_at call = AtDropTicket tk"
  shows "slots_with (drop_ticket (alive_in (sy_calls sy)) tk (sy_broker sy)) c AtRoute (sy_calls sy)"
proof -
  note inv = sys_invD [OF assms(1)]
  have ok: "hm_ok (sy_calls sy)" using inv(5) by (simp add: calls_ok_def)
  have slots: "slots_with (sy_broker sy) c (AtDropTicket tk) (sy_calls sy)"
    using inv(1) by (simp add: sys_slots_with(1) [OF ok assms(2)] assms(3))
  have alive: "alive_in (sy_calls sy) = (\<lambda>k. k \<in> set (others_receivers c (sy_calls sy)))"
    by (simp add: alive_in_def set_receivers_with(1) [OF ok assms(2)] assms(3))
  show ?thesis
    using drop_ticket_slots [of "sy_broker sy" _ tk] slots
    by (simp add: slots_with_def alive frame drop_tickets_frame [of _ "[tk]", unfolded drop_tickets_def, simplified])
qed

lemma drop_owned_call:
  assumes "sys_inv sy" and "hm_get (sy_calls sy) c = Some call" and "cl_at call = AtAdmit tk"
  shows "slots_with (drop_tickets (alive_in (sy_calls sy)) [tk] (sy_broker sy)) c AtRoute (sy_calls sy)"
proof -
  note inv = sys_invD [OF assms(1)]
  let ?b = "sy_broker sy" and ?re = "others_receivers c (sy_calls sy)"
  let ?b' = "drop_tickets (alive_in (sy_calls sy)) [tk] ?b"
  have ok: "hm_ok (sy_calls sy)" using inv(5) by (simp add: calls_ok_def)
  have all: "slots_ok (bk_queue ?b) (bk_granted ?b)
      (tk # held_tickets (bk_pending ?b) @ others_owned c (sy_calls sy))
      (others_loose c (sy_calls sy)) (tk # ?re)"
    using inv(1) by (simp add: sys_slots_with(1) [OF ok assms(2)] assms(3) slots_with_def)
  have alive: "alive_in (sy_calls sy) = (\<lambda>k. k \<in> set (tk # ?re))"
    by (simp add: alive_in_def set_receivers_with(1) [OF ok assms(2)] assms(3))
  have dropped: "slots_ok (bk_queue ?b') (bk_granted ?b')
      (held_tickets (bk_pending ?b) @ others_owned c (sy_calls sy)) (others_loose c (sy_calls sy)) (tk # ?re)"
    unfolding alive by (intro drop_tickets_slots) (simp add: slots_loosen [OF all])
  have "tk \<notin> set (held_tickets (bk_pending ?b) @ others_owned c (sy_calls sy))"
    using slots_okD(2) [OF all] by auto
  then show ?thesis
    using dropped slots_drop_receiver [of _ _ _ _ "fst tk" "snd tk"] by (simp add: slots_with_def frame)
qed

lemma admit_refused_inv:
  assumes "sys_inv sy" and "hm_get (sy_calls sy) c = Some call" and "cl_at call = AtAdmit tk"
  shows "sys_inv (sy\<lparr>sy_broker := drop_tickets (alive_in (sy_calls sy)) [tk] (sy_broker sy),
                     sy_calls := hm_remove c (sy_calls sy)\<rparr>)"
proof -
  note inv = sys_invD [OF assms(1)]
  let ?b' = "drop_tickets (alive_in (sy_calls sy)) [tk] (sy_broker sy)"
  have ok: "hm_ok (sy_calls sy)" using inv(5) by (simp add: calls_ok_def)
  have "dispatched_ok (sy_dispatched sy) (others_receivers c (sy_calls sy)) (bk_granted ?b')
      (sy_identity sy) (sy_next_socket sy)"
    by (rule dispatched_ok_mono [OF inv(6) _ drop_tickets_granted])
      (auto simp: set_receivers_with(1) [OF ok assms(2)])
  then show ?thesis
    using inv drop_owned_call [OF assms] queues_ok_mono [OF inv(3) drop_tickets_fresh [of "sy_broker sy"]]
    by (simp add: sys_inv_def frame sys_slots_without calls_ok_remove entering_ok_remove)
qed

lemma admit_accepted_inv:
  assumes "sys_inv sy" and "hm_get (sy_calls sy) c = Some call" and "cl_at call = AtAdmit tk"
    and key: "hm_get (bk_pending (sy_broker sy)) (cl_socket call, r) = None"
    and p: "pr_socket p = cl_socket call" "pr_request p = r" "pr_ticket p = Some tk"
      "pr_sender p = bk_channels (sy_broker sy)"
  shows "sys_inv (sy\<lparr>sy_broker := (sy_broker sy)
        \<lparr>bk_channels := Suc (bk_channels (sy_broker sy)),
         bk_pending := hm_insert (cl_socket call, r) p (bk_pending (sy_broker sy))\<rparr>,
      sy_calls := hm_insert c (call\<lparr>cl_at := AtWait tk\<rparr>) (sy_calls sy)\<rparr>)"
proof -
  note inv = sys_invD [OF assms(1)]
  let ?b = "sy_broker sy" and ?calls = "sy_calls sy" and ?call = "call\<lparr>cl_at := AtWait tk\<rparr>"
  let ?m = "hm_insert (cl_socket call, r) p (bk_pending ?b)"
  have ok: "hm_ok ?calls" using inv(5) by (simp add: calls_ok_def)
  have call: "call_ok (sy_identity sy) (sy_next_socket sy) call"
    using inv(5) assms(2) by (simp add: calls_ok_def)
  have m: "?m = bk_pending ?b @ [((cl_socket call, r), p)]" using key by (rule hm_insert_fresh)
  have held: "held_tickets ?m = held_tickets (bk_pending ?b) @ [tk]"
    and send: "senders ?m = senders (bk_pending ?b) @ [bk_channels ?b]"
    by (simp_all add: m held_tickets_def senders_def p)
  have "slots_with ?b c (AtAdmit tk) ?calls"
    using inv(1) by (simp add: sys_slots_with(1) [OF ok assms(2)] assms(3))
  then have "slots_ok (bk_queue ?b) (bk_granted ?b) (held_tickets ?m @ others_owned c ?calls)
      (others_loose c ?calls) (tk # others_receivers c ?calls)"
    unfolding slots_with_def by (rule slots_ok_cong) (simp_all add: held)
  then have slots: "sys_slots (?b\<lparr>bk_channels := Suc (bk_channels ?b), bk_pending := ?m\<rparr>)
      (hm_insert c ?call ?calls)"
    by (simp add: sys_slots_with(2) [OF ok assms(2)] slots_with_def)
  have "fst tk = cl_socket call" using call assms(3) by (simp add: call_ok_def)
  then have "\<forall>(k, p) \<in> set ?m. \<exists>t. pr_ticket p = Some (pr_socket p, t)"
    using inv(2) p by (cases tk) (auto simp: m pend_ok_def)
  moreover have "keyed_ok ?m" using inv(7) p by (intro keyed_ok_update) simp_all
  ultimately have pend: "pend_ok ?m (Suc (bk_channels ?b)) (bk_results ?b)"
    using inv(2) by (simp add: pend_ok_def send)
  have "set (receivers (hm_insert c ?call ?calls)) \<subseteq> set (receivers ?calls)"
    by (simp add: set_receivers_with [OF ok assms(2)] assms(3))
  then have "dispatched_ok (sy_dispatched sy) (receivers (hm_insert c ?call ?calls)) (bk_granted ?b)
      (sy_identity sy) (sy_next_socket sy)"
    by (rule dispatched_ok_mono [OF inv(6)]) simp
  moreover have "call_ok (sy_identity sy) (sy_next_socket sy) ?call"
    using call assms(3) by (simp add: call_ok_def)
  ultimately show ?thesis using inv slots pend by (simp add: sys_inv_def calls_ok_update entering_ok_update)
qed

lemma admit_step_inv:
  assumes "sys_inv sy" and "hm_get (sy_calls sy) c = Some call" and "cl_at call = AtAdmit tk"
  shows "sys_inv (call_step ei c now started progress call sy)"
proof (cases "hm_get (bk_pending (sy_broker sy)) (cl_socket call, rq_request_id (cl_request call))")
  case None
  show ?thesis
    by (simp add: call_step_def Let_def assms(3) invoke_admit_def pending_admit_def None settle_def
        drop_tickets_def)
      (rule admit_accepted_inv [OF assms None]; simp)
next
  case (Some p)
  from admit_refused_inv [OF assms] show ?thesis
    by (simp add: call_step_def Let_def assms(3) invoke_admit_def pending_admit_def Some settle_def)
qed

text \<open>Waiting for the slot, and dispatching.\<close>

lemma waiter_gone_inv:
  assumes "sys_inv sy" and "hm_get (sy_calls sy) c = Some call" and "cl_at call = AtWait tk"
    and "received tk (sy_broker sy) = Some r"
  shows "sys_inv (sy\<lparr>sy_calls := hm_remove c (sy_calls sy)\<rparr>)"
    and "tk \<notin> set (others_receivers c (sy_calls sy))"
proof -
  note inv = sys_invD [OF assms(1)]
  let ?b = "sy_broker sy"
  have ok: "hm_ok (sy_calls sy)" using inv(5) by (simp add: calls_ok_def)
  have slots: "slots_ok (bk_queue ?b) (bk_granted ?b)
      (held_tickets (bk_pending ?b) @ others_owned c (sy_calls sy))
      (others_loose c (sy_calls sy)) ((fst tk, snd tk) # others_receivers c (sy_calls sy))"
    using inv(1) by (simp add: sys_slots_with(1) [OF ok assms(2)] assms(3) slots_with_def)
  have "snd tk \<notin> set (waiting_ids (bk_queue ?b (fst tk)))"
    using assms(4) slots_okD(7) [OF slots, of "fst tk" "snd tk"]
    by (auto simp: received_def split: if_splits)
  then have "slots_with ?b c AtRoute (sy_calls sy)"
    using slots_drop_receiver [OF slots] by (simp add: slots_with_def)
  from call_gone_inv [OF assms(1,2) this]
  show "sys_inv (sy\<lparr>sy_calls := hm_remove c (sy_calls sy)\<rparr>)" .
  show "tk \<notin> set (others_receivers c (sy_calls sy))" using slots_okD(3) [OF slots] by simp
qed

lemma encoded_plugin_send_same: "same_core b (fst (encoded_plugin_send ei outbound m b))"
  by (simp add: encoded_plugin_send_def split: option.split prod.split)

lemma dispatch_inv:
  fixes sy :: "('i, 'r) system"
  assumes "sys_inv sy"
  shows "sys_inv (sy\<lparr>sy_broker :=
    fst (dispatch ei (alive_in (sy_calls sy)) r s outbound request (sy_broker sy))\<rparr>)"
proof -
  let ?b = "sy_broker sy"
  obtain b' res where send: "encoded_plugin_send ei outbound (BRequest request) ?b = (b', res)"
    by fastforce
  have same: "same_core ?b b'"
    using encoded_plugin_send_same [of ?b ei outbound "BRequest request"] send by simp
  then have sent: "sys_inv (sy\<lparr>sy_broker := b'\<rparr>)" using assms same_core_self by blast
  obtain m found and ds :: "'r deliveries" and ts where
    fail: "pending_complete s (rq_request_id request) (Inl (projl res)) (bk_pending b') = (m, found, ds, ts)"
    by (metis prod_cases4)
  have "drains (bk_pending b') m ds ts"
    using complete_drains [OF _ fail] sys_invD(7) [OF sent] by simp
  then have "sys_inv (sy\<lparr>sy_broker := settle (alive_in (sy_calls sy)) m ds ts b'\<rparr>)"
    using settle_inv [OF sent] by simp
  then show ?thesis
    using assms sent fail by (auto simp: dispatch_def send split: sum.split)
qed

lemma dispatch_granted:
  assumes "received tk b = Some r" and "snd (dispatch ei alive r s outbound request b') \<noteq> None"
  shows "tk \<in> set (bk_granted b)"
  using assms by (auto simp: received_def dispatch_def dispatch_wait_def split: if_splits)

lemma dispatch_grants:
  "set (bk_granted b) \<subseteq> set (bk_granted (fst (dispatch ei alive r s outbound request b)))"
proof -
  obtain b' res where send: "encoded_plugin_send ei outbound (BRequest request) b = (b', res)"
    by fastforce
  then have "bk_granted b' = bk_granted b"
    using encoded_plugin_send_same [of b ei outbound "BRequest request"] by (simp add: same_core_def)
  then show ?thesis
    using settle_granted [of b'] by (auto simp: dispatch_def send split: sum.split prod.split)
qed

lemma wait_step_inv:
  assumes "sys_inv sy" and "hm_get (sy_calls sy) c = Some call" and "cl_at call = AtWait tk"
  shows "sys_inv (call_step ei c now started progress call sy)"
proof (cases "received tk (sy_broker sy)")
  case None
  then show ?thesis using assms(1) by (simp add: call_step_def Let_def assms(3))
next
  case (Some r)
  note inv = sys_invD [OF assms(1)]
  let ?calls = "hm_remove c (sy_calls sy)" and ?request = "cl_request call"
  note gone = waiter_gone_inv [OF assms Some]
  obtain b' sent where *: "dispatch ei (alive_in ?calls) r (cl_socket call) (cl_outbound call) ?request
      (sy_broker sy) = (b', sent)" by fastforce
  have after: "sys_inv (sy\<lparr>sy_calls := ?calls, sy_broker := b'\<rparr>)"
    using dispatch_inv [OF gone(1), of ei r "cl_socket call" "cl_outbound call" ?request] * by simp
  have "tk \<in> set (receivers (sy_calls sy))"
    using assms(2,3) by (force simp: set_collect dest: map_of_SomeD)
  then have fresh: "tk \<notin> set (map fst (sy_dispatched sy))"
    using inv(6) by (auto simp: dispatched_ok_def)
  have granted: "tk \<in> set (bk_granted b')" if "sent \<noteq> None"
  proof -
    have "snd (dispatch ei (alive_in ?calls) r (cl_socket call) (cl_outbound call) ?request
        (sy_broker sy)) \<noteq> None" using that * by simp
    then have "tk \<in> set (bk_granted (sy_broker sy))" by (rule dispatch_granted [OF Some])
    then show ?thesis
      using dispatch_grants [of "sy_broker sy" ei "alive_in ?calls" r "cl_socket call" "cl_outbound call" ?request]
      unfolding * by auto
  qed
  have "call_ok (sy_identity sy) (sy_next_socket sy) call"
    using inv(5) assms(2) by (simp add: calls_ok_def)
  then have "sy_identity sy (fst tk) = cl_connection call \<and> fst tk < sy_next_socket sy"
    using assms(3) by (simp add: call_ok_def)
  then have "dispatched_ok (sy_dispatched sy @
      (if sent = Some (Inr ()) then [(tk, cl_connection call, ?request)] else []))
      (receivers ?calls) (bk_granted b') (sy_identity sy) (sy_next_socket sy)"
    using sys_invD(6) [OF after] fresh gone(2) granted by (auto simp: dispatched_ok_def)
  then show ?thesis
    using after by (simp add: call_step_def Let_def assms(3) Some * sys_inv_def)
qed

lemma drop_step_inv:
  assumes "sys_inv sy" and "hm_get (sy_calls sy) c = Some call" and "cl_at call = AtDropTicket tk"
  shows "sys_inv (call_step ei c now started progress call sy)"
proof -
  let ?b' = "drop_ticket (alive_in (sy_calls sy)) tk (sy_broker sy)"
  note inv = sys_invD [OF assms(1)]
  have ok: "hm_ok (sy_calls sy)" using inv(5) by (simp add: calls_ok_def)
  have b': "?b' = drop_tickets (alive_in (sy_calls sy)) [tk] (sy_broker sy)"
    by (simp add: drop_tickets_def)
  have "dispatched_ok (sy_dispatched sy) (others_receivers c (sy_calls sy)) (bk_granted ?b')
      (sy_identity sy) (sy_next_socket sy)"
    unfolding b' by (rule dispatched_ok_mono [OF inv(6) _ drop_tickets_granted])
      (auto simp: set_receivers_with(1) [OF ok assms(2)])
  then show ?thesis
    using inv drop_loose_call [OF assms] queues_ok_mono [OF inv(3) drop_tickets_fresh [of "sy_broker sy"]]
    by (simp add: call_step_def Let_def assms(3) sys_inv_def sys_slots_without calls_ok_remove entering_ok_remove b' frame)
qed

section \<open>Every step\<close>

text \<open>
  The only condition: a call does not enter a queue whose identifier counter has saturated.
\<close>

fun system_can :: "('i, 'r) system \<Rightarrow> ('i, 'w) event \<Rightarrow> bool" where
  "system_can sy (EvCall c now started progress) =
     (case hm_get (sy_calls sy) c of
        None \<Rightarrow> True
      | Some call \<Rightarrow>
          (case cl_at call of AtEnqueue q \<Rightarrow> next_id (bk_queue (sy_broker sy) q) \<noteq> - 1 | _ \<Rightarrow> True))"
| "system_can sy _ = True"

lemma call_event_inv:
  assumes "sys_inv sy" and "system_can sy (EvCall c now started progress)"
  shows "sys_inv (system_step ei hyphenated dr sy (EvCall c now started progress))"
proof (cases "hm_get (sy_calls sy) c")
  case (Some call)
  then show ?thesis
    using assms route_step_inv [OF assms(1) Some] enqueue_step_inv [OF assms(1) Some] admit_step_inv [OF assms(1) Some]
      wait_step_inv [OF assms(1) Some] drop_step_inv [OF assms(1) Some]
    by (cases "cl_at call") simp_all
qed (use assms in simp)

lemma system_step_inv:
  fixes e :: "('i, 'w) event"
  assumes "sys_inv sy" and "system_can sy e"
  shows "sys_inv (system_step ei hyphenated dr sy e)"
proof (cases e)
  case (EvInvoke c connection_id request)
  show ?thesis unfolding EvInvoke by (rule invoke_inv [OF assms(1)])
next
  case (EvCall c now started progress)
  then show ?thesis using call_event_inv assms by blast
next
  case (EvAbandon c)
  then show ?thesis
    using assms(1) abandon_inv by (cases "hm_get (sy_calls sy) c") (simp_all del: map_of_eq_Some_iff)
next
  case (EvCancel socket outbound r)
  then show ?thesis
    using cancel_pending_inv [OF assms(1), of socket r] by (auto split: prod.split dest!: arg_cong [of _ _ fst])
next
  case (EvConnect first)
  then show ?thesis using connect_inv [OF assms(1)] by simp
next
  case (EvRegister n now wall)
  then show ?thesis using register_inv [OF assms(1)] by simp
next
  case (EvNotify n)
  then show ?thesis using notify_inv [OF assms(1)] by simp
next
  case (EvSocket s rd)
  then show ?thesis
    using assms(1) socket_step_inv [OF assms(1)]
    by (cases "hm_get (sy_sockets sy) s") (simp_all del: map_of_eq_Some_iff)
next
  case (EvServe inp)
  obtain b expired and p :: "ip_addr option" and t :: "'w broker_error option option" where
    *: "serve_turn (alive_in (sy_calls sy)) inp (sy_broker sy) = (b, expired, p, t)" by (metis prod_cases4)
  then show ?thesis using serve_turn_inv [OF assms(1), of inp] by (simp add: EvServe)
qed (use assms(1) serve_end_inv shutdown_inv in simp_all)

interpretation system: guarded_machine "system_step ei hyphenated dr" sys_inv system_can
  for ei hyphenated dr
  by unfold_locales (rule system_step_inv)

section \<open>Runs\<close>

text \<open>
  Every event advances the counter of a queue at most by one, so no counter saturates within the
  first \<open>2 ^ 64 - 2\<close> events and the invariant holds throughout.
\<close>

definition system_run ::
    "('i \<Rightarrow> json option) \<Rightarrow> (string \<Rightarrow> string option) \<Rightarrow> (json \<Rightarrow> 'r option) \<Rightarrow> broker_config
      \<Rightarrow> instant \<Rightarrow> ('i, 'w) event list \<Rightarrow> ('i, 'r) system" where
  "system_run ei hyphenated dr config start es =
     foldl (system_step ei hyphenated dr) (system_new config start) es"

abbreviation next_of :: "('i, 'r) broker \<Rightarrow> uuid \<Rightarrow> u64" where
  "next_of b q \<equiv> next_id (bk_queue b q)"

lemma promote_next_id: "next_id (fst (promote alive q)) = next_id q"
proof (induction alive q rule: promote.induct)
  case (1 alive q)
  then show ?case
    by (subst promote.simps) (auto simp: Let_def split: list.split prod.split dest!: arg_cong [of _ _ fst])
qed

lemma release_keeps_next: "next_id (fst (queue_release alive t q)) = next_id q"
  by (auto simp: queue_release_def promote_next_id split: option.split)

lemma drop_ticket_next [simp]: "next_of (drop_ticket alive tk b) q = next_of b q"
proof -
  obtain s t where tk: "tk = (s, t)" by (cases tk)
  obtain inner gs where *: "queue_release (\<lambda>i. alive (s, i)) t (bk_queue b s) = (inner, gs)"
    by fastforce
  then have "next_id inner = next_of b s" using release_keeps_next by (metis fst_conv)
  then show ?thesis by (simp add: drop_ticket_def tk *)
qed

lemma drop_tickets_next [simp]: "next_of (drop_tickets alive ts b) q = next_of b q"
  unfolding drop_tickets_def by (induction ts arbitrary: b) simp_all

lemma settle_next [simp]: "next_of (settle alive m ds ts b) q = next_of b q"
  by (simp add: settle_def)

lemma same_core_next: "same_core b b' \<Longrightarrow> next_of b' q = next_of b q"
  by (simp add: same_core_def)

lemma handle_message_next: "next_of (fst (handle_message alive now s m b)) q = next_of b q"
  by (cases m) (auto split: prod.split)

lemma handle_incoming_next:
  "next_of (fst (handle_incoming hyphenated dr alive now wall send s m last_seen b)) q = next_of b q"
  using handle_message_next [of alive now s _ "touch s now wall b" q]
  by (cases m) (auto simp: touch_def split: option.split prod.split dest!: arg_cong [of _ _ fst])

lemma socket_turn_next:
  "next_of (fst (socket_turn ei hyphenated dr alive rd s st b)) q = next_of b q"
  using handle_incoming_next [of hyphenated dr alive "rd_now rd" "rd_wall rd" "rd_send rd" s _
      "ws_last_seen st" b q]
  by (auto simp: socket_turn_def Let_def split: option.split sum.split prod.split
      dest!: arg_cong [of _ _ fst])

lemma dispatch_next: "next_of (fst (dispatch ei alive r s outbound request b)) q = next_of b q"
proof -
  obtain b' res where send: "encoded_plugin_send ei outbound (BRequest request) b = (b', res)"
    by fastforce
  then have "next_of b' q = next_of b q"
    using same_core_next encoded_plugin_send_same [of b ei outbound "BRequest request"] by simp
  then show ?thesis by (auto simp: dispatch_def send split: sum.split prod.split)
qed

lemma try_enqueue_next: "unat (next_id (fst (try_enqueue q))) \<le> Suc (unat (next_id q))"
  using unat_sat_succ_le by (auto simp: try_enqueue_def Let_def)

lemma enqueue_next: "unat (next_of (fst (queue_enter s b)) q) \<le> Suc (unat (next_of b q))"
  using try_enqueue_next [of "bk_queue b q"]
  by (auto simp: queue_enter_def split: prod.split)

lemma call_step_next:
  "unat (next_of (sy_broker (call_step ei c now started progress call sy)) q)
    \<le> Suc (unat (next_of (sy_broker sy) q))"
proof (cases "cl_at call")
  case AtRoute
  then show ?thesis by (simp add: call_step_def Let_def split: sum.split)
next
  case (AtEnqueue queue)
  then show ?thesis
    using enqueue_next [of queue "sy_broker sy" q]
    by (auto simp: call_step_def Let_def split: prod.split sum.split dest!: arg_cong [of _ _ fst])
next
  case (AtAdmit tk)
  then show ?thesis
    by (auto simp: call_step_def Let_def invoke_admit_def split: prod.split sum.split)
next
  case (AtWait tk)
  show ?thesis
  proof (cases "received tk (sy_broker sy)")
    case (Some r)
    then show ?thesis
      using dispatch_next [of ei "alive_in (hm_remove c (sy_calls sy))" r "cl_socket call"
          "cl_outbound call" "cl_request call" "sy_broker sy" q]
      by (auto simp: call_step_def Let_def AtWait split: prod.split)
  qed (simp add: call_step_def Let_def AtWait)
next
  case (AtDropTicket tk)
  then show ?thesis by (simp add: call_step_def Let_def)
qed

lemma socket_step_next:
  "unat (next_of (sy_broker (socket_step ei hyphenated dr rd s at sy)) q)
    \<le> Suc (unat (next_of (sy_broker sy) q))"
proof (cases at)
  case AtInstall
  then show ?thesis by (simp add: socket_step_def Let_def install_queue_def queue_new_def)
next
  case (AtLoop st)
  then show ?thesis
    using socket_turn_next [of ei hyphenated dr "alive_in (sy_calls sy)" rd s st "sy_broker sy" q]
    by (auto simp: socket_step_def Let_def touch_def split: option.split prod.split)
next
  case (AtHandle st message)
  then show ?thesis
    by (simp add: socket_step_def Let_def case_prod_unfold handle_message_next)
qed (auto simp: socket_step_def Let_def cleanup_registry_def cleanup_pending_def cleanup_queue_def
    close_socket_def split: prod.split)

lemma serve_turn_next: "next_of (fst (serve_turn alive inp b)) q = next_of b q"
  by (cases "(alive, inp, b)" rule: serve_turn.cases) (auto simp: expiry_sweep_def split: prod.split)

lemma system_step_next:
  "unat (next_of (sy_broker (system_step ei hyphenated dr sy e)) q)
    \<le> Suc (unat (next_of (sy_broker sy) q))"
proof (cases e)
  case (EvInvoke c connection_id request)
  then show ?thesis by (auto split: sum.split)
next
  case (EvCall c now started progress)
  then show ?thesis
    using call_step_next
    by (cases "hm_get (sy_calls sy) c") (simp_all del: map_of_eq_Some_iff)
next
  case (EvAbandon c)
  then show ?thesis
    by (cases "hm_get (sy_calls sy) c")
      (simp_all add: abandon_step_def del: map_of_eq_Some_iff split: call_at.split)
next
  case (EvCancel s outbound r)
  then show ?thesis
    by (auto simp: cancel_pending_def split: prod.split)
next
  case (EvConnect first)
  then show ?thesis by (auto simp: connect_step_def lease_plugin_def split: sum.split option.split)
next
  case (EvRegister n now wall)
  then show ?thesis by (auto simp: register_step_def register_socket_def Let_def split: sum.split prod.split)
next
  case (EvNotify n)
  then show ?thesis by (simp add: notify_step_def same_core_next [OF send_notice_same])
next
  case (EvSocket s rd)
  then show ?thesis
    using socket_step_next
    by (cases "hm_get (sy_sockets sy) s") (simp_all del: map_of_eq_Some_iff)
next
  case (EvServe inp)
  then show ?thesis
    using serve_turn_next [of "alive_in (sy_calls sy)" inp "sy_broker sy" q]
    by (auto split: prod.split dest!: arg_cong [of _ _ fst])
next
  case EvServeEnd
  then show ?thesis by (auto simp: serve_end_def split: prod.split)
next
  case EvShutdown
  then show ?thesis by simp
qed

lemma system_run_bounded:
  assumes "length es < 2 ^ 64 - 1"
  shows "sys_inv (system_run ei hyphenated dr config start es) \<and>
    (\<forall>q. unat (next_of (sy_broker (system_run ei hyphenated dr config start es)) q) \<le> Suc (length es))"
  using assms
proof (induction es rule: rev_induct)
  case Nil
  then show ?case by (simp add: system_run_def) (simp add: system_new_def broker_new_def queue_new_def)
next
  case (snoc e es)
  let ?sy = "system_run ei hyphenated dr config start es"
  have inv: "sys_inv ?sy" and bound: "unat (next_of (sy_broker ?sy) q) \<le> Suc (length es)" for q
    using snoc by simp_all
  have "next_of (sy_broker ?sy) q \<noteq> - 1" for q
  proof -
    have "unat (next_of (sy_broker ?sy) q) < unat (- 1 :: u64)"
      using bound [of q] snoc.prems by (simp add: unsigned_minus_1_eq_mask mask_eq_exp_minus_1)
    then show ?thesis by auto
  qed
  then have "system_can ?sy e" by (cases e) (simp_all split: option.split call_at.split)
  then have "sys_inv (system_run ei hyphenated dr config start (es @ [e]))"
    using system.guarded_step_inv [OF inv] by (simp add: system_run_def)
  moreover have "unat (next_of (sy_broker (system_run ei hyphenated dr config start (es @ [e]))) q)
      \<le> Suc (length (es @ [e]))" for q
    using system_step_next [of ei hyphenated dr ?sy e q] bound [of q] by (simp add: system_run_def)
  ultimately show ?case by blast
qed

end
