(* ===== verification/Liveness.thy ===== *)
theory Liveness
  imports Ownership
begin

text \<open>
  Deadlines in the whole broker. A request gets its total deadline when it is admitted and nothing
  moves it, so a sweep at a late enough time empties the pending map.
\<close>

definition deadlines :: "pending_map \<Rightarrow> instant set" where
  "deadlines m = pr_total_deadline ` snd ` set m"

fun admission_time :: "('i, 'w) event \<Rightarrow> instant set" where
  "admission_time (EvCall c now started progress) = {now}"
| "admission_time _ = {}"

lemma deadlines_drains: "drains m m' ds ts \<Longrightarrow> deadlines m' \<subseteq> deadlines m"
proof -
  assume "drains m m' ds ts"
  then have "set m' \<subseteq> set m" by (auto simp: drains_def)
  then show ?thesis by (simp add: deadlines_def image_mono)
qed

lemma remove_matching_deadlines:
  fixes m :: pending_map
  assumes "keyed_ok m"
  shows "deadlines (fst (remove_matching P code m :: _ \<times> _ \<times> 'r deliveries \<times> _)) \<subseteq> deadlines m"
proof -
  obtain m' n and ds :: "'r deliveries" and ts where "remove_matching P code m = (m', n, ds, ts)"
    by (metis prod_cases4)
  then show ?thesis using deadlines_drains [OF remove_matching_drains [OF assms]] by fastforce
qed

lemma note_progress_deadlines:
  assumes "note_progress now s r p m = (m', found, sends)"
  shows "deadlines m' \<subseteq> deadlines m"
proof (cases "hm_get m (s, r)")
  case None
  then show ?thesis using assms by (simp add: note_progress_def)
next
  case (Some e)
  let ?e = "e\<lparr>pr_inactivity_deadline := now + from_secs INACTIVITY_TIMEOUT_SECS\<rparr>"
  have "m' = hm_insert (s, r) ?e m" using assms Some by (simp add: note_progress_def)
  then have "set m' \<subseteq> insert ((s, r), ?e) (set m)" using set_hm_insert by fastforce
  then have "deadlines m' \<subseteq> insert (pr_total_deadline e) (deadlines m)"
    unfolding deadlines_def by force
  moreover have "pr_total_deadline e \<in> deadlines m"
    using map_of_SomeD [OF Some] by (force simp: deadlines_def)
  ultimately show ?thesis by blast
qed

lemma handle_message_deadlines:
  assumes "keyed_ok (bk_pending b)"
  shows "deadlines (bk_pending (fst (handle_message alive now s message b))) \<subseteq> deadlines (bk_pending b)"
  using assms
  by (cases message)
    (auto dest!: subsetD [OF note_progress_deadlines] subsetD [OF deadlines_drains [OF complete_drains]]
      split: prod.splits)

lemma handle_incoming_deadlines:
  assumes "keyed_ok (bk_pending b)"
  shows "deadlines (bk_pending
      (fst (handle_incoming hyphenated dr alive now wall send s message last_seen b)))
    \<subseteq> deadlines (bk_pending b)"
proof -
  have touched: "bk_pending (touch s now wall b) = bk_pending b" by (simp add: touch_def)
  then have "keyed_ok (bk_pending (touch s now wall b))" using assms by simp
  note message = handle_message_deadlines [OF this, unfolded touched]
  show ?thesis
    by (cases message) (simp_all add: case_prod_unfold touched message split: option.split)
qed

lemma socket_turn_deadlines:
  assumes "keyed_ok (bk_pending b)"
  shows "deadlines (bk_pending (fst (socket_turn ei hyphenated dr alive rd s st b)))
    \<subseteq> deadlines (bk_pending b)"
  by (simp add: socket_turn_def Let_def case_prod_unfold handle_incoming_deadlines [OF assms]
      split: option.split sum.split)

lemma encoded_plugin_send_pending:
  "bk_pending (fst (encoded_plugin_send ei outbound m b)) = bk_pending b"
  using encoded_plugin_send_same [of b] by (simp add: same_core_def)

lemma dispatch_deadlines:
  assumes "keyed_ok (bk_pending b)"
  shows "deadlines (bk_pending (fst (dispatch ei alive r s outbound request b))) \<subseteq> deadlines (bk_pending b)"
proof -
  obtain b' res where send: "encoded_plugin_send ei outbound (BRequest request) b = (b', res)"
    by fastforce
  then have "bk_pending b' = bk_pending b"
    using encoded_plugin_send_pending [of ei outbound "BRequest request" b] by simp
  then show ?thesis
    using assms
    by (auto simp: dispatch_def send dest!: subsetD [OF deadlines_drains [OF complete_drains]]
        split: sum.splits prod.splits)
qed

lemma admit_deadlines:
  "deadlines (bk_pending (fst (invoke_admit alive now started progress connection_id s tk r b)))
    \<subseteq> insert (now + from_secs TOTAL_TIMEOUT_SECS) (deadlines (bk_pending b))"
proof (cases "hm_get (bk_pending b) (s, r)")
  case None
  then show ?thesis
    by (simp add: invoke_admit_def pending_admit_def Let_def hm_insert_fresh deadlines_def)
next
  case (Some p)
  then show ?thesis by (auto simp: invoke_admit_def pending_admit_def Let_def)
qed

lemma step_deadlines:
  assumes "sys_inv sy"
  shows "deadlines (bk_pending (sy_broker (system_step ei hyphenated dr sy e)))
    \<subseteq> deadlines (bk_pending (sy_broker sy)) \<union>
      (\<lambda>now. now + from_secs TOTAL_TIMEOUT_SECS) ` admission_time e"
proof -
  have ok: "keyed_ok (bk_pending (sy_broker sy))" using assms by (rule sys_invD)
  show ?thesis
  proof (cases e)
    case (EvCall c now started progress)
    show ?thesis
    proof (cases "hm_get (sy_calls sy) c")
      case (Some call)
      have enqueue: "bk_pending (fst (queue_enter s b)) = bk_pending b" for s and b :: "('a, 'b) broker"
        by (simp add: queue_enter_def split: prod.split)
      have drop: "bk_pending (drop_ticket alive tk b) = bk_pending b" for alive tk and b :: "('a, 'b) broker"
        using drop_tickets_frame(3) [of alive "[tk]" b] by (simp add: drop_tickets_def)
      show ?thesis
        using Some
        by (cases "cl_at call")
          (simp_all add: EvCall call_step_def Let_def case_prod_unfold enqueue drop
            dispatch_deadlines [OF ok] admit_deadlines subset_insertI2 split: sum.split option.split del: map_of_eq_Some_iff)
    qed (auto simp: EvCall)
  next
    case (EvInvoke c connection_id request)
    then show ?thesis by (simp split: sum.split prod.split)
  next
    case (EvAbandon c)
    then show ?thesis
      by (cases "hm_get (sy_calls sy) c")
        (simp_all add: abandon_step_def del: map_of_eq_Some_iff split: call_at.split)
  next
    case (EvCancel s outbound r)
    then show ?thesis
      using ok
      by (auto simp: cancel_pending_def split: prod.splits if_splits
          dest!: subsetD [OF deadlines_drains [OF cancel_drains]])
  next
    case (EvConnect first)
    then show ?thesis by (auto simp: connect_step_def lease_plugin_def split: sum.split option.split)
  next
    case (EvRegister n now wall)
    then show ?thesis by (auto simp: register_step_def register_socket_def Let_def split: sum.split prod.split)
  next
    case (EvNotify n)
    have "bk_pending (send_notice notice b) = bk_pending b" for notice and b :: "('a, 'b) broker"
      using send_notice_same [of b notice] by (simp add: same_core_def)
    then show ?thesis by (simp add: EvNotify notify_step_def)
  next
    case (EvSocket s rd)
    show ?thesis
    proof (cases "hm_get (sy_sockets sy) s")
      case (Some at)
      then show ?thesis
        by (cases at)
          (simp_all add: EvSocket socket_step_def Let_def case_prod_unfold install_queue_def
            cleanup_registry_def cleanup_pending_def cleanup_queue_def close_socket_def
            pending_remove_socket_def remove_matching_deadlines [OF ok] socket_turn_deadlines [OF ok]
            handle_message_deadlines [OF ok] del: map_of_eq_Some_iff split: option.split)
    qed (simp add: EvSocket)
  next
    case (EvServe inp)
    show ?thesis
    proof (cases inp)
      case (Accepted peer)
      then show ?thesis by (cases peer) (simp_all add: EvServe)
    next
      case (Tick now)
      then show ?thesis
        using ok
        by (auto simp: EvServe expiry_sweep_def split: prod.splits
            dest!: subsetD [OF deadlines_drains [OF take_expired_drains]])
    qed (simp add: EvServe)
  next
    case EvServeEnd
    then show ?thesis
      using ok by (auto simp: serve_end_def pending_shutdown_def split: prod.splits
          dest!: subsetD [OF deadlines_drains [OF remove_matching_drains]])
  next
    case EvShutdown
    then show ?thesis by simp
  qed
qed

lemma run_deadlines:
  assumes "length es < 2 ^ 64 - 1"
    and "\<forall>e \<in> set es. \<forall>now \<in> admission_time e. now \<le> latest"
  shows "\<forall>d \<in> deadlines (bk_pending (sy_broker (system_run ei hyphenated dr config start es))).
    d \<le> latest + from_secs TOTAL_TIMEOUT_SECS"
  using assms
proof (induction es rule: rev_induct)
  case Nil
  then show ?case by (simp add: system_run_def system_new_def broker_new_def deadlines_def)
next
  case (snoc e es)
  have "length es < 2 ^ 64 - 1" using snoc.prems(1) by simp
  then have "sys_inv (system_run ei hyphenated dr config start es)"
    using system_run_bounded by blast
  from step_deadlines [OF this, of ei hyphenated dr e] snoc show ?case
    by (fastforce simp: system_run_def)
qed

text \<open>At a time past every total deadline the sweep takes every request.\<close>

lemma sweep_empties:
  assumes "keyed_ok m" and "\<forall>d \<in> deadlines m. d \<le> now"
  shows "take_expired now m = ([], map fst m,
      map (\<lambda>c. (c, Inl (tool_error_new Timeout True))) (senders m), held_tickets m)"
proof -
  have "is_expired now p" if "(k, p) \<in> set m" for k p
    using that assms(2) by (force simp: deadlines_def is_expired_def)
  then have "filter (\<lambda>(k, p). is_expired now p) m = m" "filter (\<lambda>(k, p). \<not> is_expired now p) m = []"
    by (auto simp: filter_id_conv filter_empty_conv)
  then show ?thesis using assms(1) by (simp add: take_expired_eq keyed_ok_def)
qed

lemma expiry_sweep_empties:
  assumes "keyed_ok (bk_pending b)" and "\<forall>d \<in> deadlines (bk_pending b). d \<le> now"
  shows "bk_pending (fst (expiry_sweep alive now b)) = []"
    and "bk_results (fst (expiry_sweep alive now b)) = bk_results b @
      map (\<lambda>c. (c, Inl (tool_error_new Timeout True))) (senders (bk_pending b))"
    and "snd (expiry_sweep alive now b) = map fst (bk_pending b)"
  by (simp_all add: expiry_sweep_def sweep_empties [OF assms])

end
