(* ===== verification/Delivery.thy ===== *)
theory Delivery
  imports Ownership "HOL-Library.Sublist"
begin

text \<open>
  What becomes of the requests: of the calls that were made, the ones put on a channel; and of those the
  ones written to a socket. The histories of a run are compared with each other: what was written to a
  socket and what still stands in its channel is what was dispatched to it, in that order.
\<close>

section \<open>Requests on their way\<close>

fun request_in :: "'i broker_to_plugin \<Rightarrow> 'i request list" where
  "request_in (BRequest r) = [r]"
| "request_in _ = []"

fun request_out :: "'i ws_out \<Rightarrow> 'i request list" where
  "request_out (OutMessage m) = request_in m"
| "request_out (OutPong p) = []"

definition requests_queued :: "'i broker_to_plugin mpsc \<Rightarrow> 'i request list" where
  "requests_queued ch = concat (map request_in (ch_queue ch))"

definition requests_written :: "uuid \<Rightarrow> (uuid \<times> 'i ws_out) list \<Rightarrow> 'i request list" where
  "requests_written s written = concat (map (\<lambda>(s', m). if s' = s then request_out m else []) written)"

definition requests_dispatched :: "uuid \<Rightarrow> (ticket \<times> string \<times> 'i request) list \<Rightarrow> 'i request list" where
  "requests_dispatched s dispatched = concat (map (\<lambda>(tk, c, r). if fst tk = s then [r] else []) dispatched)"

text \<open>What has reached a socket or its channel, and what was dispatched on a slot of the socket.\<close>

definition sent_to :: "uuid \<Rightarrow> ('i, 'r) system \<Rightarrow> 'i request list" where
  "sent_to s sy = requests_written s (sy_written sy) @ requests_queued (bk_outbound (sy_broker sy) s)"

abbreviation asked_of :: "uuid \<Rightarrow> ('i, 'r) system \<Rightarrow> 'i request list" where
  "asked_of s sy \<equiv> requests_dispatched s (sy_dispatched sy)"

text \<open>A socket whose task has not come to its cleanup, and an event in which a write to it is abandoned.\<close>

fun serving_at :: "'r socket_at \<Rightarrow> bool" where
  "serving_at AtInstall = True"
| "serving_at (AtLoop st) = True"
| "serving_at (AtHandle st message) = True"
| "serving_at _ = False"

definition serving :: "uuid \<Rightarrow> ('i, 'r) system \<Rightarrow> bool" where
  "serving s sy \<longleftrightarrow> (case hm_get (sy_sockets sy) s of Some at \<Rightarrow> serving_at at | None \<Rightarrow> False)"

fun abandons :: "uuid \<Rightarrow> ('i, 'w) event \<Rightarrow> bool" where
  "abandons s (EvSocket s' rd) \<longleftrightarrow> s' = s \<and> rd_send rd = SendAbandoned"
| "abandons s _ \<longleftrightarrow> False"

lemma requests_append [simp]:
  "requests_written s (u @ v) = requests_written s u @ requests_written s v"
  "requests_dispatched s (d @ e) = requests_dispatched s d @ requests_dispatched s e"
  "requests_written s [] = []" "requests_dispatched s [] = []"
  by (simp_all add: requests_written_def requests_dispatched_def)

lemma requests_written_own: "requests_written s (map (Pair s') out) = (if s' = s then concat (map request_out out) else [])"
  by (induction out) (simp_all add: requests_written_def)

text \<open>
  How a step moves the requests of one socket: what it dispatches it also puts on the channel, it loses
  nothing that is still to be served, and a socket begins to be served only when it registers.
\<close>

definition moves :: "uuid \<Rightarrow> bool \<Rightarrow> ('i, 'r) system \<Rightarrow> ('i, 'r) system \<Rightarrow> bool" where
  "moves s lossy sy sy' \<longleftrightarrow> (\<exists>rs. asked_of s sy' = asked_of s sy @ rs \<and> subseq (sent_to s sy') (sent_to s sy @ rs) \<and>
     (serving s sy' \<and> \<not> lossy \<longrightarrow>
        serving s sy \<and> sent_to s sy' = sent_to s sy @ rs \<or> s = sy_next_socket sy \<and> rs = []))"

lemma moves_same:
  assumes "sy_dispatched sy' = sy_dispatched sy" and "sent_to s sy' = sent_to s sy"
    and "serving s sy' \<Longrightarrow> serving s sy"
  shows "moves s lossy sy sy'"
  using assms by (auto simp: moves_def intro!: exI [of _ "[]"])

section \<open>Steps\<close>

text \<open>Steps that keep the channels, the logs and the sockets.\<close>

lemma moves_broker:
  assumes "bk_outbound b s = bk_outbound (sy_broker sy) s"
  shows "moves s lossy sy (sy\<lparr>sy_broker := b\<rparr>)"
  using assms by (intro moves_same) (simp_all add: sent_to_def serving_def)

lemma try_send_cancel_queued:
  "requests_queued (bk_outbound (try_send_cancel outbound r b) s) = requests_queued (bk_outbound b s)"
  by (simp add: try_send_cancel_def mpsc_try_send_def requests_queued_def)

lemma send_notice_queued:
  "requests_queued (bk_outbound (send_notice n b) s) = requests_queued (bk_outbound b s)"
  by (cases n) (auto simp: notify_expired_def try_send_cancel_queued split: option.split)

text \<open>A dispatch either puts its request at the end of the channel, or puts nothing anywhere.\<close>

lemma encoded_plugin_send_queued:
  assumes "encoded_plugin_send ei outbound (BRequest request) b = (b', r)"
  shows "requests_queued (bk_outbound b' s) = requests_queued (bk_outbound b s) @
    (if r = Inr () \<and> s = outbound then [request] else [])"
  using assms
  by (auto simp: encoded_plugin_send_def mpsc_try_send_def requests_queued_def split: option.splits if_splits)

lemma dispatch_queued:
  assumes "dispatch ei alive got socket outbound request b = (b', sent)"
  shows "requests_queued (bk_outbound b' s) = requests_queued (bk_outbound b s) @
    (if sent = Some (Inr ()) \<and> s = outbound then [request] else [])"
proof -
  obtain b'' r where send: "encoded_plugin_send ei outbound (BRequest request) b = (b'', r)" by fastforce
  show ?thesis
    using assms encoded_plugin_send_queued [OF send, of s]
    by (auto simp: dispatch_def send split: sum.splits prod.splits if_splits)
qed

lemma call_moves:
  assumes "sys_inv sy" and "hm_get (sy_calls sy) c = Some call"
  shows "moves s lossy sy (call_step ei c now started progress call sy)"
proof (cases "cl_at call")
  case (AtWait tk)
  have call: "cl_outbound call = cl_socket call" "fst tk = cl_socket call"
    using sys_invD(5) [OF assms(1)] assms(2) AtWait by (auto simp: calls_ok_def call_ok_def)
  show ?thesis
  proof (cases "received tk (sy_broker sy)")
    case None
    then show ?thesis by (simp add: call_step_def Let_def AtWait moves_same)
  next
    case (Some r)
    obtain b sent where *: "dispatch ei (alive_in (hm_remove c (sy_calls sy))) r (cl_socket call) (cl_socket call)
        (cl_request call) (sy_broker sy) = (b, sent)" by fastforce
    show ?thesis
      unfolding moves_def
      by (rule exI [of _ "if sent = Some (Inr ()) \<and> s = cl_socket call then [cl_request call] else []"])
        (auto simp: call_step_def Let_def AtWait Some * sent_to_def serving_def call dispatch_queued [OF *]
          requests_dispatched_def)
  qed
qed (auto simp: call_step_def Let_def queue_enter_def invoke_admit_def drop_ticket_def
    sent_to_def serving_def intro!: moves_same split: sum.split prod.split)

text \<open>A turn takes at most the first message of its own channel, and writes it unless the write fails.\<close>

lemma handle_message_outbound [simp]:
  "bk_outbound (fst (handle_message alive now s message b)) = bk_outbound b"
  by (cases message) (simp_all add: case_prod_unfold)

lemma handle_incoming_quiet:
  assumes "handle_incoming hyphenated dr alive now wall send s m last_seen b = (b', seen, out, r)"
  shows "bk_outbound b' = bk_outbound b \<and> concat (map request_out out) = []"
proof (cases m)
  case (WText t)
  then show ?thesis
    using assms handle_message_outbound [of alive now s _ "touch s now wall b"]
    by (auto split: option.splits prod.splits dest!: arg_cong [of _ _ "\<lambda>x. bk_outbound (fst x)"])
next
  case (WPing payload)
  then show ?thesis using assms by (cases send) auto
qed (use assms in auto)

lemma turn_queued:
  assumes "socket_turn ei hyphenated dr alive rd s st b = (b', out, r)"
  shows "s' \<noteq> s \<Longrightarrow> bk_outbound b' s' = bk_outbound b s'"
    and "subseq (concat (map request_out out) @ requests_queued (bk_outbound b' s)) (requests_queued (bk_outbound b s))"
    and "(\<forall>e. r \<noteq> Break e) \<Longrightarrow> rd_send rd \<noteq> SendAbandoned \<Longrightarrow>
      concat (map request_out out) @ requests_queued (bk_outbound b' s) = requests_queued (bk_outbound b s)"
proof -
  have "(s' \<noteq> s \<longrightarrow> bk_outbound b' s' = bk_outbound b s') \<and>
    subseq (concat (map request_out out) @ requests_queued (bk_outbound b' s)) (requests_queued (bk_outbound b s)) \<and>
    ((\<forall>e. r \<noteq> Break e) \<longrightarrow> rd_send rd \<noteq> SendAbandoned \<longrightarrow>
      concat (map request_out out) @ requests_queued (bk_outbound b' s) = requests_queued (bk_outbound b s))"
  proof (cases "bk_shutdown b")
    case True
    then show ?thesis using assms by (auto simp: socket_turn_def)
  next
    case False
    show ?thesis
    proof (cases "ch_queue (bk_outbound b s)")
      case (Cons m ms)
      then show ?thesis
        using assms False
        by (cases "rd_send rd")
          (auto simp: socket_turn_def mpsc_recv_def requests_queued_def after_send_def Let_def
            split: option.splits intro: list_emb_append2)
    next
      case Nil
      then show ?thesis
        using assms False handle_incoming_quiet
        by (cases "rd_send rd")
          (fastforce simp: socket_turn_def mpsc_recv_def after_send_def Let_def
            split: option.splits sum.splits if_splits prod.splits)+
    qed
  qed
  then show "s' \<noteq> s \<Longrightarrow> bk_outbound b' s' = bk_outbound b s'"
    and "subseq (concat (map request_out out) @ requests_queued (bk_outbound b' s)) (requests_queued (bk_outbound b s))"
    and "(\<forall>e. r \<noteq> Break e) \<Longrightarrow> rd_send rd \<noteq> SendAbandoned \<Longrightarrow>
      concat (map request_out out) @ requests_queued (bk_outbound b' s) = requests_queued (bk_outbound b s)"
    by blast+
qed

lemma socket_moves:
  fixes rd :: "'w readiness" and sy :: "('i, 'r) system"
  assumes "hm_get (sy_sockets sy) t = Some at"
  shows "moves s (abandons s (EvSocket t rd)) sy (socket_step ei hyphenated dr rd t at sy)"
proof -
  have stays: "serving s sy" if "serving s (sy\<lparr>sy_broker := b, sy_sockets := hm_insert t at' (sy_sockets sy)\<rparr>)"
    and "serving_at at' \<Longrightarrow> serving_at at" for b and at' :: "'r socket_at"
    using that assms by (auto simp: serving_def update_conv' split: if_splits)
  have goto: "moves s lossy sy (sy\<lparr>sy_broker := b, sy_sockets := hm_insert t at' (sy_sockets sy)\<rparr>)"
    if "bk_outbound b = bk_outbound (sy_broker sy)" "serving_at at' \<Longrightarrow> serving_at at" for b and at' :: "'r socket_at" and lossy
    using that stays by (intro moves_same) (simp_all add: sent_to_def)
  show ?thesis
  proof (cases at)
    case AtInstall
    then show ?thesis by (simp add: socket_step_def Let_def goto install_queue_def)
  next
    case (AtLoop st)
    show ?thesis
    proof (cases "turn_message hyphenated dr rd t (sy_broker sy)")
      case (Some message)
      then show ?thesis by (simp add: AtLoop socket_step_def Let_def goto)
    next
      case None
      obtain b out and r :: "'w turn_result" where
        turn: "socket_turn ei hyphenated dr (alive_in (sy_calls sy)) rd t st (sy_broker sy) = (b, out, r)"
        by (metis prod_cases3)
      define at' :: "'r socket_at" where "at' = (case r of Continue st' \<Rightarrow> AtLoop st' | Break e \<Rightarrow> AtCleanRegistry | Blocked \<Rightarrow> AtLoop st)"
      let ?sy = "sy\<lparr>sy_broker := b, sy_sockets := hm_insert t at' (sy_sockets sy),
          sy_written := sy_written sy @ map (Pair t) out\<rparr>"
      have step: "socket_step ei hyphenated dr rd t at sy = ?sy"
        by (simp add: AtLoop socket_step_def Let_def None turn at'_def split: turn_result.split)
      have serving: "serving s ?sy \<longrightarrow> serving s sy"
        using stays [of at' b] AtLoop by (simp add: serving_def)
      show ?thesis
      proof (cases "s = t")
        case False
        then show ?thesis
          using serving turn_queued(1) [OF turn, of s] unfolding step
          by (intro moves_same) (simp_all add: sent_to_def requests_written_own)
      next
        case True
        have keeps: "\<forall>e. r \<noteq> Break e" if "serving s ?sy"
          using that by (auto simp: serving_def True update_conv' at'_def split: turn_result.splits)
        have "subseq (sent_to s ?sy) (sent_to s sy)"
          using list_emb_append_mono [OF subseq_order.refl turn_queued(2) [OF turn]]
          by (simp add: sent_to_def requests_written_own True)
        moreover have "sent_to s ?sy = sent_to s sy" if "serving s ?sy" "rd_send rd \<noteq> SendAbandoned"
          using turn_queued(3) [OF turn keeps [OF that(1)] that(2)] by (simp add: sent_to_def requests_written_own True)
        ultimately show ?thesis
          unfolding step moves_def using serving by (auto simp: True intro!: exI [of _ "[]"])
      qed
    qed
  next
    case (AtHandle st message)
    obtain b and r :: "'w broker_error + unit" where
      *: "handle_message (alive_in (sy_calls sy)) (rd_now rd) t message (sy_broker sy) = (b, r)" by fastforce
    then have "bk_outbound b = bk_outbound (sy_broker sy)" using handle_message_outbound by (metis fst_conv)
    then show ?thesis by (simp add: AtHandle socket_step_def Let_def * goto split: turn_result.split)
  next
    case AtCleanRegistry
    then show ?thesis by (simp add: socket_step_def Let_def cleanup_registry_def) (rule goto; simp)
  next
    case AtCleanPending
    then show ?thesis
      by (simp add: socket_step_def Let_def cleanup_pending_def split: prod.split) (intro allI impI goto; simp)
  next
    case AtCleanQueue
    then show ?thesis by (simp add: socket_step_def Let_def cleanup_queue_def) (rule goto; simp)
  next
    case AtClose
    then show ?thesis
      by (auto simp: socket_step_def Let_def moves_def sent_to_def close_socket_def mpsc_close_def requests_queued_def
          serving_def delete_conv' intro!: exI [of _ "[]"])
  qed
qed

lemma register_moves: "moves s lossy sy (register_step n now wall sy)"
proof (cases "n < length (sy_joining sy)")
  case True
  obtain b and r :: "unit broker_error + unit" where
    *: "register_socket now wall (sy_next_socket sy) (sy_joining sy ! n) (sy_broker sy) = (b, r)" by fastforce
  show ?thesis
  proof (cases r)
    case (Inl e)
    have "bk_outbound b = bk_outbound (sy_broker sy)"
      using * Inl by (auto simp: register_socket_def split: prod.splits sum.splits)
    then show ?thesis
      using True by (intro moves_same) (simp_all add: register_step_def Let_def * Inl sent_to_def serving_def)
  next
    case (Inr u)
    have "bk_outbound b = (bk_outbound (sy_broker sy))
        (sy_next_socket sy := mpsc_new (outbound_queue (cfg_limits (bk_config (sy_broker sy)))))"
      using * Inr by (auto simp: register_socket_def split: prod.splits sum.splits)
    then show ?thesis
      using True by (auto simp: moves_def register_step_def Let_def * Inr sent_to_def serving_def update_conv'
          mpsc_new_def requests_queued_def intro!: exI [of _ "[]"])
  qed
qed (simp add: register_step_def moves_same)

lemma step_moves:
  fixes e :: "('i, 'w) event" and sy :: "('i, 'r) system"
  assumes "sys_inv sy"
  shows "moves s (abandons s e) sy (system_step ei hyphenated dr sy e)"
proof (cases e)
  case (EvInvoke c connection_id request)
  then show ?thesis by (auto simp: sent_to_def serving_def intro!: moves_same split: sum.split)
next
  case (EvCall c now started progress)
  then show ?thesis
    using call_moves [OF assms]
    by (cases "hm_get (sy_calls sy) c") (simp_all add: moves_same del: map_of_eq_Some_iff)
next
  case (EvAbandon c)
  then show ?thesis
    by (cases "hm_get (sy_calls sy) c")
      (auto simp: abandon_step_def sent_to_def serving_def intro!: moves_same
        simp del: map_of_eq_Some_iff split: call_at.split)
next
  case (EvCancel socket outbound r)
  then show ?thesis
    by (auto simp: cancel_pending_def sent_to_def serving_def intro!: moves_same split: prod.split)
next
  case (EvConnect first)
  then show ?thesis
    by (auto simp: connect_step_def lease_plugin_def sent_to_def serving_def intro!: moves_same split: sum.split option.split)
next
  case (EvRegister n now wall)
  then show ?thesis by (simp add: register_moves)
next
  case (EvSocket t rd)
  then show ?thesis
    by (cases "hm_get (sy_sockets sy) t") (simp_all add: moves_same socket_moves del: map_of_eq_Some_iff abandons.simps)
next
  case (EvServe inp)
  have "bk_outbound (fst (serve_turn alive inp b)) = bk_outbound b" for alive and b :: "('i, 'r) broker"
    by (cases "(alive, inp, b)" rule: serve_turn.cases) (auto simp: expiry_sweep_def split: prod.split)
  then show ?thesis
    by (intro moves_same) (simp_all add: EvServe case_prod_unfold sent_to_def serving_def)
next
  case (EvNotify n)
  then show ?thesis
    by (intro moves_same) (simp_all add: notify_step_def sent_to_def serving_def send_notice_queued split: if_splits)
next
  case EvServeEnd
  then show ?thesis by (intro moves_same) (auto simp: serve_end_def sent_to_def serving_def split: prod.split)
next
  case EvShutdown
  then show ?thesis by (intro moves_same) (simp_all add: sent_to_def serving_def)
qed

section \<open>Runs\<close>

lemma unregistered_asked:
  "sys_inv sy \<Longrightarrow> sy_next_socket sy \<le> s \<Longrightarrow> asked_of s sy = []"
  using sys_invD(6) [of sy] by (fastforce simp: dispatched_ok_def requests_dispatched_def)

text \<open>What reaches a socket is part of what was dispatched to it, in that order, and nothing is lost on the way.\<close>

lemma run_delivers:
  fixes es :: "('i, 'w) event list"
  assumes "length es < 2 ^ 64 - 1"
  shows "subseq (sent_to s (system_run ei hyphenated dr config start es)) (asked_of s (system_run ei hyphenated dr config start es)) \<and>
    (serving s (system_run ei hyphenated dr config start es) \<and> (\<forall>e \<in> set es. \<not> abandons s e) \<longrightarrow>
       sent_to s (system_run ei hyphenated dr config start es) = asked_of s (system_run ei hyphenated dr config start es))"
  using assms
proof (induction es rule: rev_induct)
  case Nil
  then show ?case
    by (simp add: system_run_def system_new_def sent_to_def serving_def broker_new_def mpsc_close_def requests_queued_def)
next
  case (snoc e es)
  let ?sy = "system_run ei hyphenated dr config start es"
  let ?sy' = "system_step ei hyphenated dr ?sy e"
  have run: "system_run ei hyphenated dr config start (es @ [e]) = ?sy'" by (simp add: system_run_def)
  have "length es < 2 ^ 64 - 1" using snoc.prems by simp
  then have inv: "sys_inv ?sy" using system_run_bounded by blast
  have IH: "subseq (sent_to s ?sy) (asked_of s ?sy)"
    "serving s ?sy \<Longrightarrow> \<forall>e \<in> set es. \<not> abandons s e \<Longrightarrow> sent_to s ?sy = asked_of s ?sy"
    using snoc by simp_all
  obtain rs where rs: "asked_of s ?sy' = asked_of s ?sy @ rs" "subseq (sent_to s ?sy') (sent_to s ?sy @ rs)"
    "serving s ?sy' \<Longrightarrow> \<not> abandons s e \<Longrightarrow>
      serving s ?sy \<and> sent_to s ?sy' = sent_to s ?sy @ rs \<or> s = sy_next_socket ?sy \<and> rs = []"
    using step_moves [OF inv, of s e ei hyphenated dr] unfolding moves_def by blast
  have sub: "subseq (sent_to s ?sy') (asked_of s ?sy')"
    using subseq_order.trans [OF rs(2) list_emb_append_mono [OF IH(1) subseq_order.refl]] by (simp add: rs(1))
  have "sent_to s ?sy' = asked_of s ?sy'"
    if "serving s ?sy'" "\<forall>e \<in> set (es @ [e]). \<not> abandons s e"
  proof -
    have "\<not> abandons s e" and others: "\<forall>e \<in> set es. \<not> abandons s e" using that(2) by simp_all
    from rs(3) [OF that(1) this(1)] show ?thesis
    proof
      assume "serving s ?sy \<and> sent_to s ?sy' = sent_to s ?sy @ rs"
      then show ?thesis using IH(2) [OF _ others] rs(1) by simp
    next
      assume new: "s = sy_next_socket ?sy \<and> rs = []"
      then have "asked_of s ?sy' = []" using unregistered_asked [OF inv] rs(1) by simp
      then show ?thesis using sub by simp
    qed
  qed
  then show ?case unfolding run using sub by blast
qed

section \<open>Where the requests come from\<close>

text \<open>The calls that were made, and those still on their way to a channel.\<close>

fun invocation :: "('i, 'w) event \<Rightarrow> (string \<times> 'i request) list" where
  "invocation (EvInvoke c connection_id request) = [(connection_id, request)]"
| "invocation _ = []"

abbreviation underway :: "(nat, 'i call) hash_map \<Rightarrow> (string \<times> 'i request) list" where
  "underway calls \<equiv> collect (\<lambda>call. [(cl_connection call, cl_request call)]) calls"

abbreviation dispatched_for :: "('i, 'r) system \<Rightarrow> (string \<times> 'i request) multiset" where
  "dispatched_for sy \<equiv> mset (map snd (sy_dispatched sy))"

lemma step_origin:
  assumes "sys_inv sy"
  shows "dispatched_for (system_step ei hyphenated dr sy e) + mset (underway (sy_calls (system_step ei hyphenated dr sy e)))
    \<subseteq># dispatched_for sy + mset (underway (sy_calls sy)) + mset (invocation e)"
proof -
  have ok: "hm_ok (sy_calls sy)" using sys_invD(5) [OF assms] by (simp add: calls_ok_def)
  show ?thesis
  proof (cases e)
    case (EvInvoke c connection_id request)
    then show ?thesis by (auto simp: collect_insert_fresh split: sum.split prod.split)
  next
    case (EvCall c now started progress)
    show ?thesis
    proof (cases "hm_get (sy_calls sy) c")
      case (Some call)
      note calls = mset_collect_remove [OF ok Some, of "\<lambda>call. [(cl_connection call, cl_request call)]"]
        mset_collect_update [OF ok Some, of "\<lambda>call. [(cl_connection call, cl_request call)]"]
      show ?thesis
        using Some
        by (cases "cl_at call")
          (auto simp: EvCall call_step_def Let_def calls split: sum.split prod.split option.split
            simp del: map_of_eq_Some_iff)
    qed (simp add: EvCall)
  next
    case (EvAbandon c)
    show ?thesis
    proof (cases "hm_get (sy_calls sy) c")
      case (Some call)
      note calls = mset_collect_remove [OF ok Some, of "\<lambda>call. [(cl_connection call, cl_request call)]"]
        mset_collect_update [OF ok Some, of "\<lambda>call. [(cl_connection call, cl_request call)]"]
      show ?thesis
        using Some
        by (cases "cl_at call") (auto simp: EvAbandon abandon_step_def calls simp del: map_of_eq_Some_iff)
    qed (simp add: EvAbandon)
  next
    case (EvSocket s rd)
    have "sy_dispatched (socket_step ei hyphenated dr rd s at sy) = sy_dispatched sy \<and>
        sy_calls (socket_step ei hyphenated dr rd s at sy) = sy_calls sy" for at
      by (cases at) (auto simp: socket_step_def Let_def split: option.split prod.split)
    then show ?thesis by (cases "hm_get (sy_sockets sy) s") (simp_all add: EvSocket del: map_of_eq_Some_iff)
  qed (auto simp: connect_step_def register_step_def notify_step_def Let_def split: sum.split option.split prod.split)
qed

lemma run_origin:
  assumes "length es < 2 ^ 64 - 1"
  shows "dispatched_for (system_run ei hyphenated dr config start es) +
      mset (underway (sy_calls (system_run ei hyphenated dr config start es)))
    \<subseteq># mset (concat (map invocation es))"
  using assms
proof (induction es rule: rev_induct)
  case Nil
  then show ?case by (simp add: system_run_def system_new_def collect_def)
next
  case (snoc e es)
  let ?sy = "system_run ei hyphenated dr config start es"
  have "length es < 2 ^ 64 - 1" using snoc.prems by simp
  then have "sys_inv ?sy" using system_run_bounded by blast
  from step_origin [OF this, of ei hyphenated dr e] show ?case
    using snoc by (simp add: system_run_def) (meson subset_mset.add_right_mono subset_mset.order_trans)
qed

end
