(* ===== verification/Scenario.thy ===== *)
theory Scenario
  imports Ownership
begin

text \<open>
  A concrete life of a broker, on which the properties of whole runs are instantiated: a plugin
  connects, a call is routed, queued, admitted and dispatched, and the plugin answers it.
  Operations and results are booleans here.
\<close>

definition ready :: "nat \<Rightarrow> unit incoming option \<Rightarrow> unit readiness" where
  "ready now incoming =
     \<lparr>rd_now = now, rd_wall = int now, rd_senders_gone = False, rd_incoming = incoming,
      rd_heartbeat = False, rd_send = SendOk\<rparr>"

definition boolean_request :: "string \<Rightarrow> bool request" where
  "boolean_request r =
     \<lparr>rq_request_id = r, rq_deadline_ms = 1000, rq_target = None, rq_operation = True\<rparr>"

definition connecting :: "(bool, unit) event list" where
  "connecting = [EvConnect (Some (Inr (WText (Some (js_obj hello_fields))))), EvRegister 0 0 0, EvSocket 0 (ready 5 None)]"

definition calling :: "nat \<Rightarrow> string \<Rightarrow> (bool, unit) event list" where
  "calling c r =
     [EvInvoke c plugin_uuid (boolean_request r), EvCall c 10 0 c, EvCall c 10 0 c, EvCall c 10 0 c, EvCall c 10 0 c]"

definition answering :: "(bool, unit) event list" where
  "answering = [EvSocket 0 (ready 20 None), EvSocket 0 (ready 20 (Some (Some (Inr (WText (Some response_frame)))))),
     EvSocket 0 (ready 20 None)]"

definition scenario :: "(bool, unit) event list \<Rightarrow> (bool, bool) system" where
  "scenario es = system_run (Some \<circ> js_bool) Some dec_bool config_production 0 es"

lemma promote_nobody: "waiting q = [] \<Longrightarrow> promote alive q = (q, [])"
  by (simp add: promote.simps)

lemmas scenario_defs = scenario_def system_run_def connecting_def calling_def answering_def
  ready_def boolean_request_def plugin_hello_def hello_decodes response_decodes
  PLUGIN_PROTOCOL_VERSION_def config_production_def limits_production_def from_secs_def limit_defs

lemmas system_defs = connect_step_def register_step_def remove_at_def lease_plugin_def register_socket_def plugin_lease_def socket_step_def
  install_queue_def call_step_def invoke_queue_def queue_enter_def turn_message_def invoke_admit_def pending_admit_def settle_def
  drop_tickets_def Let_def invoke_route_def route_for_def try_enqueue_def queue_new_def
  registry_insert_def session_from_hello_def registry_new_def broker_new_def system_new_def
  activity_default_def received_def dispatch_def dispatch_wait_def pending_contains_def
  encoded_plugin_send_def mpsc_try_send_def mpsc_new_def mpsc_recv_def enc_target_def
  socket_turn_def after_send_def touch_def registry_touch_socket_def pending_complete_def
  drop_ticket_def queue_release_def promote_nobody queue_snapshot_def abandon_step_def

text \<open>The states the scenario passes through, written out.\<close>

definition connected :: "(bool, bool) system" where
  "connected = (system_new config_production 0)
     \<lparr>sy_broker := (broker_new config_production 0)
        \<lparr>bk_registry := \<lparr>sessions = [(plugin_uuid, session_from_hello 0 plugin_hello 0 0 0)],
            sockets = [(0, plugin_uuid)], insertion_time = 0\<rparr>,
         bk_queues := [(0, 0)],
         bk_activity := \<lparr>counts = \<lparr>frontends = 0, plugins = 1\<rparr>, closing = False\<rparr>,
         bk_outbound := (\<lambda>_. mpsc_close (mpsc_new 0))(0 := mpsc_new 16)\<rparr>,
      sy_sockets := [(0, AtLoop \<lparr>ws_last_seen = 5, ws_nonce = 0\<rparr>)],
      sy_next_socket := 1, sy_identity := (\<lambda>_. [])(0 := plugin_uuid)\<rparr>"

definition pending_r :: pending_request where
  "pending_r = \<lparr>pr_socket = 0, pr_request = ''r'', pr_started_at = 0, pr_total_deadline = 120010,
     pr_inactivity_deadline = 15010, pr_sender = 0, pr_progress = Some 0, pr_ticket = Some (0, 1)\<rparr>"

definition called :: "(bool, bool) system" where
  "called = connected
     \<lparr>sy_broker := (sy_broker connected)
        \<lparr>bk_pending := [((0, ''r''), pending_r)], bk_channels := 1, bk_granted := [(0, 1)],
         bk_queue := (\<lambda>_. queue_new)
           (0 := \<lparr>next_id = 2, in_flight = 1, waiting = [], active = [(1, ())]\<rparr>),
         bk_outbound := (bk_outbound (sy_broker connected))
           (0 := \<lparr>ch_queue = [BRequest (boolean_request ''r'')], ch_capacity = 16, ch_open = True\<rparr>)\<rparr>,
      sy_dispatched := [((0, 1), plugin_uuid, boolean_request ''r'')],
      sy_returns := [(0, Inr \<lparr>oc_result = 0, oc_progress = 0, oc_total_deadline = 120010,
        oc_inactivity_timeout = 15000, oc_connection_id = Some plugin_uuid, oc_request_id = Some ''r''\<rparr>)]\<rparr>"

lemma fun_upd_const: "(\<lambda>_. c)(x := c) = (\<lambda>_. c)"
  by auto

lemma scenario_append:
  "scenario (es @ fs) = foldl (system_step (Some \<circ> js_bool) Some dec_bool) (scenario es) fs"
  by (simp add: scenario_def system_run_def)

lemma scenario_connecting: "scenario connecting = connected"
  by (simp add: scenario_defs system_defs connected_def fun_upd_const)

lemma scenario_calling: "scenario (connecting @ calling 0 ''r'') = called"
  unfolding scenario_append scenario_connecting
  by (simp add: scenario_defs system_defs js_len_defs connected_def called_def pending_r_def fun_upd_const
      sat_succ_def)

lemma scenario_answering:
  "let sy = scenario (connecting @ calling 0 ''r'' @ answering) in
     bk_pending (sy_broker sy) = [] \<and> sy_calls sy = [] \<and> bk_results (sy_broker sy) = [(0, Inr True)]"
  unfolding append_assoc [symmetric]
  unfolding scenario_append [of "connecting @ calling 0 ''r''"] scenario_calling
  by (simp add: scenario_defs system_defs js_len_defs connected_def called_def pending_r_def fun_upd_const)

end
