(* ===== verification/Election.thy ===== *)
theory Election
  imports Config
begin

text \<open>
  Leader election (\<open>crates/broker/src/election.rs\<close>): connect to the front-end address, else bind
  it, else back off with jitter until a deadline. The sockets and the clock are the environment:
  what the calls of each turn of the loop return, and the instants it reads. Times are
  milliseconds.
\<close>

section \<open>The delay between attempts\<close>

definition ELECTION_TIMEOUT :: nat where "ELECTION_TIMEOUT = from_secs 2"
definition MIN_RETRY_DELAY_MS :: u64 where "MIN_RETRY_DELAY_MS = 5"
definition MAX_RETRY_DELAY_MS :: u64 where "MAX_RETRY_DELAY_MS = 100"

definition sat_mul :: "u64 \<Rightarrow> u64 \<Rightarrow> u64" where
  "sat_mul a b = (if unat a * unat b < 2 ^ 64 then a * b else - 1)"

definition retry_base :: "u32 \<Rightarrow> u64" where
  "retry_base attempt =
     min (sat_mul MIN_RETRY_DELAY_MS (push_bit (unat (min attempt 4)) 1)) MAX_RETRY_DELAY_MS"

definition retry_delay :: "u32 \<Rightarrow> u32 \<Rightarrow> nat" where
  "retry_delay pid attempt =
     (let base = retry_base attempt;
          seed = xor (ucast pid) (ucast attempt * 0x9e3779b97f4a7c15);
          jitter = seed mod (base div 2 + 1)
      in unat (min (base + jitter) MAX_RETRY_DELAY_MS))"

lemma retry_base_values:
  "retry_base attempt =
     (if attempt = 0 then 5 else if attempt = 1 then 10 else if attempt = 2 then 20
      else if attempt = 3 then 40 else 80)"
proof -
  have "attempt = 0 \<or> attempt = 1 \<or> attempt = 2 \<or> attempt = 3 \<or> 4 \<le> attempt"
  proof (rule ccontr)
    assume "\<not> ?thesis"
    then have "unat attempt \<noteq> 0" "unat attempt \<noteq> 1" "unat attempt \<noteq> 2" "unat attempt \<noteq> 3"
      "unat attempt < 4"
      by (auto simp: word_unat_eq_iff word_le_nat_alt)
    then show False by linarith
  qed
  then show ?thesis
    by (elim disjE)
      (auto simp: retry_base_def sat_mul_def MIN_RETRY_DELAY_MS_def MAX_RETRY_DELAY_MS_def
        push_bit_eq_mult min_def word_le_nat_alt)
qed

lemma retry_delay_bounds:
  "unat (retry_base attempt) \<le> retry_delay pid attempt"
  "retry_delay pid attempt \<le> 100"
  "2 * retry_delay pid attempt \<le> 3 * unat (retry_base attempt)"
proof -
  let ?b = "retry_base attempt"
  let ?j = "xor (ucast pid) (ucast attempt * 0x9e3779b97f4a7c15) mod (?b div 2 + 1)"
  have b: "unat ?b \<in> {5, 10, 20, 40, 80}" by (simp add: retry_base_values)
  then have m: "unat (?b div 2 + 1) = unat ?b div 2 + 1"
    by (auto simp: unat_word_ariths unat_div)
  have j: "unat ?j \<le> unat ?b div 2"
    unfolding unat_mod m using mod_less_divisor [of "unat ?b div 2 + 1"] by (simp add: less_Suc_eq_le)
  then have sum: "unat (?b + ?j) = unat ?b + unat ?j"
    using b by (auto simp: unat_word_ariths)
  have d: "retry_delay pid attempt = min (unat ?b + unat ?j) 100"
    by (simp add: retry_delay_def Let_def MAX_RETRY_DELAY_MS_def min_def word_le_nat_alt sum)
  show "unat ?b \<le> retry_delay pid attempt" using b by (auto simp: d)
  show "retry_delay pid attempt \<le> 100" by (simp add: d)
  show "2 * retry_delay pid attempt \<le> 3 * unat ?b" using j b by (auto simp: d)
qed

section \<open>The election\<close>

datatype 'io connect_result = Connected | Refused 'io | ConnectFailed 'io
datatype 'io bind_result = Bound | AddrInUse 'io | BindFailed 'io

text \<open>
  What one turn of the loop meets: the bind of the front-end address, the bind of the plugin
  address (with the local address of the listener, where it can be read), whether the IPv6 bind
  succeeds, the second connect, and the clock at the two places the loop reads it.
\<close>

record 'io turn =
  t_bind :: "'io bind_result"
  t_plugin_bind :: "'io + socket_addr option"
  t_v6_binds :: bool
  t_connect :: "'io connect_result"
  t_now_guard :: nat
  t_now_end :: nat

datatype election_outcome = Leader (plugin_local: "socket_addr option") (plugin_v6: "socket_addr option")
  | Follower

datatype 'io election_error =
    ElectConnect 'io | ElectFrontendBind 'io | ElectPluginBind 'io | ElectTimedOut

text \<open>The IPv6 loopback address that pairs with a bound IPv4 loopback port.\<close>

definition v6_companion :: "socket_addr \<Rightarrow> socket_addr option" where
  "v6_companion a = (case addr_ip a of
     V4 b0 b1 b2 b3 \<Rightarrow>
       if is_loopback (V4 b0 b1 b2 b3) then Some (SocketAddr LOCALHOST_V6 (addr_port a)) else None
   | V6 _ \<Rightarrow> None)"

definition become_leader :: "'io turn \<Rightarrow> 'io election_error + election_outcome" where
  "become_leader turn = (case t_plugin_bind turn of
     Inl e \<Rightarrow> Inl (ElectPluginBind e)
   | Inr local \<Rightarrow>
       Inr (Leader local
         (case Option.bind local v6_companion of
            Some a \<Rightarrow> if t_v6_binds turn then Some a else None
          | None \<Rightarrow> None)))"

text \<open>
  The loop from turn \<open>i\<close> on; the number of turns taken is part of the result. That the loop returns
  is a theorem, not an assumption: a run that never does has no value.
\<close>

partial_function (option) elect_loop ::
    "(nat \<Rightarrow> 'io turn) \<Rightarrow> nat \<Rightarrow> nat \<Rightarrow> (('io election_error + election_outcome) \<times> nat) option" where
  "elect_loop env deadline i =
     (case t_bind (env i) of
        Bound \<Rightarrow> Some (become_leader (env i), Suc i)
      | BindFailed e \<Rightarrow> Some (Inl (ElectFrontendBind e), Suc i)
      | AddrInUse _ \<Rightarrow>
          (case t_connect (env i) of
             Connected \<Rightarrow> Some (Inr Follower, Suc i)
           | ConnectFailed e \<Rightarrow> Some (Inl (ElectConnect e), Suc i)
           | Refused e \<Rightarrow>
               if t_now_guard (env i) < deadline
               then if deadline \<le> t_now_end (env i) then Some (Inl ElectTimedOut, Suc i)
                    else elect_loop env deadline (Suc i)
               else Some (Inl (ElectConnect e), Suc i)))"

definition elect ::
    "'io connect_result \<Rightarrow> nat \<Rightarrow> (nat \<Rightarrow> 'io turn)
      \<Rightarrow> (('io election_error + election_outcome) \<times> nat) option" where
  "elect first_connect now env = (case first_connect of
     Connected \<Rightarrow> Some (Inr Follower, 0)
   | ConnectFailed e \<Rightarrow> Some (Inl (ElectConnect e), 0)
   | Refused _ \<Rightarrow> elect_loop env (now + ELECTION_TIMEOUT) 0)"

text \<open>
  The clock of a run: it does not go back, and a turn that backs off sleeps at least the delay of
  its attempt, which is the number of the turn.
\<close>

definition clock_ok :: "u32 \<Rightarrow> nat \<Rightarrow> (nat \<Rightarrow> 'io turn) \<Rightarrow> bool" where
  "clock_ok pid now env \<longleftrightarrow>
     now \<le> t_now_guard (env 0) \<and>
     (\<forall>i. t_now_guard (env i) + retry_delay pid (of_nat i) \<le> t_now_end (env i) \<and>
          t_now_end (env i) \<le> t_now_guard (env (Suc i)))"

lemma clock_advances:
  assumes "clock_ok pid now env"
  shows "now + 5 * i \<le> t_now_guard (env i)"
proof (induction i)
  case 0
  then show ?case using assms by (simp add: clock_ok_def)
next
  case (Suc i)
  have "5 \<le> unat (retry_base (of_nat i))" by (simp add: retry_base_values)
  then have "5 \<le> retry_delay pid (of_nat i)"
    using retry_delay_bounds(1) [of "of_nat i" pid] by linarith
  moreover have "t_now_guard (env i) + retry_delay pid (of_nat i) \<le> t_now_end (env i)"
    "t_now_end (env i) \<le> t_now_guard (env (Suc i))"
    using assms by (simp_all add: clock_ok_def)
  ultimately show ?case using Suc by simp
qed

lemma elect_loop_terminates:
  assumes "\<And>i. now + 5 * i \<le> t_now_guard (env i)" and "deadline \<le> now + 5 * (i + k)"
  shows "\<exists>r n. elect_loop env deadline i = Some (r, n) \<and> n \<le> Suc (i + k)"
  using assms(2)
proof (induction k arbitrary: i)
  case 0
  then have "\<not> t_now_guard (env i) < deadline" using assms(1) [of i] by simp
  then show ?case
    by (subst elect_loop.simps) (auto split: bind_result.split connect_result.split)
next
  case (Suc k)
  have "\<exists>r n. elect_loop env deadline (Suc i) = Some (r, n) \<and> n \<le> Suc (Suc i + k)"
    using Suc.prems by (intro Suc.IH) simp
  then show ?case
    by (subst elect_loop.simps) (auto split: bind_result.split connect_result.split)
qed

text \<open>What a result says about the last turn.\<close>

definition turn_explains :: "'io turn \<Rightarrow> nat \<Rightarrow> 'io election_error + election_outcome \<Rightarrow> bool" where
  "turn_explains turn deadline r = (case r of
     Inr (Leader local v6) \<Rightarrow> t_bind turn = Bound \<and> t_plugin_bind turn = Inr local \<and>
       (v6 \<noteq> None \<longrightarrow> t_v6_binds turn \<and> v6 = Option.bind local v6_companion)
   | Inr Follower \<Rightarrow> (\<exists>e. t_bind turn = AddrInUse e) \<and> t_connect turn = Connected
   | Inl ElectTimedOut \<Rightarrow> deadline \<le> t_now_end turn
   | Inl (ElectFrontendBind e) \<Rightarrow> t_bind turn = BindFailed e
   | Inl (ElectPluginBind e) \<Rightarrow> t_bind turn = Bound \<and> t_plugin_bind turn = Inl e
   | Inl (ElectConnect e) \<Rightarrow> (\<exists>e'. t_bind turn = AddrInUse e') \<and>
       (t_connect turn = ConnectFailed e \<or>
        t_connect turn = Refused e \<and> deadline \<le> t_now_guard turn))"

lemma become_leader_explained:
  "t_bind turn = Bound \<Longrightarrow> turn_explains turn deadline (become_leader turn)"
  by (auto simp: become_leader_def turn_explains_def split: sum.split option.split)

text \<open>The turns of a run that started at \<open>i\<close>: the last one explains the result, the others retried.\<close>

definition run_explained ::
    "(nat \<Rightarrow> 'io turn) \<Rightarrow> nat \<Rightarrow> nat \<Rightarrow> ('io election_error + election_outcome) \<times> nat \<Rightarrow> bool" where
  "run_explained env deadline i y \<longleftrightarrow>
     i < snd y \<and> turn_explains (env (snd y - 1)) deadline (fst y) \<and>
     (\<forall>j. i \<le> j \<and> j < snd y - 1 \<longrightarrow>
        (\<exists>e. t_bind (env j) = AddrInUse e) \<and> (\<exists>e. t_connect (env j) = Refused e))"

lemma run_explained_here:
  "turn_explains (env i) deadline r \<Longrightarrow> run_explained env deadline i (r, Suc i)"
  by (auto simp: run_explained_def)

lemma run_explained_later:
  assumes "run_explained env deadline (Suc i) y"
    and "t_bind (env i) = AddrInUse e" and "t_connect (env i) = Refused e'"
  shows "run_explained env deadline i y"
  using assms by (auto simp: run_explained_def) (metis Suc_leI le_eq_less_or_eq)+

lemma elect_loop_explained:
  assumes "elect_loop env deadline i = Some y"
  shows "run_explained env deadline i y"
proof (rule elect_loop.raw_induct [where P = run_explained, OF _ assms])
  fix loop and env :: "nat \<Rightarrow> 'io turn" and deadline i y
  assume IH: "\<And>env deadline i y. loop env deadline i = Some y \<Longrightarrow> run_explained env deadline i y"
    and step: "(case t_bind (env i) of
        Bound \<Rightarrow> Some (become_leader (env i), Suc i)
      | AddrInUse _ \<Rightarrow>
          (case t_connect (env i) of
             Connected \<Rightarrow> Some (Inr Follower, Suc i)
           | Refused e \<Rightarrow>
               if t_now_guard (env i) < deadline
               then if deadline \<le> t_now_end (env i) then Some (Inl ElectTimedOut, Suc i)
                    else loop env deadline (Suc i)
               else Some (Inl (ElectConnect e), Suc i)
           | ConnectFailed e \<Rightarrow> Some (Inl (ElectConnect e), Suc i))
      | BindFailed e \<Rightarrow> Some (Inl (ElectFrontendBind e), Suc i)) = Some y"
  show "run_explained env deadline i y"
  proof (cases "t_bind (env i)")
    case Bound
    then have "y = (become_leader (env i), Suc i)" using step by simp
    then show ?thesis using become_leader_explained [OF Bound] by (simp add: run_explained_here)
  next
    case (BindFailed e)
    then have "y = (Inl (ElectFrontendBind e), Suc i)" using step by simp
    then show ?thesis using BindFailed by (simp add: run_explained_here turn_explains_def)
  next
    case bind: (AddrInUse e)
    show ?thesis
    proof (cases "t_connect (env i)")
      case Connected
      then have "y = (Inr Follower, Suc i)" using step bind by simp
      then show ?thesis using bind Connected by (simp add: run_explained_here turn_explains_def)
    next
      case (ConnectFailed e')
      then have "y = (Inl (ElectConnect e'), Suc i)" using step bind by simp
      then show ?thesis using bind ConnectFailed by (simp add: run_explained_here turn_explains_def)
    next
      case (Refused e')
      show ?thesis
      proof (cases "t_now_guard (env i) < deadline")
        case False
        then have "y = (Inl (ElectConnect e'), Suc i)" using step bind Refused by simp
        then show ?thesis
          using bind Refused False by (simp add: run_explained_here turn_explains_def)
      next
        case before: True
        show ?thesis
        proof (cases "deadline \<le> t_now_end (env i)")
          case True
          then have "y = (Inl ElectTimedOut, Suc i)" using step bind Refused before by simp
          then show ?thesis using True by (simp add: run_explained_here turn_explains_def)
        next
          case False
          then have "loop env deadline (Suc i) = Some y" using step bind Refused before by simp
          from IH [OF this] bind Refused show ?thesis by (rule run_explained_later)
        qed
      qed
    qed
  qed
qed

section \<open>Properties\<close>

text \<open>
  Each backoff stays within its window whatever the process and the attempt: at least the
  base of the attempt, which doubles from 5 ms and stays at 80 ms, at most half as much again,
  and never over 100 ms; no multiplication of the code saturates.
\<close>

theorem retry_delay_window:
  "let base = min (5 * 2 ^ min (unat attempt) 4) 100 in
     unat (retry_base attempt) = base \<and>
     base \<le> retry_delay pid attempt \<and> 2 * retry_delay pid attempt \<le> 3 * base \<and>
     retry_delay pid attempt \<le> 100"
proof -
  have "unat (retry_base attempt) = min (5 * 2 ^ min (unat attempt) 4) 100"
  proof (cases "unat attempt < 4")
    case True
    then have "unat attempt \<in> {0, 1, 2, 3}" by auto
    then have "attempt \<in> {0, 1, 2, 3}" by (auto simp: word_unat_eq_iff)
    then show ?thesis by (auto simp: retry_base_values)
  next
    case False
    then have "attempt \<notin> {0, 1, 2, 3}" by auto
    then show ?thesis using False by (simp add: retry_base_values min_def)
  qed
  then show ?thesis using retry_delay_bounds [where attempt = attempt and pid = pid] by (simp add: Let_def)
qed

text \<open>
  C36. An election ends: if the clock advances by the sleeps, within 401 turns. Its result is
  what the last turn met: a leader only after binding the front-end address and the plugin
  address, a follower only after a connection, a timeout only past the deadline of two seconds;
  and every earlier turn found the address taken and its owner refusing. The IPv6 listener of a
  leader is the companion of its plugin address.
\<close>

theorem election_settles:
  assumes "clock_ok pid now env"
  shows "\<exists>r n. elect first_connect now env = Some (r, n) \<and> n \<le> 401 \<and>
    (n = 0 \<longrightarrow> r = Inr Follower \<and> first_connect = Connected \<or>
       (\<exists>e. r = Inl (ElectConnect e) \<and> first_connect = ConnectFailed e)) \<and>
    (0 < n \<longrightarrow> (\<exists>e. first_connect = Refused e) \<and> turn_explains (env (n - 1)) (now + 2000) r) \<and>
    (\<forall>j < n - 1. (\<exists>e. t_bind (env j) = AddrInUse e) \<and> (\<exists>e. t_connect (env j) = Refused e))"
proof (cases first_connect)
  case (Refused e)
  obtain r n where loop: "elect_loop env (now + 2000) 0 = Some (r, n)" and "n \<le> 401"
    using elect_loop_terminates [of now env "now + 2000" 0 400] clock_advances [OF assms] by auto
  moreover have "elect first_connect now env = Some (r, n)"
    using loop by (simp add: elect_def Refused ELECTION_TIMEOUT_def from_secs_def)
  ultimately show ?thesis
    using elect_loop_explained [OF loop] Refused by (auto simp: run_explained_def)
qed (simp_all add: elect_def)

definition busy_turn :: "nat \<Rightarrow> string turn" where
  "busy_turn i = \<lparr>t_bind = AddrInUse ''in use'', t_plugin_bind = Inr None, t_v6_binds = False,
     t_connect = Refused ''refused'', t_now_guard = 100 * i, t_now_end = 100 * i + 100\<rparr>"

theorem election_settles_witness:
  "\<exists>r n. elect (Refused ''refused'') 0 busy_turn = Some (r, n) \<and> n \<le> 401"
proof -
  have "clock_ok 7 0 busy_turn"
    using retry_delay_bounds(2) by (simp add: clock_ok_def busy_turn_def)
  from election_settles [OF this] show ?thesis by blast
qed

end
