(* ===== verification/Supervisor.thy ===== *)
theory Supervisor
  imports Election
begin

text \<open>
  Role supervision (\<open>crates/broker/src/supervisor.rs\<close>): which death is reported, when the next
  election may start, how loudly it is logged, and the coupling of the role with the backend the
  client is attached to. Times and durations are milliseconds; counters are \<open>u32\<close>.
\<close>

section \<open>Constants\<close>

definition RETRY_DELAY_BASE :: nat where "RETRY_DELAY_BASE = 100"
definition RETRY_DELAY_CAP :: nat where "RETRY_DELAY_CAP = from_secs 5"
definition FULL_LOG_ATTEMPTS :: u32 where "FULL_LOG_ATTEMPTS = 8"
definition QUIET_HEARTBEAT_ATTEMPTS :: u32 where "QUIET_HEARTBEAT_ATTEMPTS = 60"
definition CAUSE_DRAIN_WINDOW :: nat where "CAUSE_DRAIN_WINDOW = 100"
definition MIN_ELECTION_INTERVAL :: nat where "MIN_ELECTION_INTERVAL = RETRY_DELAY_BASE"
definition HEALTHY_ROLE_LIFETIME :: nat where "HEALTHY_ROLE_LIFETIME = RETRY_DELAY_CAP"
definition FULL_LOG_RECYCLES :: u32 where "FULL_LOG_RECYCLES = 3"
definition QUIET_HEARTBEAT_RECYCLES :: u32 where "QUIET_HEARTBEAT_RECYCLES = 12"

lemmas supervisor_consts [model_defs] =
  RETRY_DELAY_BASE_def RETRY_DELAY_CAP_def FULL_LOG_ATTEMPTS_def QUIET_HEARTBEAT_ATTEMPTS_def
  CAUSE_DRAIN_WINDOW_def MIN_ELECTION_INTERVAL_def HEALTHY_ROLE_LIFETIME_def
  FULL_LOG_RECYCLES_def QUIET_HEARTBEAT_RECYCLES_def from_secs_def

section \<open>Backoff\<close>

text \<open>A delay that doubles up to a cap, which both retry loops and the recycle policy share.\<close>

locale backoff =
  fixes base cap :: nat
  assumes base_pos: "0 < base" and base_le: "base \<le> cap"
begin

definition double :: "nat \<Rightarrow> nat" where
  "double delay = min (delay * 2) cap"

definition nth_delay :: "nat \<Rightarrow> nat" where
  "nth_delay n = (double ^^ n) base"

lemma nth_delay_eq: "nth_delay n = min (base * 2 ^ n) cap"
proof (induction n)
  case 0
  then show ?case using base_le by (simp add: nth_delay_def)
next
  case (Suc n)
  then show ?case by (auto simp: nth_delay_def double_def min_def)
qed

lemma nth_delay_bounds: "base \<le> nth_delay n" "nth_delay n \<le> cap"
  using base_le base_pos by (auto simp: nth_delay_eq min_def)

lemma nth_delay_mono: "m \<le> n \<Longrightarrow> nth_delay m \<le> nth_delay n"
  unfolding nth_delay_eq by (intro min.mono mult_le_mono power_increasing) simp_all

lemma nth_delay_capped: "cap \<le> base * 2 ^ n \<Longrightarrow> nth_delay n = cap"
  by (simp add: nth_delay_eq)

end

interpretation retry: backoff RETRY_DELAY_BASE RETRY_DELAY_CAP
  by unfold_locales (simp_all add: supervisor_consts)

text \<open>The step the two loops take: \<open>(delay * 2).min(RETRY_DELAY_CAP)\<close>.\<close>

definition next_delay :: "nat \<Rightarrow> nat" where
  "next_delay delay = min (delay * 2) RETRY_DELAY_CAP"

lemma next_delay_eq: "next_delay = retry.double"
  by (rule ext) (simp add: next_delay_def retry.double_def)

text \<open>\<open>recycle_delay\<close>, with its \<open>u32\<close> shift and saturating multiplication of a duration.\<close>

definition recycle_delay :: "u32 \<Rightarrow> nat" where
  "recycle_delay consecutive =
     (if consecutive = 0 then 0
      else
        let doublings = min (consecutive - 1) 16 in
        min (MIN_ELECTION_INTERVAL * unat (push_bit (unat doublings) (1 :: u32))) RETRY_DELAY_CAP)"

lemma power_small: "k \<le> 16 \<Longrightarrow> unat ((2 :: u32) ^ k) = 2 ^ k"
proof -
  assume "k \<le> 16"
  then have "(2 :: nat) ^ k \<le> 2 ^ 16" by (intro power_increasing) simp_all
  then have "unat (of_nat (2 ^ k) :: u32) = 2 ^ k"
    by (simp only: unat_of_nat) simp
  then show ?thesis by simp
qed

lemma recycle_delay_eq:
  assumes "consecutive \<noteq> 0"
  shows "recycle_delay consecutive = retry.nth_delay (unat consecutive - 1)"
proof -
  have pred: "unat (consecutive - 1) = unat consecutive - 1"
    using assms by (simp add: unat_minus_one)
  have "unat (min (consecutive - 1) 16) = min (unat consecutive - 1) 16"
    by (auto simp: min_def word_le_nat_alt pred)
  then have "recycle_delay consecutive =
      min (100 * 2 ^ min (unat consecutive - 1) 16) 5000"
    using assms by (simp add: recycle_delay_def Let_def push_bit_eq_mult power_small supervisor_consts)
  also have "\<dots> = min (100 * 2 ^ (unat consecutive - 1)) 5000"
  proof (cases "unat consecutive - 1 \<le> 16")
    case False
    then have "(2 :: nat) ^ 16 \<le> 2 ^ (unat consecutive - 1)" by (intro power_increasing) simp_all
    then show ?thesis using False by (simp add: min_def)
  qed (simp add: min_def)
  finally show ?thesis unfolding retry.nth_delay_eq by (simp add: supervisor_consts)
qed

section \<open>Logging bands\<close>

datatype election_log_level = LogFull | LogQuiet | LogHeartbeat

definition election_log :: "u32 \<Rightarrow> election_log_level" where
  "election_log attempt =
     (if attempt \<le> FULL_LOG_ATTEMPTS then LogFull
      else if attempt mod QUIET_HEARTBEAT_ATTEMPTS = 0 then LogHeartbeat
      else LogQuiet)"

definition recycle_log :: "u32 \<Rightarrow> election_log_level" where
  "recycle_log consecutive =
     (if consecutive \<le> FULL_LOG_RECYCLES then LogFull
      else if consecutive mod QUIET_HEARTBEAT_RECYCLES = 0 then LogHeartbeat
      else LogQuiet)"

fun attempt_verbosity :: "election_log_level \<Rightarrow> election_log_level \<Rightarrow> election_log_level" where
  "attempt_verbosity level LogFull = level"
| "attempt_verbosity LogHeartbeat _ = LogHeartbeat"
| "attempt_verbosity _ _ = LogQuiet"

section \<open>Why a role died\<close>

datatype 'b death = LeaderGone | ListenerStopped "'b option" | ListenerPanicked string

text \<open>A joined listener: it returned, it failed, or it panicked.\<close>

datatype 'b joined = JoinOk | JoinErr 'b | JoinPanic string

fun classify_join :: "'b joined option \<Rightarrow> 'b death" where
  "classify_join (Some JoinOk) = ListenerStopped None"
| "classify_join (Some (JoinErr e)) = ListenerStopped (Some e)"
| "classify_join (Some (JoinPanic e)) = ListenerPanicked e"
| "classify_join None = ListenerStopped None"

text \<open>
  The listeners joined before the drain window closes, in the order they arrive; when the list is
  exhausted, either the window has closed or the set is empty, and both end the search.
\<close>

fun drain_for_cause :: "'b joined list \<Rightarrow> 'b death option" where
  "drain_for_cause [] = None"
| "drain_for_cause (JoinOk # js) = drain_for_cause js"
| "drain_for_cause (JoinErr e # js) = Some (ListenerStopped (Some e))"
| "drain_for_cause (JoinPanic e # js) = Some (ListenerPanicked e)"

definition leader_death :: "'b joined option \<Rightarrow> 'b joined list \<Rightarrow> 'b death" where
  "leader_death first_joined within_window =
     (let death = classify_join first_joined in
      if death = ListenerStopped None
      then (case drain_for_cause within_window of Some cause \<Rightarrow> cause | None \<Rightarrow> death)
      else death)"

fun is_failure :: "'b joined \<Rightarrow> bool" where
  "is_failure JoinOk = False"
| "is_failure _ = True"

lemma drain_for_cause_eq:
  "drain_for_cause js = (case filter is_failure js of [] \<Rightarrow> None | j # _ \<Rightarrow> Some (classify_join (Some j)))"
  by (induction js rule: drain_for_cause.induct) auto

text \<open>
  \<open>Supervisor::shutdown\<close> joins every listener: the first error is the result, a panic is only
  logged.
\<close>

fun shutdown_join :: "('b + unit) \<Rightarrow> 'b joined list \<Rightarrow> 'b + unit" where
  "shutdown_join result [] = result"
| "shutdown_join result (JoinErr e # js) =
     shutdown_join (case result of Inr _ \<Rightarrow> Inl e | Inl _ \<Rightarrow> result) js"
| "shutdown_join result (JoinOk # js) = shutdown_join result js"
| "shutdown_join result (JoinPanic e # js) = shutdown_join result js"

section \<open>The supervisor\<close>

datatype role_kind = LeaderRole | FollowerRole
datatype backend = LocalBackend | RemoteBackend

record supervisor =
  sup_client :: "backend option"
  sup_role :: "role_kind option"
  elected_at :: "nat option"
  last_role_lifetime :: "nat option"
  consecutive_immediate_deaths :: u32

definition supervisor_new :: supervisor where
  "supervisor_new =
     \<lparr>sup_client = None, sup_role = None, elected_at = None, last_role_lifetime = None,
      consecutive_immediate_deaths = 0\<rparr>"

definition is_leader :: "supervisor \<Rightarrow> bool" where
  "is_leader s \<longleftrightarrow> sup_role s = Some LeaderRole"

definition install_role :: "nat \<Rightarrow> role_kind \<Rightarrow> backend \<Rightarrow> supervisor \<Rightarrow> supervisor" where
  "install_role now role backend s =
     s\<lparr>sup_client := Some backend, sup_role := Some role, elected_at := Some now\<rparr>"

text \<open>The eager \<open>Supervisor::start\<close>, with what \<open>elect_until_entered\<close> entered.\<close>

definition supervisor_start :: "nat \<Rightarrow> role_kind \<times> backend \<Rightarrow> supervisor" where
  "supervisor_start now entered =
     \<lparr>sup_client = Some (snd entered), sup_role = Some (fst entered), elected_at = Some now,
      last_role_lifetime = None, consecutive_immediate_deaths = 0\<rparr>"

definition clear_role :: "supervisor \<Rightarrow> supervisor \<times> role_kind option" where
  "clear_role s = (s\<lparr>sup_client := None, sup_role := None\<rparr>, sup_role s)"

definition death_log :: "supervisor \<Rightarrow> election_log_level" where
  "death_log s = (case last_role_lifetime s of
     Some lifetime \<Rightarrow>
       if lifetime \<ge> HEALTHY_ROLE_LIFETIME then LogFull
       else recycle_log (consecutive_immediate_deaths s)
   | None \<Rightarrow> recycle_log (consecutive_immediate_deaths s))"

definition note_death :: "nat \<Rightarrow> supervisor \<Rightarrow> supervisor" where
  "note_death now s = s\<lparr>last_role_lifetime := map_option (\<lambda>t. now - t) (elected_at s)\<rparr>"

definition sat_succ32 :: "u32 \<Rightarrow> u32" where
  "sat_succ32 n = (if n = - 1 then n else n + 1)"

text \<open>
  \<open>elect_next\<close> up to the election: the new counter, and how long it sleeps first.
\<close>

definition elect_next :: "nat \<Rightarrow> supervisor \<Rightarrow> supervisor \<times> nat option" where
  "elect_next now s = (case elected_at s of
     None \<Rightarrow> (s, None)
   | Some t \<Rightarrow>
       let alive_for = now - t;
           lifetime = (case last_role_lifetime s of Some l \<Rightarrow> l | None \<Rightarrow> alive_for);
           n = (if lifetime \<ge> HEALTHY_ROLE_LIFETIME then 0
                else sat_succ32 (consecutive_immediate_deaths s));
           delay = recycle_delay n
       in (s\<lparr>consecutive_immediate_deaths := n\<rparr>,
           if alive_for \<le> delay \<and> delay - alive_for \<noteq> 0 then Some (delay - alive_for) else None))"

text \<open>
  The retry loop of an election. \<open>entered i\<close> is what attempt \<open>i\<close> (from 0) enters, if anything; the
  result is what was entered and the delays slept. It returns only if some attempt enters.
\<close>

partial_function (option) elect_until_entered_from ::
    "(nat \<Rightarrow> 'e option) \<Rightarrow> nat \<Rightarrow> nat \<Rightarrow> ('e \<times> nat list) option" where
  "elect_until_entered_from entered delay i =
     (case entered i of
        Some e \<Rightarrow> Some (e, [])
      | None \<Rightarrow>
          Option.bind (elect_until_entered_from entered (next_delay delay) (Suc i))
            (\<lambda>(e, ds). Some (e, delay # ds)))"

definition elect_until_entered :: "(nat \<Rightarrow> 'e option) \<Rightarrow> ('e \<times> nat list) option" where
  "elect_until_entered entered = elect_until_entered_from entered RETRY_DELAY_BASE 0"

text \<open>What an outcome of the election enters: the role and the backend that serves it.\<close>

definition enter_role :: "election_outcome \<Rightarrow> bool \<Rightarrow> bool \<Rightarrow> (role_kind \<times> backend) option" where
  "enter_role outcome lease_available handshake_ok = (case outcome of
     Leader _ _ \<Rightarrow> if lease_available then Some (LeaderRole, LocalBackend) else None
   | Follower \<Rightarrow> if handshake_ok then Some (FollowerRole, RemoteBackend) else None)"

text \<open>The listeners a leader starts: the IPv6 one is retried when it was wanted and not bound.\<close>

datatype listener = ServePlugin | ServePluginV6 | RetryPluginV6 socket_addr | ServeFrontends

definition leader_listeners :: "socket_addr option \<Rightarrow> socket_addr option \<Rightarrow> listener list" where
  "leader_listeners local v6 =
     (let plugin_v6_retry = Option.bind local v6_companion in
      [ServePlugin]
      @ (case v6 of
           Some _ \<Rightarrow> [ServePluginV6]
         | None \<Rightarrow> (case plugin_v6_retry of Some a \<Rightarrow> [RetryPluginV6 a] | None \<Rightarrow> []))
      @ [ServeFrontends])"

text \<open>
  \<open>bind_v6_when_free\<close>: attempt \<open>i\<close> (from 0) binds \<open>bound i\<close>, if anything. The result is the listener and,
  for each attempt that failed, how it was logged and the delay slept after it.
\<close>

partial_function (option) bind_v6_when_free_from ::
    "(nat \<Rightarrow> 'l option) \<Rightarrow> nat \<Rightarrow> u32 \<Rightarrow> nat \<Rightarrow> ('l \<times> (election_log_level \<times> nat) list) option" where
  "bind_v6_when_free_from bound delay attempt i =
     (case bound i of
        Some l \<Rightarrow> Some (l, [])
      | None \<Rightarrow>
          Option.bind (bind_v6_when_free_from bound (next_delay delay) (attempt + 1) (Suc i))
            (\<lambda>(l, failed). Some (l, (election_log attempt, delay) # failed)))"

definition bind_v6_when_free :: "(nat \<Rightarrow> 'l option) \<Rightarrow> ('l \<times> (election_log_level \<times> nat) list) option" where
  "bind_v6_when_free bound = bind_v6_when_free_from bound RETRY_DELAY_BASE 1 0"

text \<open>
  \<open>serve_plugin_v6_when_free\<close>, with the number of attempts made before the shutdown of the broker is
  seen, if it is: \<open>Some (Some l)\<close> goes on to serve \<open>l\<close>, \<open>Some None\<close> returns, and \<^const>\<open>None\<close> never
  returns.
\<close>

definition serve_plugin_v6_when_free :: "(nat \<Rightarrow> 'l option) \<Rightarrow> nat option \<Rightarrow> 'l option option" where
  "serve_plugin_v6_when_free bound cancelled = (case cancelled of
     Some k \<Rightarrow> Some (case filter (\<lambda>i. bound i \<noteq> None) [0..<k] of [] \<Rightarrow> None | i # _ \<Rightarrow> bound i)
   | None \<Rightarrow> map_option (Some \<circ> fst) (bind_v6_when_free bound))"

text \<open>
  \<open>Supervisor::shutdown\<close>, with the listeners in the order they are joined: what it does, in order, and
  its result. A follower only gives up its role.
\<close>

datatype shutdown_effect = DropLease | WaitUntilIdle nat | DetachClient | ShutdownBroker

definition supervisor_shutdown ::
    "nat \<Rightarrow> 'b joined list \<Rightarrow> supervisor \<Rightarrow> supervisor \<times> shutdown_effect list \<times> ('b + unit)" where
  "supervisor_shutdown grace joined s = (case (s\<lparr>sup_role := None\<rparr>, sup_role s) of
     (s, Some LeaderRole) \<Rightarrow>
       (s\<lparr>sup_client := None\<rparr>, [DropLease, WaitUntilIdle grace, DetachClient, ShutdownBroker],
        shutdown_join (Inr ()) joined)
   | (s, _) \<Rightarrow> (s, [], Inr ()))"

text \<open>
  One turn of \<open>supervise\<close> for a role that dies at \<open>died\<close>: the teardown ends at \<open>torn\<close>, and the role
  entered next starts at \<open>next_start\<close>.
\<close>

definition supervise_cycle ::
    "nat \<Rightarrow> nat \<Rightarrow> nat \<Rightarrow> role_kind \<times> backend \<Rightarrow> supervisor \<Rightarrow> supervisor \<times> nat option" where
  "supervise_cycle died torn next_start entered s =
     (let s = note_death died s;
          s = fst (clear_role s)
      in case elect_next torn s of
           (s, floor) \<Rightarrow> (install_role next_start (fst entered) (snd entered) s, floor))"

section \<open>Lemmas\<close>

lemma elect_until_entered_at:
  "entered (i + k) = Some e \<Longrightarrow> (\<And>j. j < k \<Longrightarrow> entered (i + j) = None) \<Longrightarrow>
     elect_until_entered_from entered (retry.nth_delay i) i =
       Some (e, map retry.nth_delay [i..<i + k])"
proof (induction k arbitrary: i)
  case 0
  then show ?case by (simp add: elect_until_entered_from.simps)
next
  case (Suc k)
  have "elect_until_entered_from entered (retry.nth_delay (Suc i)) (Suc i) =
      Some (e, map retry.nth_delay [Suc i..<Suc i + k])"
  proof (rule Suc.IH)
    show "entered (Suc i + k) = Some e" using Suc.prems(1) by simp
    show "entered (Suc i + j) = None" if "j < k" for j
      using Suc.prems(2) [of "Suc j"] that by simp
  qed
  moreover have "next_delay (retry.nth_delay i) = retry.nth_delay (Suc i)"
    by (simp add: next_delay_eq retry.nth_delay_def)
  moreover have "entered i = None" using Suc.prems(2) [of 0] by simp
  ultimately show ?case
    by (subst elect_until_entered_from.simps) (simp add: upt_conv_Cons del: upt_Suc)
qed

lemma elect_until_entered_enters:
  "elect_until_entered_from entered delay i = Some y \<Longrightarrow> \<exists>j. entered j \<noteq> None"
proof (rule elect_until_entered_from.raw_induct [where P = "\<lambda>f _ _ _. \<exists>j. f j \<noteq> None"])
  fix loop and entered :: "nat \<Rightarrow> 'e option" and delay i y
  assume IH: "\<And>entered delay i y. loop entered delay i = Some y \<Longrightarrow> \<exists>j. entered j \<noteq> (None :: 'e option)"
    and step: "(case entered i of Some e \<Rightarrow> Some (e, [])
      | None \<Rightarrow> Option.bind (loop entered (next_delay delay) (Suc i)) (\<lambda>(e, ds). Some (e, delay # ds)))
        = Some y"
  show "\<exists>j. entered j \<noteq> None"
  proof (cases "entered i")
    case None
    then obtain y' where "loop entered (next_delay delay) (Suc i) = Some y'"
      using step by (auto simp: bind_eq_Some_conv)
    then show ?thesis by (rule IH)
  next
    case (Some e)
    then have "entered i \<noteq> None" by simp
    then show ?thesis ..
  qed
qed

text \<open>The IPv6 listener is bound by the first attempt that binds one, unless the shutdown comes first.\<close>

lemma bind_v6_at:
  "bound (i + k) = Some l \<Longrightarrow> (\<And>j. j < k \<Longrightarrow> bound (i + j) = None) \<Longrightarrow>
     bind_v6_when_free_from bound (retry.nth_delay i) (of_nat (Suc i)) i =
       Some (l, map (\<lambda>j. (election_log (of_nat (Suc j)), retry.nth_delay j)) [i..<i + k])"
proof (induction k arbitrary: i)
  case 0
  then show ?case by (simp add: bind_v6_when_free_from.simps)
next
  case (Suc k)
  have "bind_v6_when_free_from bound (retry.nth_delay (Suc i)) (of_nat (Suc (Suc i))) (Suc i) =
      Some (l, map (\<lambda>j. (election_log (of_nat (Suc j)), retry.nth_delay j)) [Suc i..<Suc i + k])"
  proof (rule Suc.IH)
    show "bound (Suc i + k) = Some l" using Suc.prems(1) by simp
    show "bound (Suc i + j) = None" if "j < k" for j
      using Suc.prems(2) [of "Suc j"] that by simp
  qed
  moreover have "next_delay (retry.nth_delay i) = retry.nth_delay (Suc i)"
    by (simp add: next_delay_eq retry.nth_delay_def)
  moreover have "of_nat (Suc i) + 1 = (of_nat (Suc (Suc i)) :: u32)" by simp
  moreover have "bound i = None" using Suc.prems(2) [of 0] by simp
  ultimately show ?case
    by (subst bind_v6_when_free_from.simps) (simp add: upt_conv_Cons del: upt_Suc of_nat_Suc)
qed

lemma bind_v6_first:
  assumes "\<forall>j < i. bound j = None" and "bound i = Some l"
  shows "bind_v6_when_free bound =
    Some (l, map (\<lambda>j. (election_log (of_nat (Suc j)), min (100 * 2 ^ j) 5000)) [0..<i])"
proof -
  have base: "retry.nth_delay 0 = RETRY_DELAY_BASE" by (simp add: retry.nth_delay_def)
  have delays: "retry.nth_delay = (\<lambda>j. min (100 * 2 ^ j) 5000)"
    unfolding retry.nth_delay_eq by (simp add: supervisor_consts)
  show ?thesis
    using bind_v6_at [of bound 0 i l] assms by (simp add: bind_v6_when_free_def base) (simp add: delays)
qed

lemma serve_plugin_v6_ends:
  "serve_plugin_v6_when_free bound (Some k) \<noteq> None"
  "\<forall>j < k. bound j = None \<Longrightarrow> serve_plugin_v6_when_free bound (Some k) = Some None"
  "\<forall>j < i. bound j = None \<Longrightarrow> bound i = Some l \<Longrightarrow> serve_plugin_v6_when_free bound None = Some (Some l)"
  by (simp_all add: serve_plugin_v6_when_free_def bind_v6_first filter_empty_conv split: list.split)

lemma supervisor_shutdown_order:
  "sup_role s = Some LeaderRole \<Longrightarrow> supervisor_shutdown grace joined s =
     (s\<lparr>sup_role := None, sup_client := None\<rparr>, [DropLease, WaitUntilIdle grace, DetachClient, ShutdownBroker],
      shutdown_join (Inr ()) joined)"
  "sup_role s \<noteq> Some LeaderRole \<Longrightarrow> supervisor_shutdown grace joined s = (s\<lparr>sup_role := None\<rparr>, [], Inr ())"
  by (auto simp: supervisor_shutdown_def split: option.split role_kind.split)

text \<open>Starting eagerly enters the role as the first turn of \<open>supervise\<close> does.\<close>

lemma supervisor_start_installs: "supervisor_start now entered = install_role now (fst entered) (snd entered) supervisor_new"
  by (simp add: supervisor_start_def install_role_def supervisor_new_def)

lemma leader_death_eq:
  "leader_death (Some j) js =
    (case filter is_failure (j # js) of [] \<Rightarrow> ListenerStopped None | f # _ \<Rightarrow> classify_join (Some f))"
  by (cases j) (auto simp: leader_death_def drain_for_cause_eq split: list.split)

lemma shutdown_join_eq:
  "shutdown_join result js = (case result of Inl e \<Rightarrow> Inl e
    | Inr _ \<Rightarrow> (case [e. JoinErr e \<leftarrow> js] of [] \<Rightarrow> Inr () | e # _ \<Rightarrow> Inl e))"
  by (induction result js rule: shutdown_join.induct) (auto split: sum.split)

lemma mod_hits: "(0 :: nat) < m \<Longrightarrow> \<exists>k < m. (n + k) mod m = 0"
proof -
  assume m: "0 < m"
  show ?thesis
  proof (cases "n mod m = 0")
    case True
    then show ?thesis using m by (intro exI [of _ 0]) simp
  next
    case False
    have "(n + (m - n mod m)) mod m = (n mod m + (m - n mod m)) mod m" by (simp only: mod_add_left_eq)
    also have "\<dots> = 0" using m by (simp add: less_imp_le)
    finally show ?thesis using False m by (intro exI [of _ "m - n mod m"]) simp
  qed
qed

lemma unat_of_nat_small: "n < 2 ^ 32 \<Longrightarrow> unat (of_nat n :: u32) = n"
  by (simp only: unat_of_nat) simp

section \<open>Properties\<close>

text \<open>
  The recycle policy and the retry loop back off identically: the delay after the
  \<open>n\<close>-th death in a row is the loop's \<open>n\<close>-th delay, from 100 ms doubling to five seconds, it never
  decreases while the deaths go on, and it is zero exactly after a healthy role.
\<close>

theorem recycle_matches_retry:
  "(recycle_delay n = 0 \<longleftrightarrow> n = 0) \<and>
   (n \<noteq> 0 \<longrightarrow> recycle_delay n = (next_delay ^^ (unat n - 1)) 100 \<and>
      100 \<le> recycle_delay n \<and> recycle_delay n \<le> 5000) \<and>
   (n \<le> m \<longrightarrow> recycle_delay n \<le> recycle_delay m)"
proof (intro conjI impI)
  show z: "recycle_delay n = 0 \<longleftrightarrow> n = 0"
    using retry.nth_delay_bounds(1) [of "unat n - 1"]
    by (cases "n = 0") (simp_all add: recycle_delay_eq, simp_all add: recycle_delay_def supervisor_consts)
  assume n: "n \<noteq> 0"
  show "recycle_delay n = (next_delay ^^ (unat n - 1)) 100"
    using recycle_delay_eq [OF n]
    unfolding retry.nth_delay_def next_delay_eq by (simp add: RETRY_DELAY_BASE_def)
  show "100 \<le> recycle_delay n" "recycle_delay n \<le> 5000"
    using retry.nth_delay_bounds [of "unat n - 1"] recycle_delay_eq [OF n]
    by (simp_all add: supervisor_consts)
next
  assume le: "n \<le> m"
  show "recycle_delay n \<le> recycle_delay m"
  proof (cases "n = 0")
    case True
    then show ?thesis by (simp add: recycle_delay_def)
  next
    case False
    then have "m \<noteq> 0" using le by auto
    then show ?thesis
      using False le by (simp add: recycle_delay_eq retry.nth_delay_mono word_le_nat_alt diff_le_mono)
  qed
qed

theorem recycle_matches_retry_witness:
  "recycle_delay 4 = 800 \<and> recycle_delay 4 \<le> recycle_delay 7"
  using recycle_matches_retry [of 4 7]
  by (simp add: next_delay_def RETRY_DELAY_CAP_def from_secs_def numeral_3_eq_3)

text \<open>
  C37. The retry loop enters the role of the first attempt that enters one, having slept, before
  attempt \<open>j + 1\<close>, the capped doubling of 100 ms; and it goes on for ever exactly when no attempt
  ever enters a role.
\<close>

theorem elect_until_entered_result:
  "((\<forall>j < i. entered j = None) \<and> entered i = Some e \<longrightarrow>
      elect_until_entered entered = Some (e, map (\<lambda>j. min (100 * 2 ^ j) 5000) [0..<i])) \<and>
   (elect_until_entered entered = None \<longleftrightarrow> (\<forall>j. entered j = None))"
proof -
  have base: "retry.nth_delay 0 = RETRY_DELAY_BASE" by (simp add: retry.nth_delay_def)
  have delays: "retry.nth_delay = (\<lambda>j. min (100 * 2 ^ j) 5000)"
    unfolding retry.nth_delay_eq by (simp add: supervisor_consts)
  have first: "elect_until_entered entered = Some (e, map retry.nth_delay [0..<i])"
    if "\<forall>j < i. entered j = None" "entered i = Some e" for i e
    using elect_until_entered_at [of entered 0 i e] that
    by (simp add: elect_until_entered_def base)
  have "elect_until_entered entered = None \<longleftrightarrow> (\<forall>j. entered j = None)"
  proof
    assume none: "elect_until_entered entered = None"
    show "\<forall>j. entered j = None"
    proof (rule ccontr)
      assume "\<not> ?thesis"
      then have "\<exists>j. entered j \<noteq> None" by blast
      then obtain j where "entered j \<noteq> None" "\<forall>k < j. \<not> entered k \<noteq> None"
        unfolding exists_least_iff [of "\<lambda>j. entered j \<noteq> None"] by blast
      then show False using first [of j] none by auto
    qed
  next
    assume "\<forall>j. entered j = None"
    then show "elect_until_entered entered = None"
      using elect_until_entered_enters [of entered RETRY_DELAY_BASE 0]
      by (cases "elect_until_entered entered") (auto simp: elect_until_entered_def)
  qed
  then show ?thesis using first [of i e] by (simp add: delays)
qed

theorem elect_until_entered_result_witness:
  "elect_until_entered (\<lambda>i. if i = 2 then Some ''leader'' else None) = Some (''leader'', [100, 200])"
  using elect_until_entered_result [of 2 "\<lambda>i. if i = 2 then Some ''leader'' else None" "''leader''"]
  by (simp add: upt_rec)

text \<open>
  C38. The cycle is rate-limited: from one role's start to the next start there is at least the
  recycle delay, at least 100 ms after a role that died on arrival, and nothing is waited for after
  a role that lived five seconds, however slow its teardown; and after the cycle the role and the
  backend the client is attached to belong together.
\<close>

theorem supervise_rate_limited:
  assumes "elected_at s = Some start" and "start \<le> died" and "died \<le> torn"
    and "supervise_cycle died torn next_start entered s = (s', floor)"
    and "torn + (case floor of Some f \<Rightarrow> f | None \<Rightarrow> 0) \<le> next_start"
    and "enter_role outcome lease handshake = Some entered"
  shows "start + recycle_delay (consecutive_immediate_deaths s') \<le> next_start
    \<and> (died - start < 5000 \<longrightarrow> start + 100 \<le> next_start \<and>
         consecutive_immediate_deaths s' = sat_succ32 (consecutive_immediate_deaths s))
    \<and> (5000 \<le> died - start \<longrightarrow> floor = None \<and> consecutive_immediate_deaths s' = 0)
    \<and> elected_at s' = Some next_start
    \<and> (sup_role s', sup_client s') \<in>
         {(Some LeaderRole, Some LocalBackend), (Some FollowerRole, Some RemoteBackend)}"
proof -
  define n where "n = (if 5000 \<le> died - start then 0 else sat_succ32 (consecutive_immediate_deaths s))"
  define alive where "alive = torn - start"
  have floor: "floor = (if alive \<le> recycle_delay n \<and> recycle_delay n - alive \<noteq> 0
      then Some (recycle_delay n - alive) else None)"
    and s': "consecutive_immediate_deaths s' = n" "elected_at s' = Some next_start"
    "sup_role s' = Some (fst entered)" "sup_client s' = Some (snd entered)"
    using assms(1,4)
    by (auto simp: supervise_cycle_def note_death_def clear_role_def elect_next_def Let_def
        install_role_def n_def alive_def supervisor_consts split: if_splits)
  have wait: "start + recycle_delay n \<le> next_start"
  proof (cases "alive < recycle_delay n")
    case True
    then have "torn + (recycle_delay n - alive) \<le> next_start" using assms(5) floor by simp
    then show ?thesis using assms(2,3) True by (simp add: alive_def)
  next
    case False
    then show ?thesis using assms(2,3,5) by (simp add: alive_def)
  qed
  have n_zero: "n = 0 \<and> floor = None" if "5000 \<le> died - start"
    using that floor by (simp add: n_def recycle_delay_def)
  have n_pos: "n = sat_succ32 (consecutive_immediate_deaths s) \<and> 100 \<le> recycle_delay n"
    if "died - start < 5000"
  proof -
    have n: "n = sat_succ32 (consecutive_immediate_deaths s)" using that by (simp add: n_def)
    then have "n \<noteq> 0" by (auto simp: sat_succ32_def add_eq_0_iff add.commute split: if_splits)
    then show ?thesis
      using n retry.nth_delay_bounds(1) [of "unat n - 1"]
      by (simp add: recycle_delay_eq) (simp add: supervisor_consts)
  qed
  have "entered \<in> {(LeaderRole, LocalBackend), (FollowerRole, RemoteBackend)}"
    using assms(6) by (auto simp: enter_role_def split: election_outcome.splits if_splits)
  then show ?thesis using wait n_zero n_pos s' by (cases entered) auto
qed

definition spinning :: supervisor where
  "spinning = (install_role 1000 LeaderRole LocalBackend supervisor_new)
     \<lparr>consecutive_immediate_deaths := 2\<rparr>"

theorem supervise_rate_limited_witness:
  "case supervise_cycle 1010 1050 1400 (FollowerRole, RemoteBackend) spinning of (s', floor) \<Rightarrow>
     floor = Some 350 \<and> 1000 + recycle_delay (consecutive_immediate_deaths s') \<le> 1400"
proof -
  obtain s' where *: "supervise_cycle 1010 1050 1400 (FollowerRole, RemoteBackend) spinning =
      (s', Some 350)"
    by (simp add: supervise_cycle_def spinning_def install_role_def note_death_def clear_role_def
        elect_next_def supervisor_consts sat_succ32_def recycle_delay_def push_bit_eq_mult)
  show ?thesis
    unfolding * prod.case
    using supervise_rate_limited [OF _ _ _ *, of 1000 Follower True True]
    by (auto simp: spinning_def install_role_def enter_role_def)
qed

text \<open>
  The cause reported for a leader's death is the first real failure among the listeners that
  stopped, even if a clean stop arrived before it; only when every one of them stopped cleanly is
  a clean stop reported. Shutting down, the first error of a listener is the result, and panics
  are not.
\<close>

theorem death_names_first_failure:
  "leader_death (Some j) js =
     (case filter is_failure (j # js) of
        [] \<Rightarrow> ListenerStopped None
      | JoinErr e # _ \<Rightarrow> ListenerStopped (Some e)
      | JoinPanic m # _ \<Rightarrow> ListenerPanicked m
      | JoinOk # _ \<Rightarrow> ListenerStopped None) \<and>
   shutdown_join (Inr ()) js = (case [e. JoinErr e \<leftarrow> js] of [] \<Rightarrow> Inr () | e # _ \<Rightarrow> Inl e)"
  unfolding leader_death_eq shutdown_join_eq by (simp split: list.split joined.split)

text \<open>
  The election log never falls silent: the first eight attempts are reported in full, and
  after them any sixty consecutive attempts hold a heartbeat, which survives the ceiling of a
  spinning supervisor; by the first quiet attempt the delay has reached its cap.
\<close>

theorem election_log_never_silent:
  assumes "n + 60 < 2 ^ 32"
  shows "(n \<le> 8 \<longrightarrow> attempt_verbosity (election_log (of_nat n)) LogFull = LogFull)
    \<and> (8 < n \<longrightarrow> (\<exists>k < 60. attempt_verbosity (election_log (of_nat (n + k))) ceiling = LogHeartbeat))
    \<and> (8 < n \<longrightarrow> (next_delay ^^ (n - 2)) 100 = 5000)"
proof (intro conjI impI)
  have small: "unat (of_nat (n + k) :: u32) = n + k" if "k < 60" for k
    using assms that by (intro unat_of_nat_small) simp
  show "attempt_verbosity (election_log (of_nat n)) LogFull = LogFull" if "n \<le> 8"
    using that small [of 0] by (simp add: election_log_def FULL_LOG_ATTEMPTS_def word_le_nat_alt)
  assume n: "8 < n"
  obtain k where k: "k < 60" "(n + k) mod 60 = 0" using mod_hits [of 60 n] by auto
  have "unat ((of_nat (n + k) :: u32) mod 60) = 0"
    unfolding unat_mod small [OF k(1)] using k(2) by simp
  then have "(of_nat (n + k) :: u32) mod 60 = 0" by (simp only: unat_eq_zero)
  moreover have "\<not> (of_nat (n + k) :: u32) \<le> 8"
    using n unfolding word_le_nat_alt small [OF k(1)] by simp
  ultimately have "election_log (of_nat (n + k)) = LogHeartbeat"
    unfolding election_log_def FULL_LOG_ATTEMPTS_def QUIET_HEARTBEAT_ATTEMPTS_def by simp
  then show "\<exists>k < 60. attempt_verbosity (election_log (of_nat (n + k))) ceiling = LogHeartbeat"
    using k(1) by (cases ceiling) auto
  have "(2 :: nat) ^ 6 \<le> 2 ^ (n - 2)" using n by (intro power_increasing) simp_all
  then have "retry.nth_delay (n - 2) = RETRY_DELAY_CAP"
    by (intro retry.nth_delay_capped) (simp add: supervisor_consts)
  then show "(next_delay ^^ (n - 2)) 100 = 5000"
    unfolding retry.nth_delay_def next_delay_eq by (simp add: supervisor_consts)
qed

theorem election_log_never_silent_witness:
  "(next_delay ^^ 7) 100 = 5000"
  using election_log_never_silent [of 9 LogQuiet] by simp

end
