(* ===== verification/Frontend.thy ===== *)
theory Frontend
  imports Socket
begin

text \<open>
  The leader's side of the front-end protocol (\<open>serve\<close> and \<open>serve_frontend\<close> of
  \<open>crates/broker/src/rpc.rs\<close>): the handshake, the loop of a connection, the task of each call and
  the teardown. The transport and the broker the calls go to are the environment: a frame that
  arrived, whether a write succeeded, what \<open>client.open\<close> and its channels yield are arguments of
  the steps. \<open>'w\<close> is the type of transport errors.
\<close>

section \<open>Accepting and handshake\<close>

definition HANDSHAKE_TIMEOUT :: nat where
  "HANDSHAKE_TIMEOUT = from_secs 2"

text \<open>One turn of \<open>serve\<close>: an accept error ends it, a peer that is not loopback is dropped.\<close>

definition serve_frontends_turn :: "bool \<Rightarrow> ('w + ip_addr) option \<Rightarrow> ip_addr option \<times> ('w broker_error + unit) option" where
  "serve_frontends_turn shutdown accepted =
     (if shutdown then (None, Some (Inr ()))
      else case accepted of
        None \<Rightarrow> (None, None)
      | Some (Inl e) \<Rightarrow> (None, Some (Inl (IoError e)))
      | Some (Inr peer) \<Rightarrow> (if is_loopback peer then Some peer else None, None))"

text \<open>
  What the stream yields within the timeout: nothing in time, its end, an error, or a frame, which
  is the JSON value it parses to, if any.
\<close>

datatype 'w first_frame = FirstTimedOut | FirstEnd | FirstError 'w | FirstFrame "json option"

text \<open>A write fails with an error of the transport, or does not.\<close>

type_synonym 'w written = "'w option"

definition sent :: "'w written \<Rightarrow> 'w broker_error + unit" where
  "sent w = (case w of None \<Rightarrow> Inr () | Some e \<Rightarrow> Inl (IoError e))"

text \<open>
  The handshake: the answers written, the activity with the lease taken, and whether the connection
  is served; a refused lease ends it without an error.
\<close>

definition accept_hello ::
    "'w written \<Rightarrow> frontend_hello \<Rightarrow> activity_state
      \<Rightarrow> activity_state \<times> frontend_handshake list \<times> ('w broker_error + bool)" where
  "accept_hello w hello a =
     (if fh_protocol_version hello \<noteq> FRONTEND_PROTOCOL_VERSION then
        (case sent w of
           Inl e \<Rightarrow> (a, [], Inl e)
         | Inr _ \<Rightarrow> (a, [HandshakeRejected (tool_error_new error_code.ProtocolMismatch False)],
                     Inl FrontendProtocolMismatch))
      else case frontend_lease a of
        None \<Rightarrow> (a, [], Inr False)
      | Some a' \<Rightarrow>
          (case sent w of
             Inl e \<Rightarrow> (drop_frontend_lease a', [], Inl e)
           | Inr _ \<Rightarrow> (a', [HandshakeReady], Inr True)))"

fun first_frame_step ::
    "'w first_frame \<Rightarrow> 'w written \<Rightarrow> activity_state
      \<Rightarrow> activity_state \<times> frontend_handshake list \<times> ('w broker_error + bool)" where
  "first_frame_step FirstTimedOut w a = (a, [], Inl FrontendHandshakeTimedOut)"
| "first_frame_step FirstEnd w a = (a, [], Inl FrontendFirstFrame)"
| "first_frame_step (FirstError e) w a = (a, [], Inl (IoError e))"
| "first_frame_step (FirstFrame f) w a =
     (case Option.bind f dec_frontend_hello of
        None \<Rightarrow> (a, [], Inl JsonError)
      | Some hello \<Rightarrow> accept_hello w hello a)"

section \<open>Bodies\<close>

text \<open>\<open>body\<close>: the encoded message without the length prefix, which the codec writes itself.\<close>

definition message_body :: "json option \<Rightarrow> 'w broker_error + json" where
  "message_body encoded = (case encoded of
     None \<Rightarrow> Inl (FrontendFrame FrameJson)
   | Some j \<Rightarrow>
       if src_len j > MAX_ENVELOPE_BYTES
       then Inl (FrontendFrame (FrameTooLarge (MAX_ENVELOPE_BYTES + 1) MAX_ENVELOPE_BYTES))
       else Inr j)"

section \<open>The loop of a connection\<close>

text \<open>
  The task of a call: in \<open>client.open\<close>, in its select, waiting for room in the progress channel of
  the connection, or done. A cancellation token is named by the number of its task.
\<close>

datatype ('f, 'r) task_at =
    TaskOpening
  | TaskWaiting
  | TaskSending normalized_progress
  | TaskFinished "tool_error + ('f, 'r) broker_result"

record ('i, 'f, 'r) call_task =
  ct_id :: string
  ct_call :: "'i broker_call"
  ct_at :: "('f, 'r) task_at"

definition PROGRESS_CAPACITY :: nat where
  "PROGRESS_CAPACITY = 32"

text \<open>
  The last four fields are histories: the messages written, the requests accepted, the results of
  the calls that completed while the loop ran, and the tasks that told the broker to cancel.
\<close>

record ('i, 'f, 'r, 'w) frontend_conn =
  fc_active :: "(string, nat) hash_map"
  fc_tokens :: "nat list"
  fc_calls :: "(nat, ('i, 'f, 'r) call_task) hash_map"
  fc_progress :: "(string \<times> normalized_progress) list"
  fc_fresh :: nat
  fc_end :: "('w broker_error + unit) option"
  fc_written :: "('f, 'r) leader_to_frontend list"
  fc_accepted :: "string list"
  fc_results :: "(string \<times> 'i broker_call \<times> (tool_error + ('f, 'r) broker_result)) list"
  fc_aborted :: "nat list"

definition frontend_conn_new :: "('i, 'f, 'r, 'w) frontend_conn" where
  "frontend_conn_new =
     \<lparr>fc_active = [], fc_tokens = [], fc_calls = [], fc_progress = [], fc_fresh = 0, fc_end = None,
      fc_written = [], fc_accepted = [], fc_results = [], fc_aborted = []\<rparr>"

text \<open>The loop is over: every token still in the map is cancelled.\<close>

definition end_loop :: "'w broker_error + unit \<Rightarrow> ('i, 'f, 'r, 'w) frontend_conn \<Rightarrow> ('i, 'f, 'r, 'w) frontend_conn" where
  "end_loop r c =
     c\<lparr>fc_end := Some r, fc_tokens := fc_tokens c @ map snd (fc_active c), fc_active := []\<rparr>"

definition write_message ::
    "'w written \<Rightarrow> ('f, 'r) leader_to_frontend \<Rightarrow> ('i, 'f, 'r, 'w) frontend_conn \<Rightarrow> ('i, 'f, 'r, 'w) frontend_conn"
  where
  "write_message w m c =
     (case sent w of
        Inl e \<Rightarrow> end_loop (Inl e) c
      | Inr _ \<Rightarrow> c\<lparr>fc_written := fc_written c @ [m]\<rparr>)"

fun frontend_message ::
    "'i frontend_to_leader \<Rightarrow> ('i, 'f, 'r, 'w) frontend_conn \<Rightarrow> ('i, 'f, 'r, 'w) frontend_conn" where
  "frontend_message (FRequest i call) c =
     (if hm_contains (fc_active c) i then end_loop (Inl DuplicateFrontendRequest) c
      else
        let t = fc_fresh c in
        c\<lparr>fc_active := hm_insert i t (fc_active c), fc_fresh := Suc t,
          fc_calls := hm_insert t \<lparr>ct_id = i, ct_call = call, ct_at = TaskOpening\<rparr> (fc_calls c),
          fc_accepted := fc_accepted c @ [i]\<rparr>)"
| "frontend_message (FCancel i) c =
     (case hm_get (fc_active c) i of
        None \<Rightarrow> c
      | Some t \<Rightarrow> c\<lparr>fc_tokens := fc_tokens c @ [t]\<rparr>)"

text \<open>What the stream yields: its end, an error, or the JSON value of a frame, if it parses.\<close>

definition frontend_frame ::
    "(json \<Rightarrow> 'i frontend_to_leader option) \<Rightarrow> ('w + json option) option
      \<Rightarrow> ('i, 'f, 'r, 'w) frontend_conn \<Rightarrow> ('i, 'f, 'r, 'w) frontend_conn" where
  "frontend_frame dm frm c = (case frm of
     None \<Rightarrow> end_loop (Inr ()) c
   | Some (Inl e) \<Rightarrow> end_loop (Inl (IoError e)) c
   | Some (Inr f) \<Rightarrow>
       (case Option.bind f dm of
          None \<Rightarrow> end_loop (Inl JsonError) c
        | Some m \<Rightarrow> frontend_message m c))"

definition progress_message :: "string \<Rightarrow> normalized_progress \<Rightarrow> ('f, 'r) leader_to_frontend" where
  "progress_message i p = LProgress i
     \<lparr>rp_completed = np_completed p, rp_total = np_total p,
      rp_message = (case bounded_try_from DISPLAY_TEXT (phase_as_str (np_phase p)) of
        Inl _ \<Rightarrow> None | Inr m \<Rightarrow> Some m)\<rparr>"

definition forward_progress ::
    "(('f, 'r) leader_to_frontend \<Rightarrow> json option) \<Rightarrow> 'w written
      \<Rightarrow> ('i, 'f, 'r, 'w) frontend_conn \<Rightarrow> ('i, 'f, 'r, 'w) frontend_conn" where
  "forward_progress em w c = (case fc_progress c of
     [] \<Rightarrow> c
   | (i, p) # rest \<Rightarrow>
       (let c = c\<lparr>fc_progress := rest\<rparr>; m = progress_message i p in
        case message_body (em m) :: 'w broker_error + json of
          Inl _ \<Rightarrow> c
        | Inr _ \<Rightarrow> write_message w m c))"

fun answer_message :: "string \<Rightarrow> tool_error + ('f, 'r) broker_result \<Rightarrow> ('f, 'r) leader_to_frontend" where
  "answer_message i (Inr result) = LResponse i result"
| "answer_message i (Inl e) = LError i e"

text \<open>A finished call is answered; an answer that does not fit is replaced by an error that does.\<close>

definition complete_call ::
    "(('f, 'r) leader_to_frontend \<Rightarrow> json option) \<Rightarrow> 'w written \<Rightarrow> nat
      \<Rightarrow> ('i, 'f, 'r) call_task \<Rightarrow> tool_error + ('f, 'r) broker_result
      \<Rightarrow> ('i, 'f, 'r, 'w) frontend_conn \<Rightarrow> ('i, 'f, 'r, 'w) frontend_conn" where
  "complete_call em w t k result c =
     (let i = ct_id k;
          c = c\<lparr>fc_calls := hm_remove t (fc_calls c), fc_active := hm_remove i (fc_active c),
                fc_results := fc_results c @ [(i, ct_call k, result)]\<rparr>;
          m = answer_message i result;
          fallback = LError i (tool_error_new LimitExceeded False) in
      case message_body (em m) :: 'w broker_error + json of
        Inr _ \<Rightarrow> write_message w m c
      | Inl _ \<Rightarrow>
          (case message_body (em fallback) of
             Inr _ \<Rightarrow> write_message w fallback c
           | Inl e \<Rightarrow> end_loop (Inl e) c))"

section \<open>Steps\<close>

text \<open>
  Events of the loop while it runs, steps of a task, and the joins of the teardown. An event that
  is not possible in a state does nothing.
\<close>

datatype ('f, 'r, 'w) conn_event =
    LoopShutdown
  | LoopFrame "('w + json option) option"
  | LoopProgress "'w written"
  | LoopCompletion nat "'w written"
  | TaskOpened nat "tool_error option"
  | TaskResult nat "(tool_error + ('f, 'r) broker_result) option"
  | TaskProgress nat "normalized_progress option"
  | TaskSend nat
  | TaskCancelled nat
  | Joined nat

definition set_task ::
    "nat \<Rightarrow> ('i, 'f, 'r) call_task \<Rightarrow> ('f, 'r) task_at \<Rightarrow> ('i, 'f, 'r, 'w) frontend_conn
      \<Rightarrow> ('i, 'f, 'r, 'w) frontend_conn" where
  "set_task t k at c = c\<lparr>fc_calls := hm_insert t (k\<lparr>ct_at := at\<rparr>) (fc_calls c)\<rparr>"

fun task_step ::
    "('f, 'r, 'w) conn_event \<Rightarrow> nat \<Rightarrow> ('i, 'f, 'r) call_task \<Rightarrow> ('i, 'f, 'r, 'w) frontend_conn
      \<Rightarrow> ('i, 'f, 'r, 'w) frontend_conn" where
  "task_step (TaskOpened _ opened) t k c =
     (if ct_at k \<noteq> TaskOpening then c
      else case opened of
        None \<Rightarrow> set_task t k TaskWaiting c
      | Some e \<Rightarrow> set_task t k (TaskFinished (Inl e)) c)"
| "task_step (TaskResult _ received) t k c =
     (if ct_at k \<noteq> TaskWaiting then c
      else set_task t k (TaskFinished
        (case received of None \<Rightarrow> Inl (tool_error_new ConnectionLost True) | Some r \<Rightarrow> r)) c)"
| "task_step (TaskProgress _ received) t k c =
     (if ct_at k \<noteq> TaskWaiting then c
      else case received of None \<Rightarrow> c | Some p \<Rightarrow> set_task t k (TaskSending p) c)"
| "task_step (TaskSend _) t k c =
     (case ct_at k of
        TaskSending p \<Rightarrow>
          if length (fc_progress c) < PROGRESS_CAPACITY
          then set_task t k TaskWaiting (c\<lparr>fc_progress := fc_progress c @ [(ct_id k, p)]\<rparr>)
          else c
      | _ \<Rightarrow> c)"
| "task_step (TaskCancelled _) t k c =
     (if ct_at k \<noteq> TaskWaiting \<or> t \<notin> set (fc_tokens c) then c
      else set_task t k (TaskFinished (Inl (tool_error_new Cancelled False)))
        (c\<lparr>fc_aborted := fc_aborted c @ [t]\<rparr>))"
| "task_step _ t k c = c"

text \<open>The step of a task that exists.\<close>

definition on_task ::
    "('f, 'r, 'w) conn_event \<Rightarrow> nat \<Rightarrow> ('i, 'f, 'r, 'w) frontend_conn \<Rightarrow> ('i, 'f, 'r, 'w) frontend_conn" where
  "on_task ev t c = (case hm_get (fc_calls c) t of None \<Rightarrow> c | Some k \<Rightarrow> task_step ev t k c)"

fun conn_step ::
    "(json \<Rightarrow> 'i frontend_to_leader option) \<Rightarrow> (('f, 'r) leader_to_frontend \<Rightarrow> json option)
      \<Rightarrow> ('i, 'f, 'r, 'w) frontend_conn \<Rightarrow> ('f, 'r, 'w) conn_event \<Rightarrow> ('i, 'f, 'r, 'w) frontend_conn" where
  "conn_step dm em c LoopShutdown = (if fc_end c \<noteq> None then c else end_loop (Inr ()) c)"
| "conn_step dm em c (LoopFrame frm) = (if fc_end c \<noteq> None then c else frontend_frame dm frm c)"
| "conn_step dm em c (LoopProgress w) = (if fc_end c \<noteq> None then c else forward_progress em w c)"
| "conn_step dm em c (LoopCompletion t w) =
     (if fc_end c \<noteq> None then c
      else case hm_get (fc_calls c) t of
        None \<Rightarrow> c
      | Some k \<Rightarrow>
          (case ct_at k of TaskFinished r \<Rightarrow> complete_call em w t k r c | _ \<Rightarrow> c))"
| "conn_step dm em c (Joined t) =
     (if fc_end c = None then c
      else case hm_get (fc_calls c) t of
        None \<Rightarrow> c
      | Some k \<Rightarrow>
          (case ct_at k of
             TaskFinished r \<Rightarrow> c\<lparr>fc_calls := hm_remove t (fc_calls c)\<rparr>
           | _ \<Rightarrow> c))"
| "conn_step dm em c (TaskOpened t x) = on_task (TaskOpened t x) t c"
| "conn_step dm em c (TaskResult t x) = on_task (TaskResult t x) t c"
| "conn_step dm em c (TaskProgress t x) = on_task (TaskProgress t x) t c"
| "conn_step dm em c (TaskSend t) = on_task (TaskSend t) t c"
| "conn_step dm em c (TaskCancelled t) = on_task (TaskCancelled t) t c"

text \<open>\<open>serve_frontend\<close> returns, giving the lease back, once the loop is over and every task joined.\<close>

definition served :: "('i, 'f, 'r, 'w) frontend_conn \<Rightarrow> bool" where
  "served c \<longleftrightarrow> fc_end c \<noteq> None \<and> fc_calls c = []"

section \<open>The invariant of a connection\<close>

fun answer_of :: "('f, 'r) leader_to_frontend \<Rightarrow> string list" where
  "answer_of (LProgress i p) = []"
| "answer_of (LResponse i r) = [i]"
| "answer_of (LError i e) = [i]"

definition answers :: "('i, 'f, 'r, 'w) frontend_conn \<Rightarrow> string multiset" where
  "answers c = mset (concat (map answer_of (fc_written c)))"

definition fits :: "('m \<Rightarrow> json option) \<Rightarrow> 'm \<Rightarrow> bool" where
  "fits em m \<longleftrightarrow> (\<exists>j. em m = Some j \<and> src_len j \<le> MAX_ENVELOPE_BYTES)"

lemma message_body_fits: "message_body (em m) = Inr j \<Longrightarrow> fits em m"
  by (auto simp: message_body_def fits_def split: option.splits if_splits)

definition conn_inv :: "(('f, 'r) leader_to_frontend \<Rightarrow> json option) \<Rightarrow> ('i, 'f, 'r, 'w) frontend_conn \<Rightarrow> bool" where
  "conn_inv em c \<longleftrightarrow>
     distinct (map fst (fc_active c)) \<and> distinct (map fst (fc_calls c)) \<and>
     (\<forall>t \<in> fst ` set (fc_calls c). t < fc_fresh c) \<and>
     (fc_end c = None \<longrightarrow>
        (\<lambda>(t, k). (ct_id k, t)) ` set (fc_calls c) = set (fc_active c) \<and>
        answers c + mset (map fst (fc_active c)) = mset (fc_accepted c)) \<and>
     answers c + mset (map fst (fc_active c)) \<subseteq># mset (fc_accepted c) \<and>
     (\<forall>m \<in> set (fc_written c). fits em m) \<and> length (fc_progress c) \<le> PROGRESS_CAPACITY"

lemma conn_new_inv [simp]: "conn_inv em frontend_conn_new"
  by (simp add: conn_inv_def frontend_conn_new_def answers_def)

lemma end_loop_inv:
  assumes "distinct (map fst (fc_calls c))" and "\<forall>t \<in> fst ` set (fc_calls c). t < fc_fresh c"
    and "answers c \<subseteq># mset (fc_accepted c)" and "\<forall>m \<in> set (fc_written c). fits em m"
    and "length (fc_progress c) \<le> PROGRESS_CAPACITY"
  shows "conn_inv em (end_loop r c)"
  using assms by (simp add: conn_inv_def end_loop_def answers_def)

lemma conn_inv_end: "conn_inv em c \<Longrightarrow> conn_inv em (end_loop r c)"
  by (rule end_loop_inv)
    (auto simp: conn_inv_def intro: subset_mset.order_trans [OF mset_subset_eq_add_left])

lemma hm_update_as_map:
  "distinct (map fst m) \<Longrightarrow> k \<in> fst ` set m \<Longrightarrow>
     hm_insert k v m = map (\<lambda>(k', x). (k', if k' = k then v else x)) m"
proof (induction m)
  case (Cons p m)
  obtain k' x where p: "p = (k', x)" by (cases p)
  show ?case
  proof (cases "k' = k")
    case True
    then have "map (\<lambda>(k', x). (k', if k' = k then v else x)) m = m"
      using Cons.prems(1) p by (intro map_idI) (auto intro: img_fst)
    then show ?thesis using True p by simp
  next
    case False
    then show ?thesis using Cons p by simp
  qed
qed simp

lemma set_task_inv:
  assumes "conn_inv em c" and "hm_get (fc_calls c) t = Some k"
  shows "conn_inv em (set_task t k at c)"
proof -
  let ?f = "\<lambda>(s, x). (s, if s = t then k\<lparr>ct_at := at\<rparr> else x)"
  have d: "distinct (map fst (fc_calls c))" using assms(1) by (simp add: conn_inv_def)
  have mem: "(t, k) \<in> set (fc_calls c)" using assms(2) by (rule map_of_SomeD)
  have eq: "hm_insert t (k\<lparr>ct_at := at\<rparr>) (fc_calls c) = map ?f (fc_calls c)"
    by (rule hm_update_as_map [OF d img_fst [OF mem]])
  have keys: "map fst (map ?f (fc_calls c)) = map fst (fc_calls c)" by (auto simp: map_eq_conv)
  have "x = k" if "(t, x) \<in> set (fc_calls c)" for x using eq_key_imp_eq_value [OF d that mem] .
  then have ids: "(\<lambda>(t, k). (ct_id k, t)) ` set (map ?f (fc_calls c)) = (\<lambda>(t, k). (ct_id k, t)) ` set (fc_calls c)"
    unfolding set_map image_image by (intro image_cong) auto
  obtain m where m: "hm_insert t (k\<lparr>ct_at := at\<rparr>) (fc_calls c) = m" "map fst m = map fst (fc_calls c)"
    "(\<lambda>(t, k). (ct_id k, t)) ` set m = (\<lambda>(t, k). (ct_id k, t)) ` set (fc_calls c)"
    using that [OF eq keys ids] .
  have "distinct (map fst m)" "fst ` set m = fst ` set (fc_calls c)"
    using d m(2) by (simp_all flip: set_map)
  with m show ?thesis using assms(1) by (simp add: conn_inv_def set_task_def answers_def)
qed

lemma frontend_message_inv:
  assumes "conn_inv em c" and "fc_end c = None"
  shows "conn_inv em (frontend_message m c)"
proof (cases m)
  case (FRequest i call)
  let ?t = "fc_fresh c"
  show ?thesis
  proof (cases "hm_get (fc_active c) i")
    case None
    have t: "?t \<notin> fst ` set (fc_calls c)" using assms(1) by (auto simp: conn_inv_def)
    then have "hm_insert ?t k (fc_calls c) = fc_calls c @ [(?t, k)]" for k
      by (intro hm_insert_fresh) (simp add: map_of_eq_None_iff)
    then show ?thesis
      using assms t None FRequest
      by (simp add: conn_inv_def hm_insert_fresh answers_def Let_def)
        (auto simp: map_of_eq_None_iff less_Suc_eq)
  qed (use conn_inv_end [OF assms(1)] FRequest in simp)
next
  case (FCancel i)
  have "conn_inv em (c\<lparr>fc_tokens := ts\<rparr>)" for ts using assms(1) by (simp add: conn_inv_def answers_def)
  then show ?thesis using assms(1) FCancel by (auto split: option.split)
qed

lemma frontend_frame_inv:
  "conn_inv em c \<Longrightarrow> fc_end c = None \<Longrightarrow> conn_inv em (frontend_frame dm frm c)"
  by (auto simp: frontend_frame_def conn_inv_end frontend_message_inv split: option.split sum.split)

lemma forward_progress_inv:
  assumes "conn_inv em c" and "fc_end c = None"
  shows "conn_inv em (forward_progress em w c)"
proof (cases "fc_progress c")
  case (Cons ip rest)
  obtain i p where ip: "ip = (i, p)" by (cases ip)
  let ?c = "c\<lparr>fc_progress := rest\<rparr>" and ?m = "progress_message i p :: ('a, 'b) leader_to_frontend"
  have inv: "conn_inv em ?c" using assms(1) Cons by (simp add: conn_inv_def answers_def)
  have "conn_inv em (?c\<lparr>fc_written := fc_written c @ [?m]\<rparr>)" if "fits em ?m"
    using inv that by (simp add: conn_inv_def answers_def progress_message_def)
  then show ?thesis
    using inv conn_inv_end [OF inv]
    by (auto simp: forward_progress_def Cons ip Let_def write_message_def dest: message_body_fits
        split: sum.split)
qed (use assms in \<open>simp add: forward_progress_def\<close>)

lemma complete_call_inv:
  assumes inv: "conn_inv em c" and "fc_end c = None" and k: "hm_get (fc_calls c) t = Some k"
  shows "conn_inv em (complete_call em w t k r c)"
proof -
  let ?c = "c\<lparr>fc_calls := hm_remove t (fc_calls c), fc_active := hm_remove (ct_id k) (fc_active c),
      fc_results := fc_results c @ [(ct_id k, ct_call k, r)]\<rparr>"
  have d: "distinct (map fst (fc_calls c))" "distinct (map fst (fc_active c))"
    and pairs: "(\<lambda>(t, k). (ct_id k, t)) ` set (fc_calls c) = set (fc_active c)"
    and count: "answers c + mset (map fst (fc_active c)) = mset (fc_accepted c)"
    using inv assms(2) by (simp_all add: conn_inv_def)
  have mem: "(t, k) \<in> set (fc_calls c)" using k by (rule map_of_SomeD)
  then have active: "(ct_id k, t) \<in> set (fc_active c)" unfolding pairs [symmetric] by force
  have same: "s = t \<longleftrightarrow> ct_id x = ct_id k" if "(s, x) \<in> set (fc_calls c)" for s x
  proof -
    have "(ct_id x, s) \<in> set (fc_active c)" using that unfolding pairs [symmetric] by force
    then show ?thesis
      using eq_key_imp_eq_value [OF d(2) active] eq_key_imp_eq_value [OF d(1) mem] that by auto
  qed
  have calls: "(\<lambda>(t, k). (ct_id k, t)) ` set (hm_remove t (fc_calls c)) = set (hm_remove (ct_id k) (fc_active c))"
  proof -
    have "(\<lambda>(t, k). (ct_id k, t)) ` {sx \<in> set (fc_calls c). fst sx \<noteq> t} =
        {y \<in> (\<lambda>(t, k). (ct_id k, t)) ` set (fc_calls c). fst y \<noteq> ct_id k}"
      using same by (auto simp: image_iff) force+
    then show ?thesis unfolding hm_remove_as_filter set_filter pairs by simp
  qed
  have "mset (map fst (fc_active c)) = add_mset (ct_id k) (mset (map fst (hm_remove (ct_id k) (fc_active c))))"
  proof -
    have "mset_set (fst ` set (fc_active c)) = mset (map fst (fc_active c))"
      using mset_set_set [OF d(2)] by simp
    moreover have d': "distinct (map fst (hm_remove (ct_id k) (fc_active c)))" using d(2) by (rule distinct_delete)
    then have "mset_set (fst ` set (hm_remove (ct_id k) (fc_active c))) =
        mset (map fst (hm_remove (ct_id k) (fc_active c)))"
      using mset_set_set [OF d'] by simp
    moreover have "fst ` set (fc_active c) = insert (ct_id k) (fst ` set (hm_remove (ct_id k) (fc_active c)))"
      using active by (auto simp: delete_keys hm_remove_as_filter intro: img_fst)
    moreover have "ct_id k \<notin> fst ` set (hm_remove (ct_id k) (fc_active c))"
      by (auto simp: hm_remove_as_filter)
    ultimately show ?thesis by (metis finite_imageI finite_set mset_set.insert)
  qed
  then have count': "add_mset (ct_id k) (answers ?c + mset (map fst (fc_active ?c))) = mset (fc_accepted c)"
    using count by (simp add: answers_def)
  have d': "distinct (map fst (hm_remove t (fc_calls c)))" "distinct (map fst (hm_remove (ct_id k) (fc_active c)))"
    using d by (auto intro: distinct_delete)
  have fresh: "\<forall>t' \<in> fst ` set (hm_remove t (fc_calls c)). t' < fc_fresh c"
    using inv by (auto simp: conn_inv_def hm_remove_as_filter)
  have rest: "\<forall>m \<in> set (fc_written c). fits em m" "length (fc_progress c) \<le> PROGRESS_CAPACITY"
    using inv by (simp_all add: conn_inv_def)
  have ended: "conn_inv em (end_loop e ?c)" for e
  proof (rule end_loop_inv)
    have "answers ?c \<subseteq># add_mset (ct_id k) (answers ?c + mset (map fst (fc_active ?c)))" by simp
    then show "answers ?c \<subseteq># mset (fc_accepted ?c)" unfolding count' by simp
  qed (use d' fresh rest in simp_all)
  have written: "conn_inv em (?c\<lparr>fc_written := fc_written c @ [m]\<rparr>)"
    if "fits em m" "answer_of m = [ct_id k]" for m
    using that d' fresh rest calls count'
    by (simp add: conn_inv_def answers_def assms(2))
  have "answer_of (answer_message (ct_id k) r) = [ct_id k]" by (cases r) simp_all
  then show ?thesis
    using written ended
    by (auto simp: complete_call_def Let_def write_message_def dest: message_body_fits split: sum.split)
qed

lemma task_step_inv:
  assumes "conn_inv em c" and "hm_get (fc_calls c) t = Some k"
  shows "conn_inv em (task_step ev t k c)"
proof -
  have "conn_inv em (set_task t k at (c\<lparr>fc_aborted := ab\<rparr>))" for at ab
    using assms by (intro set_task_inv) (simp_all add: conn_inv_def answers_def)
  moreover have "conn_inv em (set_task t k at (c\<lparr>fc_progress := fc_progress c @ [x]\<rparr>))"
    if "length (fc_progress c) < PROGRESS_CAPACITY" for at x
    using assms that by (intro set_task_inv) (simp_all add: conn_inv_def answers_def)
  ultimately show ?thesis
    using assms set_task_inv [OF assms]
    by (cases ev) (auto split: option.split task_at.split)
qed

lemma on_task_inv: "conn_inv em c \<Longrightarrow> conn_inv em (on_task ev t c)"
  by (auto simp: on_task_def task_step_inv simp del: map_of_eq_Some_iff split: option.split)

lemma conn_step_inv: "conn_inv em c \<Longrightarrow> conn_inv em (conn_step dm em c e)"
proof (cases e)
  case (Joined t)
  assume inv: "conn_inv em c"
  have "conn_inv em (c\<lparr>fc_calls := hm_remove t (fc_calls c)\<rparr>)" if "fc_end c \<noteq> None"
    using inv that by (auto simp: conn_inv_def answers_def distinct_delete hm_remove_as_filter
        intro: distinct_map_filter)
  then show ?thesis using inv Joined by (auto split: option.split task_at.split)
next
  case (LoopCompletion t w)
  assume "conn_inv em c"
  then show ?thesis
    using LoopCompletion complete_call_inv
    by (auto simp del: map_of_eq_Some_iff split: option.split task_at.split)
qed (auto simp: conn_inv_end frontend_frame_inv forward_progress_inv on_task_inv)

interpretation frontend: machine "conn_step dm em" "conn_inv em" for dm em
  by unfold_locales (rule conn_step_inv)

abbreviation conn_run ::
    "(json \<Rightarrow> 'i frontend_to_leader option) \<Rightarrow> (('f, 'r) leader_to_frontend \<Rightarrow> json option)
      \<Rightarrow> ('f, 'r, 'w) conn_event list \<Rightarrow> ('i, 'f, 'r, 'w) frontend_conn" where
  "conn_run dm em es \<equiv> foldl (conn_step dm em) frontend_conn_new es"

section \<open>Properties\<close>

text \<open>
  C17. A front end's requests are answered exactly once. In every run of a connection, whatever the
  frames, the calls and their timing: no answer is for a request that was not accepted or was already
  answered; while the connection lives, each accepted request is answered or still active, never
  both, and no identifier is active twice; and every message written fits the envelope.
\<close>

theorem frontend_answers_once:
  fixes es :: "('f, 'r, 'w) conn_event list"
  shows "let c = conn_run dm em es in
     answers c + mset (map fst (fc_active c)) \<subseteq># mset (fc_accepted c) \<and>
     (fc_end c = None \<longrightarrow> answers c + mset (map fst (fc_active c)) = mset (fc_accepted c)) \<and>
     distinct (map fst (fc_active c)) \<and> (\<forall>m \<in> set (fc_written c). fits em m)"
  using frontend.run_inv [OF conn_new_inv, of em dm es] by (simp add: conn_inv_def Let_def)

definition small_message :: "(bool, bool) leader_to_frontend \<Rightarrow> json option" where
  "small_message = enc_leader_to_frontend (Some \<circ> js_bool) (Some \<circ> js_bool)"

definition ask :: "json \<Rightarrow> bool frontend_to_leader option" where
  "ask j = (if j = js_null then Some (FRequest ''f'' ListFiles) else None)"

definition asked_and_answered :: "(bool, bool, unit) conn_event list" where
  "asked_and_answered =
     [LoopFrame (Some (Inr (Some js_null))), TaskOpened 0 None,
      TaskResult 0 (Some (Inr (Files True))), LoopCompletion 0 None]"

theorem frontend_answers_once_witness:
  "fc_written (conn_run ask small_message asked_and_answered) = [LResponse ''f'' (Files True)] \<and>
   fc_accepted (conn_run ask small_message asked_and_answered) = [''f''] \<and>
   list_all (fits small_message) (fc_written (conn_run ask small_message asked_and_answered))"
proof -
  have "small_message (LResponse ''f'' (Files True)) = Some (js_obj [(''type'', js_str ''response''),
      (''rpcRequestId'', js_str ''f''), (''result'', js_obj [(''kind'', js_str ''files''), (''result'', js_bool True)])])"
    by (simp add: small_message_def)
  moreover have "src_len (js_obj [(''type'', js_str ''response''), (''rpcRequestId'', js_str ''f''),
      (''result'', js_obj [(''kind'', js_str ''files''), (''result'', js_bool True)])]) \<le> MAX_ENVELOPE_BYTES"
    by (simp add: js_len_defs limit_defs)
  ultimately have "\<exists>j. message_body (small_message (LResponse ''f'' (Files True))) = (Inr j :: unit broker_error + json)"
    by (simp add: message_body_def)
  then have "fc_written (conn_run ask small_message asked_and_answered) = [LResponse ''f'' (Files True)] \<and>
      fc_accepted (conn_run ask small_message asked_and_answered) = [''f'']"
    by (auto simp: asked_and_answered_def frontend_conn_new_def frontend_frame_def ask_def Let_def on_task_def
        set_task_def complete_call_def write_message_def sent_def)
  then show ?thesis
    using frontend_answers_once [of ask small_message asked_and_answered] by (simp add: Let_def list_all_iff)
qed

text \<open>A task that waits for room in a full channel once nobody reads it any more.\<close>

definition stuck :: "('i, 'f, 'r, 'w) frontend_conn \<Rightarrow> bool" where
  "stuck c \<longleftrightarrow> fc_end c \<noteq> None \<and> PROGRESS_CAPACITY \<le> length (fc_progress c) \<and>
     (\<exists>t k p. hm_get (fc_calls c) t = Some k \<and> ct_at k = TaskSending p)"

lemma stuck_end [simp]: "stuck c \<Longrightarrow> fc_end c \<noteq> None"
  by (simp add: stuck_def)

lemma stuck_on_task:
  assumes "stuck c"
  shows "stuck (on_task ev t c)"
proof (cases "hm_get (fc_calls c) t")
  case (Some k)
  obtain s x p where s: "hm_get (fc_calls c) s = Some x" "ct_at x = TaskSending p"
    using assms by (auto simp: stuck_def)
  have keep: "stuck (set_task t k at (c\<lparr>fc_aborted := ab\<rparr>))" if "\<forall>p. ct_at k \<noteq> TaskSending p" for at ab
  proof -
    have "t \<noteq> s" using s Some that by auto
    then have "hm_get (hm_insert t (k\<lparr>ct_at := at\<rparr>) (fc_calls c)) s = Some x"
      using s(1) by (simp add: update_conv' del: map_of_eq_Some_iff)
    then show ?thesis using assms s(2) unfolding stuck_def set_task_def by (simp del: map_of_eq_Some_iff) blast
  qed
  have c: "c\<lparr>fc_aborted := fc_aborted c\<rparr> = c" by simp
  have full: "\<not> length (fc_progress c) < PROGRESS_CAPACITY" using assms by (simp add: stuck_def)
  have "stuck (task_step ev t k c)"
    using keep [where ab = "fc_aborted c", unfolded c]
    by (cases ev) (simp_all add: assms full keep split: option.split task_at.split)
  then show ?thesis using Some by (simp add: on_task_def)
qed (use assms in \<open>simp add: on_task_def\<close>)

lemma stuck_step:
  assumes "stuck c"
  shows "stuck (conn_step dm em c e)"
proof (cases e)
  case (Joined t)
  obtain s x p where s: "hm_get (fc_calls c) s = Some x" "ct_at x = TaskSending p"
    using assms by (auto simp: stuck_def)
  have "stuck (c\<lparr>fc_calls := hm_remove t (fc_calls c)\<rparr>)" if "t \<noteq> s"
  proof -
    have "hm_get (hm_remove t (fc_calls c)) s = Some x"
      using s(1) that by (simp add: delete_conv' del: map_of_eq_Some_iff)
    then show ?thesis using assms s(2) unfolding stuck_def by (simp del: map_of_eq_Some_iff) blast
  qed
  then show ?thesis
    using assms stuck_end [OF assms] s Joined
    by (cases "t = s") (auto simp del: map_of_eq_Some_iff split: option.split task_at.split)
qed (use assms stuck_end [OF assms] stuck_on_task [OF assms] in simp_all)

lemma stuck_for_ever: "stuck c \<Longrightarrow> \<not> served (foldl (conn_step dm em) c es)"
proof (induction es arbitrary: c)
  case Nil
  then show ?case by (auto simp: stuck_def served_def)
next
  case (Cons e es)
  show ?case using Cons.IH [OF stuck_step [OF Cons.prems, of dm em e]] by simp
qed

text \<open>Progress is reported until the channel is full and once more, and then the front end leaves.\<close>

definition leaving_while_full :: "json \<Rightarrow> ('f, 'r, 'w) conn_event list" where
  "leaving_while_full j =
     (let p = \<lparr>np_completed = 0, np_total = None, np_phase = Reading\<rparr> in
      [LoopFrame (Some (Inr (Some j))), TaskOpened 0 None] @
      concat (replicate PROGRESS_CAPACITY [TaskProgress 0 (Some p), TaskSend 0]) @
      [TaskProgress 0 (Some p), LoopFrame None])"

definition waiting_conn :: "string \<Rightarrow> 'i broker_call \<Rightarrow> (string \<times> normalized_progress) list \<Rightarrow> ('i, 'f, 'r, 'w) frontend_conn" where
  "waiting_conn i call ps = frontend_conn_new
     \<lparr>fc_active := [(i, 0)], fc_fresh := 1, fc_calls := [(0, \<lparr>ct_id = i, ct_call = call, ct_at = TaskWaiting\<rparr>)],
      fc_accepted := [i], fc_progress := ps\<rparr>"

lemma concat_replicate_Suc: "concat (replicate (Suc n) xs) = concat (replicate n xs) @ xs"
  by (induction n) simp_all

lemma progress_fills:
  "n \<le> PROGRESS_CAPACITY \<Longrightarrow>
   foldl (conn_step dm em) (waiting_conn i call []) (concat (replicate n [TaskProgress 0 (Some p), TaskSend 0])) =
     waiting_conn i call (replicate n (i, p))"
proof (induction n)
  case (Suc n)
  show ?case
    unfolding concat_replicate_Suc foldl_append
    using Suc by (simp add: waiting_conn_def on_task_def set_task_def replicate_append_same
        flip: replicate_Suc)
qed simp

lemma full_then_left:
  "stuck (conn_step dm em (conn_step dm em (waiting_conn i call (replicate PROGRESS_CAPACITY x)) (TaskProgress 0 (Some p)))
     (LoopFrame None))"
proof -
  have sending: "conn_step dm em (waiting_conn i call ps) (TaskProgress 0 (Some p)) = (waiting_conn i call ps)
      \<lparr>fc_calls := [(0, \<lparr>ct_id = i, ct_call = call, ct_at = TaskSending p\<rparr>)]\<rparr>" for ps
    by (simp add: waiting_conn_def on_task_def set_task_def)
  show ?thesis
    unfolding sending by (simp add: waiting_conn_def frontend_conn_new_def frontend_frame_def end_loop_def stuck_def)
qed

text \<open>
  C18. A front end that leaves while progress is backed up is never let go. Once the loop of its
  connection has ended, nobody reads the progress channel, and a call that waits for room in it waits
  for ever, deaf to its cancellation: for every continuation the connection is never served to the
  end, so its lease is never given back and the leader can neither go idle nor finish its shutdown.
\<close>

theorem teardown_can_hang:
  assumes "dm j = Some (FRequest i call)"
  shows "\<not> served (foldl (conn_step dm em) (conn_run dm em (leaving_while_full j)) es)"
proof -
  have opened: "foldl (conn_step dm em) frontend_conn_new [LoopFrame (Some (Inr (Some j))), TaskOpened 0 None] =
      waiting_conn i call []"
    using assms by (simp add: frontend_frame_def frontend_conn_new_def waiting_conn_def Let_def
        on_task_def set_task_def)
  have "stuck (conn_run dm em (leaving_while_full j))"
    unfolding leaving_while_full_def Let_def foldl_append opened progress_fills [OF order_refl]
    by (simp only: foldl.simps full_then_left)
  then show ?thesis by (rule stuck_for_ever)
qed

theorem teardown_can_hang_witness:
  "\<not> served (conn_run ask small_message (leaving_while_full js_null @ [TaskCancelled 0, Joined 0]) ::
     (bool, bool, bool, unit) frontend_conn)"
  using teardown_can_hang [of ask js_null "''f''" ListFiles small_message "[TaskCancelled 0, Joined 0]"]
  by (simp add: ask_def)

end
