(* ===== verification/Client.thy ===== *)
theory Client
  imports Frontend
begin

text \<open>
  The other side of the front-end protocol (\<open>FrontendClient\<close> of \<open>crates/broker/src/rpc.rs\<close>) and the
  handle through which every call goes to a local broker or to a remote leader
  (\<open>crates/broker/src/client.rs\<close>).
\<close>

section \<open>The loop of a front end's connection\<close>

text \<open>
  Channels are numbers. The last four fields are histories: the requests taken with their response
  channels, the messages written, the results delivered and the progress offered to channels.
\<close>

record ('i, 'f, 'r) client_conn =
  cc_pending :: "(string, nat) hash_map"
  cc_progress :: "(string, nat) hash_map"
  cc_running :: bool
  cc_taken :: "(string \<times> 'i broker_call \<times> nat) list"
  cc_sent :: "'i frontend_to_leader list"
  cc_delivered :: "(nat \<times> (tool_error + ('f, 'r) broker_result)) list"
  cc_reported :: "(nat \<times> normalized_progress) list"

definition client_conn_new :: "('i, 'f, 'r) client_conn" where
  "client_conn_new =
     \<lparr>cc_pending = [], cc_progress = [], cc_running = True, cc_taken = [], cc_sent = [],
      cc_delivered = [], cc_reported = []\<rparr>"

datatype 'i client_command =
    CommandRequest string "'i broker_call" nat nat
  | CommandCancel string

text \<open>The loop is over: whoever still waits is told that the connection is lost.\<close>

definition client_end :: "('i, 'f, 'r) client_conn \<Rightarrow> ('i, 'f, 'r) client_conn" where
  "client_end c =
     c\<lparr>cc_running := False, cc_pending := [],
       cc_delivered := cc_delivered c @
         map (\<lambda>(i, response). (response, Inl (tool_error_new ConnectionLost True))) (cc_pending c)\<rparr>"

definition client_send ::
    "('i frontend_to_leader \<Rightarrow> json option) \<Rightarrow> 'w written \<Rightarrow> 'i frontend_to_leader
      \<Rightarrow> ('i, 'f, 'r) client_conn \<Rightarrow> ('i, 'f, 'r) client_conn" where
  "client_send em w m c =
     (case message_body (em m) :: 'w broker_error + json of
        Inl _ \<Rightarrow> client_end c
      | Inr _ \<Rightarrow> if w \<noteq> None then client_end c else c\<lparr>cc_sent := cc_sent c @ [m]\<rparr>)"

text \<open>A command, or \<^const>\<open>None\<close> once every handle of the client is gone.\<close>

fun client_on_command ::
    "('i frontend_to_leader \<Rightarrow> json option) \<Rightarrow> 'w written \<Rightarrow> 'i client_command option
      \<Rightarrow> ('i, 'f, 'r) client_conn \<Rightarrow> ('i, 'f, 'r) client_conn" where
  "client_on_command em w None c = client_end c"
| "client_on_command em w (Some (CommandRequest i call response progress)) c =
     client_send em w (FRequest i call)
       (c\<lparr>cc_pending := hm_insert i response (cc_pending c),
          cc_progress := hm_insert i progress (cc_progress c),
          cc_taken := cc_taken c @ [(i, call, response)]\<rparr>)"
| "client_on_command em w (Some (CommandCancel i)) c = client_send em w (FCancel i) c"

definition client_deliver ::
    "string \<Rightarrow> tool_error + ('f, 'r) broker_result \<Rightarrow> ('i, 'f, 'r) client_conn
      \<Rightarrow> ('i, 'f, 'r) client_conn" where
  "client_deliver i result c =
     (let c = c\<lparr>cc_progress := hm_remove i (cc_progress c)\<rparr> in
      case hm_get (cc_pending c) i of
        None \<Rightarrow> c
      | Some response \<Rightarrow>
          c\<lparr>cc_pending := hm_remove i (cc_pending c),
            cc_delivered := cc_delivered c @ [(response, result)]\<rparr>)"

fun client_on_message ::
    "('f, 'r) leader_to_frontend \<Rightarrow> ('i, 'f, 'r) client_conn \<Rightarrow> ('i, 'f, 'r) client_conn" where
  "client_on_message (LResponse i result) c = client_deliver i (Inr result) c"
| "client_on_message (LError i e) c = client_deliver i (Inl e) c"
| "client_on_message (LProgress i p) c =
     (case hm_get (cc_progress c) i of
        None \<Rightarrow> c
      | Some channel \<Rightarrow>
          c\<lparr>cc_reported := cc_reported c @
            [(channel, \<lparr>np_completed = rp_completed p, np_total = rp_total p,
                        np_phase = phase_from_message (rp_message p)\<rparr>)]\<rparr>)"

definition client_on_frame ::
    "(json \<Rightarrow> ('f, 'r) leader_to_frontend option) \<Rightarrow> ('w + json option) option
      \<Rightarrow> ('i, 'f, 'r) client_conn \<Rightarrow> ('i, 'f, 'r) client_conn" where
  "client_on_frame dm frm c = (case frm of
     Some (Inr f) \<Rightarrow>
       (case Option.bind f dm of
          None \<Rightarrow> client_end c
        | Some m \<Rightarrow> client_on_message m c)
   | _ \<Rightarrow> client_end c)"

datatype ('i, 'w) client_event =
    ClientCommand "'w written" "'i client_command option"
  | ClientFrame "('w + json option) option"

fun client_step ::
    "('i frontend_to_leader \<Rightarrow> json option) \<Rightarrow> (json \<Rightarrow> ('f, 'r) leader_to_frontend option)
      \<Rightarrow> ('i, 'f, 'r) client_conn \<Rightarrow> ('i, 'w) client_event \<Rightarrow> ('i, 'f, 'r) client_conn" where
  "client_step em dm c (ClientCommand w command) =
     (if cc_running c then client_on_command em w command c else c)"
| "client_step em dm c (ClientFrame frm) =
     (if cc_running c then client_on_frame dm frm c else c)"

section \<open>The handle of a front end\<close>

text \<open>\<open>from_stream\<close>: what the leader answers to the hello decides.\<close>

fun client_handshake :: "'w written \<Rightarrow> 'w first_frame \<Rightarrow> 'w broker_error + unit" where
  "client_handshake (Some e) answer = Inl (IoError e)"
| "client_handshake None FirstTimedOut = Inl FrontendHandshakeTimedOut"
| "client_handshake None FirstEnd = Inl FrontendFirstFrame"
| "client_handshake None (FirstError e) = Inl (IoError e)"
| "client_handshake None (FirstFrame f) =
     (case Option.bind f dec_handshake of
        None \<Rightarrow> Inl JsonError
      | Some HandshakeReady \<Rightarrow> Inr ()
      | Some (HandshakeRejected e) \<Rightarrow> Inl FrontendProtocolMismatch)"

definition client_hello :: "string \<Rightarrow> frontend_hello" where
  "client_hello frontend_id =
     \<lparr>fh_protocol_version = FRONTEND_PROTOCOL_VERSION, fh_frontend_id = frontend_id\<rparr>"

text \<open>
  \<open>open\<close> hands a command to the loop, which is refused when the loop is over. The call is named only
  by the identifier of its command.
\<close>

definition remote_open ::
    "instant \<Rightarrow> bool \<Rightarrow> string \<Rightarrow> 'i broker_call \<Rightarrow> nat \<Rightarrow> nat
      \<Rightarrow> tool_error + ('i client_command \<times> open_call)" where
  "remote_open now running i call response progress =
     (if \<not> running then Inl (tool_error_new ConnectionLost True)
      else Inr (CommandRequest i call response progress,
        \<lparr>oc_result = response, oc_progress = progress,
         oc_total_deadline = now + from_secs TOTAL_TIMEOUT_SECS,
         oc_inactivity_timeout = from_secs INACTIVITY_TIMEOUT_SECS,
         oc_connection_id = None, oc_request_id = None\<rparr>))"

text \<open>
  What a wait on a call sees: its result, with \<^const>\<open>None\<close> if the sender was dropped, a progress
  report, or the cancellation. The result is the value returned, if the wait is over.
\<close>

datatype 'x call_input = CallResult "(tool_error + 'x) option" | CallProgress | CallCancelled

definition received_result :: "(tool_error + 'x) option \<Rightarrow> tool_error + 'x" where
  "received_result received = (case received of
     None \<Rightarrow> Inl (tool_error_new ConnectionLost True)
   | Some r \<Rightarrow> r)"

text \<open>\<open>call\<close> does not look at progress; cancelled, it sends a cancel after the request.\<close>

fun remote_call_turn :: "string \<Rightarrow> 'x call_input \<Rightarrow> 'i client_command list \<times> (tool_error + 'x) option" where
  "remote_call_turn i (CallResult received) = ([], Some (received_result received))"
| "remote_call_turn i CallProgress = ([], None)"
| "remote_call_turn i CallCancelled =
     ([CommandCancel i], Some (Inl (tool_error_new Cancelled False)))"

fun remote_list_files :: "tool_error + ('f, 'r) broker_result \<Rightarrow> tool_error + 'f" where
  "remote_list_files (Inl e) = Inl e"
| "remote_list_files (Inr (Files f)) = Inr f"
| "remote_list_files (Inr (Invocation r)) = Inl (tool_error_new InternalError False)"

text \<open>Dropping an \<open>OpenCall\<close> stops its watcher unless the watcher has a cancellation to send.\<close>

definition watcher_aborted :: "bool \<Rightarrow> bool \<Rightarrow> bool" where
  "watcher_aborted has_watcher abort_cancelled \<longleftrightarrow> has_watcher \<and> \<not> abort_cancelled"

section \<open>Calls on a local broker\<close>

datatype opened = OpenedFiles "live_file list" instant | OpenedCall open_call

definition local_open ::
    "(ticket \<Rightarrow> bool) \<Rightarrow> instant \<Rightarrow> nat \<Rightarrow> nat \<Rightarrow> string \<Rightarrow> 'i broker_call \<Rightarrow> ('i, 'r) broker
      \<Rightarrow> ('i, 'r) broker \<times> (tool_error + opened)" where
  "local_open alive now started progress uuid call b = (case call of
     ListFiles \<Rightarrow>
       (case bounded_list_try_from MAX_RETURNED_NODES ''returned result collection'' (broker_list_files b) of
          Inl _ \<Rightarrow> (b, Inl (tool_error_new LimitExceeded False))
        | Inr files \<Rightarrow> (b, Inr (OpenedFiles files now)))
   | Invoke connection_id operation \<Rightarrow>
       (case resolve_connection connection_id b of
          Inl e \<Rightarrow> (b, Inl e)
        | Inr c \<Rightarrow>
            (case broker_invoke alive now started progress c
                \<lparr>rq_request_id = uuid, rq_deadline_ms = of_nat (TOTAL_TIMEOUT_SECS * 1000),
                 rq_target = None, rq_operation = operation\<rparr> b of
               (b', Inl e) \<Rightarrow> (b', Inl e)
             | (b', Inr open_call) \<Rightarrow> (b', Inr (OpenedCall open_call)))))"

text \<open>Aborting a call reaches the broker it was opened against, which is the argument here.\<close>

definition abort_open :: "(ticket \<Rightarrow> bool) \<Rightarrow> open_call \<Rightarrow> ('i, 'r) broker \<Rightarrow> ('i, 'r) broker" where
  "abort_open alive call owner = (case (oc_connection_id call, oc_request_id call) of
     (Some c, Some r) \<Rightarrow> fst (broker_cancel alive c r owner)
   | _ \<Rightarrow> owner)"

fun local_call_turn ::
    "(ticket \<Rightarrow> bool) \<Rightarrow> open_call \<Rightarrow> 'x call_input \<Rightarrow> ('i, 'r) broker
      \<Rightarrow> ('i, 'r) broker \<times> (tool_error + 'x) option" where
  "local_call_turn alive call (CallResult received) b = (b, Some (received_result received))"
| "local_call_turn alive call CallProgress b = (b, None)"
| "local_call_turn alive call CallCancelled b =
     (abort_open alive call b, Some (Inl (tool_error_new Cancelled False)))"

section \<open>The backend of a client\<close>

text \<open>
  The cell and the watch channel that announces installs. An install writes the cell and then
  announces; between the two it is counted in \<open>bc_writing\<close>. A call waits in \<open>backend_ready\<close>: it has
  not subscribed yet, is about to read the cell, waits for an announcement or the deadline, or has
  returned.
\<close>

datatype ('b, 'c) backend_kind = LocalBroker 'b | RemoteClient 'c

datatype 'b ready_at =
    ReadySubscribe | ReadyRead nat | ReadyWait nat | ReadyReturned "'b option"

record 'b backend_cell =
  bc_backend :: "'b option"
  bc_installed :: nat
  bc_writing :: nat
  bc_waiter :: "'b ready_at"

definition unattached :: "'b backend_cell" where
  "unattached = \<lparr>bc_backend = None, bc_installed = 0, bc_writing = 0, bc_waiter = ReadySubscribe\<rparr>"

definition cell_read :: "nat \<Rightarrow> 'b option \<Rightarrow> 'b ready_at" where
  "cell_read seen backend = (case backend of
     None \<Rightarrow> ReadyWait seen
   | Some b \<Rightarrow> ReadyReturned (Some b))"

inductive cell_step :: "'b backend_cell \<Rightarrow> 'b backend_cell \<Rightarrow> bool" where
  install_write: "cell_step s (s\<lparr>bc_backend := Some b, bc_writing := bc_writing s + 1\<rparr>)"
| install_announce: "bc_writing s > 0 \<Longrightarrow>
    cell_step s (s\<lparr>bc_writing := bc_writing s - 1, bc_installed := bc_installed s + 1\<rparr>)"
| detach: "cell_step s (s\<lparr>bc_backend := None\<rparr>)"
| subscribe: "bc_waiter s = ReadySubscribe \<Longrightarrow>
    cell_step s (s\<lparr>bc_waiter := ReadyRead (bc_installed s)\<rparr>)"
| read_cell: "bc_waiter s = ReadyRead seen \<Longrightarrow>
    cell_step s (s\<lparr>bc_waiter := cell_read seen (bc_backend s)\<rparr>)"
| announced: "bc_waiter s = ReadyWait seen \<Longrightarrow> bc_installed s \<noteq> seen \<Longrightarrow>
    cell_step s (s\<lparr>bc_waiter := ReadyRead (bc_installed s)\<rparr>)"
| deadline: "bc_waiter s = ReadyWait seen \<Longrightarrow> cell_step s (s\<lparr>bc_waiter := ReadyReturned None\<rparr>)"

inductive_cases cell_stepE: "cell_step s t"

inductive cell_reachable :: "'b backend_cell \<Rightarrow> bool" where
  cell_start: "cell_reachable unattached"
| cell_next: "cell_reachable s \<Longrightarrow> cell_step s t \<Longrightarrow> cell_reachable t"

text \<open>
  The decision of \<open>open\<close> and \<open>call\<close>, biased towards the backend: what \<open>backend_ready\<close> returned if it
  has, and whether the caller has cancelled. \<^const>\<open>None\<close> while the call still waits.
\<close>

definition client_route :: "'b option option \<Rightarrow> bool \<Rightarrow> (tool_error + 'b) option" where
  "client_route ready cancelled = (case ready of
     Some (Some b) \<Rightarrow> Some (Inr b)
   | Some None \<Rightarrow> Some (Inl (tool_error_new ConnectionLost True))
   | None \<Rightarrow> if cancelled then Some (Inl (tool_error_new Cancelled False)) else None)"

fun local_broker :: "('b, 'c) backend_kind option \<Rightarrow> 'b option" where
  "local_broker (Some (LocalBroker b)) = Some b"
| "local_broker (Some (RemoteClient c)) = None"
| "local_broker None = None"

section \<open>Properties of the client\<close>

text \<open>No installed backend is overlooked by a call that waits for one.\<close>

definition cell_inv :: "'b backend_cell \<Rightarrow> bool" where
  "cell_inv s \<longleftrightarrow> (case bc_waiter s of
     ReadyRead seen \<Rightarrow> seen \<le> bc_installed s
   | ReadyWait seen \<Rightarrow> seen \<le> bc_installed s \<and>
       (bc_backend s \<noteq> None \<longrightarrow> bc_installed s \<noteq> seen \<or> bc_writing s > 0)
   | _ \<Rightarrow> True)"

lemma cell_step_inv: "cell_step s t \<Longrightarrow> cell_inv s \<Longrightarrow> cell_inv t"
  by (erule cell_stepE) (auto simp: cell_inv_def cell_read_def split: ready_at.splits option.splits)

lemma cell_reachable_inv: "cell_reachable s \<Longrightarrow> cell_inv s"
  by (induction rule: cell_reachable.induct)
    (simp_all add: cell_step_inv, simp add: cell_inv_def unattached_def)

text \<open>
  C31. No installed backend is overlooked. In every interleaving of installs, detaches and a call
  that waits for a backend: while a backend is in the cell and no install is half done, the call is
  not asleep without an announcement to wake it; and the call reads a backend as soon as it looks.
\<close>

theorem install_wakes_call:
  assumes "cell_reachable s" and "bc_backend s = Some b" and "bc_writing s = 0"
  shows "case bc_waiter s of
     ReadySubscribe \<Rightarrow> cell_step s (s\<lparr>bc_waiter := ReadyRead (bc_installed s)\<rparr>)
   | ReadyRead seen \<Rightarrow> cell_step s (s\<lparr>bc_waiter := ReadyReturned (Some b)\<rparr>)
   | ReadyWait seen \<Rightarrow> cell_step s (s\<lparr>bc_waiter := ReadyRead (bc_installed s)\<rparr>)
   | ReadyReturned r \<Rightarrow> True"
  using cell_reachable_inv [OF assms(1)] assms(2,3) cell_step.read_cell [of s]
  by (auto simp: cell_inv_def cell_read_def intro: cell_step.subscribe cell_step.announced
      split: ready_at.splits)

definition asleep_then_installed :: "nat backend_cell" where
  "asleep_then_installed =
     \<lparr>bc_backend = Some 5, bc_installed = 1, bc_writing = 0, bc_waiter = ReadyWait 0\<rparr>"

lemma asleep_reachable: "cell_reachable asleep_then_installed"
proof -
  let ?c = "\<lambda>b i w at. \<lparr>bc_backend = b, bc_installed = i, bc_writing = w, bc_waiter = at\<rparr> :: nat backend_cell"
  have "cell_reachable (?c None 0 0 ReadySubscribe)"
    using cell_start by (simp add: unattached_def)
  then have "cell_reachable (?c None 0 0 (ReadyRead 0))"
    by (rule cell_next) (use cell_step.subscribe [of "?c None 0 0 ReadySubscribe"] in simp)
  then have "cell_reachable (?c None 0 0 (ReadyWait 0))"
    by (rule cell_next) (use cell_step.read_cell [of "?c None 0 0 (ReadyRead 0)" 0] in
        \<open>simp add: cell_read_def\<close>)
  then have "cell_reachable (?c (Some 5) 0 1 (ReadyWait 0))"
    by (rule cell_next) (use cell_step.install_write [of "?c None 0 0 (ReadyWait 0)" 5] in simp)
  then have "cell_reachable (?c (Some 5) 1 0 (ReadyWait 0))"
    by (rule cell_next) (use cell_step.install_announce [of "?c (Some 5) 0 1 (ReadyWait 0)"] in simp)
  then show ?thesis by (simp add: asleep_then_installed_def)
qed

theorem install_wakes_call_witness:
  "cell_step asleep_then_installed (asleep_then_installed\<lparr>bc_waiter := ReadyRead 1\<rparr>)"
  using install_wakes_call [OF asleep_reachable, of 5] by (simp add: asleep_then_installed_def)

end
