(* ===== verification/Remote.thy ===== *)
theory Remote
  imports Client
begin

text \<open>
  A front end and its leader together: the client loop of one process and the connection loop of the
  other, joined by the two directions of one stream. What a process has written and the other has not
  read yet is in flight; a message travels as the JSON value of its frame. Either side may lose the
  connection at any time.
\<close>

section \<open>The composition\<close>

record ('i, 'f, 'r, 'w) remote =
  rm_client :: "('i, 'f, 'r) client_conn"
  rm_server :: "('i, 'f, 'r, 'w) frontend_conn"
  rm_up :: nat
  rm_down :: nat

definition remote_new :: "('i, 'f, 'r, 'w) remote" where
  "remote_new =
     \<lparr>rm_client = client_conn_new, rm_server = frontend_conn_new, rm_up = 0, rm_down = 0\<rparr>"

text \<open>
  A command given to the client; the server reading the next message of the client; the client
  reading the next message of the server; any other event of the server; the loss of the stream on
  either side.
\<close>

datatype ('i, 'f, 'r, 'w) remote_event =
    RemoteCommand "'w written" "'i client_command option"
  | RemoteUp
  | RemoteDown
  | RemoteServer "('f, 'r, 'w) conn_event"
  | RemoteServerLost
  | RemoteClientLost

fun remote_step ::
    "('i frontend_to_leader \<Rightarrow> json option) \<Rightarrow> (json \<Rightarrow> 'i frontend_to_leader option)
      \<Rightarrow> (('f, 'r) leader_to_frontend \<Rightarrow> json option) \<Rightarrow> (json \<Rightarrow> ('f, 'r) leader_to_frontend option)
      \<Rightarrow> ('i, 'f, 'r, 'w) remote \<Rightarrow> ('i, 'f, 'r, 'w) remote_event \<Rightarrow> ('i, 'f, 'r, 'w) remote" where
  "remote_step eu du ed dd s (RemoteCommand w command) =
     s\<lparr>rm_client := client_step eu dd (rm_client s) (ClientCommand w command)\<rparr>"
| "remote_step eu du ed dd s RemoteUp =
     (let sent = cc_sent (rm_client s) in
      if rm_up s < length sent
      then s\<lparr>rm_server := conn_step du ed (rm_server s) (LoopFrame (Some (Inr (eu (sent ! rm_up s))))),
             rm_up := Suc (rm_up s)\<rparr>
      else s)"
| "remote_step eu du ed dd s RemoteDown =
     (let written = fc_written (rm_server s) in
      if rm_down s < length written
      then s\<lparr>rm_client := client_step eu dd (rm_client s)
               (ClientFrame (Some (Inr (ed (written ! rm_down s)))) :: ('i, 'w) client_event),
             rm_down := Suc (rm_down s)\<rparr>
      else s)"
| "remote_step eu du ed dd s (RemoteServer (LoopFrame frm)) = s"
| "remote_step eu du ed dd s (RemoteServer e) =
     s\<lparr>rm_server := conn_step du ed (rm_server s) e\<rparr>"
| "remote_step eu du ed dd s RemoteServerLost =
     s\<lparr>rm_server := conn_step du ed (rm_server s) (LoopFrame None)\<rparr>"
| "remote_step eu du ed dd s RemoteClientLost =
     s\<lparr>rm_client := client_step eu dd (rm_client s) (ClientFrame None :: ('i, 'w) client_event)\<rparr>"

section \<open>What a server answers\<close>

text \<open>Its calls and results are of the requests it was asked.\<close>

definition serves :: "(string \<times> 'i broker_call) set \<Rightarrow> ('i, 'f, 'r, 'w) frontend_conn \<Rightarrow> bool" where
  "serves A c \<longleftrightarrow>
     (\<forall>(t, k) \<in> set (fc_calls c). (ct_id k, ct_call k) \<in> A) \<and>
     (\<forall>(i, call, x) \<in> set (fc_results c). (i, call) \<in> A)"

text \<open>An answer is a result that was computed, or says that the result does not fit.\<close>

definition limit_error :: tool_error where
  "limit_error = tool_error_new LimitExceeded False"

definition lost_error :: tool_error where
  "lost_error = tool_error_new ConnectionLost True"

definition explained ::
    "(('f, 'r) leader_to_frontend \<Rightarrow> json option)
      \<Rightarrow> (string \<times> 'i broker_call \<times> (tool_error + ('f, 'r) broker_result)) list
      \<Rightarrow> string \<Rightarrow> tool_error + ('f, 'r) broker_result \<Rightarrow> 'i broker_call \<Rightarrow> bool" where
  "explained ed results i res call \<longleftrightarrow>
     (i, call, res) \<in> set results \<or>
     res = Inl limit_error \<and> (\<exists>x. (i, call, x) \<in> set results \<and> \<not> fits ed (answer_message i x))"

definition honest ::
    "(('f, 'r) leader_to_frontend \<Rightarrow> json option) \<Rightarrow> ('i, 'f, 'r, 'w) frontend_conn \<Rightarrow> bool" where
  "honest ed c \<longleftrightarrow>
     (\<forall>i res. answer_message i res \<in> set (fc_written c) \<longrightarrow> (\<exists>call. explained ed (fc_results c) i res call))"

lemma explained_mono: "explained ed rs i res call \<Longrightarrow> set rs \<subseteq> set rs' \<Longrightarrow> explained ed rs' i res call"
  by (auto simp: explained_def)

lemma answer_message_inj [simp]: "answer_message i x = answer_message j y \<longleftrightarrow> i = j \<and> x = y"
  by (cases x; cases y) auto

lemma answer_message_eq [simp]:
  "LError j e = answer_message i x \<longleftrightarrow> i = j \<and> x = Inl e"
  "LResponse j r = answer_message i x \<longleftrightarrow> i = j \<and> x = Inr r"
  by (cases x; auto)+

lemma answer_not_progress [simp]: "answer_message i x \<noteq> LProgress j p" "LProgress j p \<noteq> answer_message i x"
  by (cases x; simp)+

lemma serves_end [simp]: "serves A (end_loop r c) \<longleftrightarrow> serves A c"
  by (simp add: serves_def end_loop_def)

lemma honest_keep:
  "honest ed c \<Longrightarrow> honest ed (c\<lparr>fc_active := a, fc_fresh := n, fc_calls := cs, fc_accepted := l\<rparr>)"
  by (simp add: honest_def)

lemma honest_tokens: "honest ed c \<Longrightarrow> honest ed (c\<lparr>fc_tokens := ts\<rparr>)"
  by (simp add: honest_def)

lemma honest_end [simp]: "honest ed (end_loop r c) \<longleftrightarrow> honest ed c"
  by (simp add: honest_def end_loop_def)

text \<open>What a step of a task or a teardown leaves of the server.\<close>

definition keeps :: "('i, 'f, 'r, 'w) frontend_conn \<Rightarrow> ('i, 'f, 'r, 'w) frontend_conn \<Rightarrow> bool" where
  "keeps c c' \<longleftrightarrow>
     fc_results c' = fc_results c \<and> fc_written c' = fc_written c \<and>
     (\<forall>(t, k') \<in> set (fc_calls c'). \<exists>(s, k) \<in> set (fc_calls c). ct_id k = ct_id k' \<and> ct_call k = ct_call k')"

lemma keeps_refl: "keeps c c"
  by (auto simp: keeps_def)

lemma keeps_serves: "keeps c c' \<Longrightarrow> serves A c \<Longrightarrow> serves A c'"
  by (fastforce simp: keeps_def serves_def)

lemma keeps_honest: "keeps c c' \<Longrightarrow> honest ed c \<Longrightarrow> honest ed c'"
  by (simp add: keeps_def honest_def)

lemma set_task_keeps:
  assumes "hm_get (fc_calls c) t = Some k" and "fc_calls c' = fc_calls c"
    "fc_results c' = fc_results c" "fc_written c' = fc_written c"
  shows "keeps c (set_task t k at c')"
proof -
  have "(t, k) \<in> set (fc_calls c)" using assms(1) by (rule map_of_SomeD)
  moreover have "set (hm_insert t (k\<lparr>ct_at := at\<rparr>) (fc_calls c)) \<subseteq> insert (t, k\<lparr>ct_at := at\<rparr>) (set (fc_calls c))"
    by (rule set_hm_insert)
  ultimately show ?thesis
    using assms(2-) unfolding keeps_def set_task_def by (auto split: prod.splits) fastforce+
qed

lemma on_task_keeps: "keeps c (on_task ev t c)"
proof (cases "hm_get (fc_calls c) t")
  case (Some k)
  then show ?thesis
    by (cases ev) (auto simp: on_task_def keeps_refl set_task_keeps simp del: map_of_eq_Some_iff
        split: option.split task_at.split)
qed (simp add: on_task_def keeps_refl)

lemma joined_keeps: "keeps c (conn_step du ed c (Joined t))"
proof -
  have "keeps c (c\<lparr>fc_calls := hm_remove t (fc_calls c)\<rparr>)"
    by (auto simp: keeps_def hm_remove_as_filter)
  then show ?thesis by (auto simp: keeps_refl split: option.split task_at.split)
qed

lemma write_message_serves [simp]: "serves A (write_message w m c) \<longleftrightarrow> serves A c"
  by (auto simp: write_message_def serves_def end_loop_def split: sum.split)

lemma write_message_honest:
  assumes "honest ed c" and "\<And>i res. m = answer_message i res \<Longrightarrow> \<exists>call. explained ed (fc_results c) i res call"
  shows "honest ed (write_message w m c)"
  using assms by (auto simp: write_message_def honest_def end_loop_def split: sum.split)

lemma forward_progress_honest:
  assumes "serves A c" and "honest ed c"
  shows "serves A (forward_progress ed w c) \<and> honest ed (forward_progress ed w c)"
proof (cases "fc_progress c")
  case (Cons ip rest)
  let ?c = "c\<lparr>fc_progress := rest\<rparr>"
  have "serves A ?c" "honest ed ?c" using assms by (simp_all add: serves_def honest_def)
  then show ?thesis
    by (cases ip) (auto simp: forward_progress_def Cons Let_def progress_message_def
        intro!: write_message_honest split: sum.split)
qed (use assms in \<open>simp add: forward_progress_def\<close>)

lemma not_fits: "message_body (ed m) = (Inl e :: 'w broker_error + json) \<Longrightarrow> \<not> fits ed m"
  by (auto simp: message_body_def fits_def split: option.splits if_splits)

lemma complete_call_honest:
  fixes w :: "'w written"
  assumes "serves A c" and "honest ed c" and "hm_get (fc_calls c) t = Some k"
  shows "serves A (complete_call ed w t k r c) \<and> honest ed (complete_call ed w t k r c)"
proof -
  let ?rs = "fc_results c @ [(ct_id k, ct_call k, r)]"
  let ?c = "c\<lparr>fc_calls := hm_remove t (fc_calls c), fc_active := hm_remove (ct_id k) (fc_active c),
      fc_results := ?rs\<rparr>"
  have "(t, k) \<in> set (fc_calls c)" using assms(3) by (rule map_of_SomeD)
  then have serves: "serves A ?c" using assms(1) by (auto simp: serves_def hm_remove_as_filter)
  have honest: "honest ed ?c"
    using assms(2) explained_mono [of ed "fc_results c" _ _ _ ?rs] by (fastforce simp: honest_def)
  have direct: "explained ed ?rs (ct_id k) r (ct_call k)" by (simp add: explained_def)
  have fallback: "explained ed ?rs (ct_id k) (Inl limit_error) (ct_call k)"
    if "\<not> fits ed (answer_message (ct_id k) r)"
    using that by (auto simp: explained_def)
  show ?thesis
  proof (cases "message_body (ed (answer_message (ct_id k) r)) :: 'w broker_error + json")
    case (Inl e)
    then have "explained ed ?rs (ct_id k) (Inl limit_error) (ct_call k)" by (rule fallback [OF not_fits])
    then have "honest ed (write_message w (LError (ct_id k) limit_error) ?c)" for w :: "'w written"
      by (intro write_message_honest [OF honest]) auto
    then show ?thesis
      using Inl serves honest
      by (auto simp: complete_call_def Let_def limit_error_def [symmetric] split: sum.split)
  next
    case (Inr j)
    have "honest ed (write_message w (answer_message (ct_id k) r) ?c)"
      using direct by (intro write_message_honest [OF honest]) auto
    then show ?thesis using Inr serves by (simp add: complete_call_def Let_def)
  qed
qed

text \<open>The server stays honest, and serves what it was asked.\<close>

lemma conn_step_honest:
  assumes "serves A c" and "honest ed c"
    and "\<And>f i call. e = LoopFrame (Some (Inr f)) \<Longrightarrow> Option.bind f du = Some (FRequest i call) \<Longrightarrow> (i, call) \<in> A"
  shows "serves A (conn_step du ed c e) \<and> honest ed (conn_step du ed c e)"
proof (cases e)
  case (LoopFrame frm)
  have msg: "serves A (frontend_message m c) \<and> honest ed (frontend_message m c)"
    if "\<And>i call. m = FRequest i call \<Longrightarrow> (i, call) \<in> A" for m
  proof (cases m)
    case (FRequest i call)
    have "serves A (c\<lparr>fc_active := a, fc_fresh := n, fc_calls := hm_insert t k (fc_calls c), fc_accepted := l\<rparr>)"
      if "(ct_id k, ct_call k) \<in> A" for a n t k l
      using assms(1) that by (auto simp: serves_def dest!: subsetD [OF set_hm_insert])
    then show ?thesis
      using assms(1,2) that FRequest honest_keep by (auto simp: Let_def)
  next
    case (FCancel i)
    then show ?thesis
      using assms(1,2) honest_tokens by (auto simp: serves_def split: option.split)
  qed
  then show ?thesis
    using assms LoopFrame by (auto simp: frontend_frame_def split: option.split sum.split)
next
  case (Joined t)
  then show ?thesis using keeps_serves keeps_honest joined_keeps assms(1,2) by metis
next
  case (LoopCompletion t w)
  then show ?thesis
    using assms(1,2)
    by (auto simp: complete_call_honest simp del: map_of_eq_Some_iff split: option.split task_at.split)
qed (use assms forward_progress_honest keeps_serves [OF on_task_keeps] keeps_honest [OF on_task_keeps] in auto)

section \<open>What a client delivers\<close>

text \<open>
  Whoever waits asked; what was delivered is an answer that the server wrote, or the loss of the
  connection; what was sent was asked.
\<close>

definition client_ok ::
    "('f, 'r) leader_to_frontend set \<Rightarrow> ('i, 'f, 'r) client_conn \<Rightarrow> bool" where
  "client_ok W c \<longleftrightarrow>
     (\<forall>i ch. (i, ch) \<in> set (cc_pending c) \<longrightarrow> (\<exists>call. (i, call, ch) \<in> set (cc_taken c))) \<and>
     (\<forall>ch res. (ch, res) \<in> set (cc_delivered c) \<longrightarrow> (\<exists>i call. (i, call, ch) \<in> set (cc_taken c) \<and>
        (res = Inl lost_error \<or> answer_message i res \<in> W))) \<and>
     (\<forall>i call. FRequest i call \<in> set (cc_sent c) \<longrightarrow> (\<exists>ch. (i, call, ch) \<in> set (cc_taken c)))"

lemma client_ok_mono: "client_ok W c \<Longrightarrow> W \<subseteq> W' \<Longrightarrow> client_ok W' c"
  unfolding client_ok_def by fast

lemma client_end_ok: "client_ok W c \<Longrightarrow> client_ok W (client_end c)"
  unfolding client_ok_def client_end_def lost_error_def by (simp add: image_iff) fast

lemma client_send_ok:
  assumes "client_ok W c" and "\<forall>i call. m = FRequest i call \<longrightarrow> (\<exists>ch. (i, call, ch) \<in> set (cc_taken c))"
  shows "client_ok W (client_send em w m c)"
proof -
  have "client_ok W (c\<lparr>cc_sent := cc_sent c @ [m]\<rparr>)" using assms unfolding client_ok_def by simp
  then show ?thesis using client_end_ok [OF assms(1)] by (simp add: client_send_def split: sum.split)
qed

lemma client_command_ok:
  assumes "client_ok W c"
  shows "client_ok W (client_on_command em w command c)"
proof (cases "(em, w, command, c)" rule: client_on_command.cases)
  case (2 em' w' i call response progress c')
  have "client_ok W (c\<lparr>cc_pending := hm_insert i response (cc_pending c),
      cc_progress := hm_insert i progress (cc_progress c), cc_taken := cc_taken c @ [(i, call, response)]\<rparr>)"
    using assms subsetD [OF set_hm_insert [of i response "cc_pending c"]]
    unfolding client_ok_def by simp fast
  then show ?thesis using 2 by (auto intro!: client_send_ok)
qed (use assms in \<open>auto intro: client_end_ok client_send_ok\<close>)

lemma client_deliver_ok:
  assumes "client_ok W c" and "answer_message i res \<in> W"
  shows "client_ok W (client_deliver i res c)"
proof (cases "hm_get (cc_pending c) i")
  case (Some ch)
  then have "(i, ch) \<in> set (cc_pending c)" by (rule map_of_SomeD)
  then show ?thesis
    using assms Some unfolding client_ok_def
    by (simp add: client_deliver_def Let_def hm_remove_as_filter del: map_of_eq_Some_iff) fast
qed (use assms in \<open>simp add: client_ok_def client_deliver_def Let_def\<close>)

lemma client_message_ok:
  assumes "client_ok W c" and "m \<in> W"
  shows "client_ok W (client_on_message m c)"
proof (cases m)
  case (LProgress i p)
  then show ?thesis using assms(1) by (auto simp: client_ok_def split: option.split)
next
  case (LResponse i r)
  then show ?thesis using assms client_deliver_ok [of W c i "Inr r"] by simp
next
  case (LError i e)
  then show ?thesis using assms client_deliver_ok [of W c i "Inl e"] by simp
qed

lemma client_step_ok:
  assumes "client_ok W c"
    and "\<And>f m. e = ClientFrame (Some (Inr f)) \<Longrightarrow> Option.bind f dm = Some m \<Longrightarrow> m \<in> W"
  shows "client_ok W (client_step em dm c e)"
  using assms by (cases e) (auto simp: client_on_frame_def client_command_ok client_end_ok client_message_ok
      split: option.split sum.split)

section \<open>The whole path\<close>

definition requests_of :: "('i, 'f, 'r) client_conn \<Rightarrow> (string \<times> 'i broker_call) set" where
  "requests_of c = {(i, call). FRequest i call \<in> set (cc_sent c)}"

fun command_message :: "'i client_command \<Rightarrow> 'i frontend_to_leader" where
  "command_message (CommandRequest i call response progress) = FRequest i call"
| "command_message (CommandCancel i) = FCancel i"

text \<open>The commands given to the client are values of their types.\<close>

fun event_ok :: "('i frontend_to_leader \<Rightarrow> bool) \<Rightarrow> ('i, 'f, 'r, 'w) remote_event \<Rightarrow> bool" where
  "event_ok ok (RemoteCommand w (Some command)) \<longleftrightarrow> ok (command_message command)"
| "event_ok ok _ \<longleftrightarrow> True"

definition remote_inv ::
    "('i frontend_to_leader \<Rightarrow> bool) \<Rightarrow> (('f, 'r) leader_to_frontend \<Rightarrow> json option)
      \<Rightarrow> ('i, 'f, 'r, 'w) remote \<Rightarrow> bool" where
  "remote_inv ok ed s \<longleftrightarrow>
     client_ok (set (fc_written (rm_server s))) (rm_client s) \<and>
     serves (requests_of (rm_client s)) (rm_server s) \<and> honest ed (rm_server s) \<and>
     (\<forall>m \<in> set (cc_sent (rm_client s)). ok m)"

lemma serves_mono: "serves A c \<Longrightarrow> A \<subseteq> B \<Longrightarrow> serves B c"
  unfolding serves_def by fast

lemma client_send_sent:
  "set (cc_sent (client_send em w m c)) \<subseteq> insert m (set (cc_sent c))"
  "set (cc_sent c) \<subseteq> set (cc_sent (client_send em w m c))"
  by (auto simp: client_send_def client_end_def split: sum.split)

lemma client_command_sent:
  "set (cc_sent (client_on_command em w command c)) \<subseteq> set (cc_sent c) \<union> command_message ` set_option command"
  "set (cc_sent c) \<subseteq> set (cc_sent (client_on_command em w command c))"
  by (cases "(em, w, command, c)" rule: client_on_command.cases;
      auto simp: client_end_def dest: subsetD [OF client_send_sent(1)] intro: subsetD [OF client_send_sent(2)])+

lemma client_frame_sent [simp]: "cc_sent (client_on_frame dm frm c) = cc_sent c"
proof -
  have "cc_sent (client_deliver i r c) = cc_sent c" for i r
    by (auto simp: client_deliver_def Let_def split: option.split)
  then have "cc_sent (client_on_message m c) = cc_sent c" for m
    by (cases m) (auto split: option.split)
  then show ?thesis by (auto simp: client_on_frame_def client_end_def split: option.split sum.split)
qed

lemma written_grows: "set (fc_written c) \<subseteq> set (fc_written (conn_step du ed c e))"
proof -
  have w: "set (fc_written c') \<subseteq> set (fc_written (write_message w m c'))" for w m and c' :: "('i, 'f, 'r, 'w) frontend_conn"
    by (auto simp: write_message_def end_loop_def split: sum.split)
  have "set (fc_written c) \<subseteq> set (fc_written (frontend_message m c))" for m
    by (cases m) (auto simp: end_loop_def Let_def split: option.split)
  moreover have "fc_written (on_task ev t c) = fc_written c" for ev t
    using on_task_keeps [of c ev t] by (simp add: keeps_def)
  moreover have "fc_written (conn_step du ed c (Joined t)) = fc_written c" for t
    using joined_keeps [of c du ed t] by (simp add: keeps_def)
  ultimately show ?thesis
    by (cases e) (auto simp: frontend_frame_def forward_progress_def complete_call_def Let_def end_loop_def
        intro: subsetD [OF w] split: option.split sum.split list.split task_at.split)
qed

lemma server_step_inv:
  assumes "remote_inv ok ed s"
    and "\<And>f i call. e = LoopFrame (Some (Inr f)) \<Longrightarrow> Option.bind f du = Some (FRequest i call) \<Longrightarrow>
      FRequest i call \<in> set (cc_sent (rm_client s))"
  shows "remote_inv ok ed (s\<lparr>rm_server := conn_step du ed (rm_server s) e\<rparr>)"
proof -
  have "serves (requests_of (rm_client s)) (conn_step du ed (rm_server s) e) \<and>
      honest ed (conn_step du ed (rm_server s) e)"
    using assms by (intro conn_step_honest) (auto simp: remote_inv_def requests_of_def)
  then show ?thesis
    using assms(1) client_ok_mono [OF _ written_grows] by (auto simp: remote_inv_def)
qed

lemma client_frame_inv:
  assumes "remote_inv ok ed s"
    and "\<And>f m. frm = Some (Inr f) \<Longrightarrow> Option.bind f dd = Some m \<Longrightarrow> m \<in> set (fc_written (rm_server s))"
  shows "remote_inv ok ed (s\<lparr>rm_client := client_step eu dd (rm_client s) (ClientFrame frm)\<rparr>)"
proof -
  have "client_ok (set (fc_written (rm_server s))) (client_step eu dd (rm_client s) (ClientFrame frm))"
    using assms by (intro client_step_ok) (auto simp: remote_inv_def)
  then show ?thesis using assms(1) by (simp add: remote_inv_def requests_of_def)
qed

lemma client_command_inv:
  assumes "remote_inv ok ed s" and "\<forall>c \<in> set_option command. ok (command_message c)"
  shows "remote_inv ok ed (s\<lparr>rm_client := client_step eu dd (rm_client s) (ClientCommand w command)\<rparr>)"
proof -
  let ?c = "client_step eu dd (rm_client s) (ClientCommand w command)"
  have "client_ok (set (fc_written (rm_server s))) ?c"
    using assms(1) by (intro client_step_ok) (auto simp: remote_inv_def)
  moreover have "requests_of (rm_client s) \<subseteq> requests_of ?c"
    using client_command_sent(2) [of "rm_client s"] by (auto simp: requests_of_def)
  moreover have "\<forall>m \<in> set (cc_sent ?c). ok m"
    using assms client_command_sent(1) [of eu w command "rm_client s"] by (auto simp: remote_inv_def)
  ultimately show ?thesis
    using assms(1) serves_mono by (auto simp: remote_inv_def)
qed

lemma remote_inv_counters:
  "remote_inv ok ed (s\<lparr>rm_up := n\<rparr>) \<longleftrightarrow> remote_inv ok ed s"
  "remote_inv ok ed (s\<lparr>rm_down := n\<rparr>) \<longleftrightarrow> remote_inv ok ed s"
  by (simp_all add: remote_inv_def)

lemma remote_step_inv:
  assumes "message_codec ok eu du" and "message_codec (\<lambda>_. True) ed dd"
    and "remote_inv ok ed s" and "event_ok ok e"
  shows "remote_inv ok ed (remote_step eu du ed dd s e)"
proof (cases e)
  case (RemoteCommand w command)
  show ?thesis
    unfolding RemoteCommand remote_step.simps
    by (rule client_command_inv [OF assms(3)]) (use assms(4) RemoteCommand in \<open>cases command; simp\<close>)
next
  case RemoteUp
  let ?sent = "cc_sent (rm_client s)"
  have "FRequest i call \<in> set ?sent"
    if "rm_up s < length ?sent" "Option.bind (eu (?sent ! rm_up s)) du = Some (FRequest i call)" for i call
  proof -
    have "ok (?sent ! rm_up s)" using assms(3) that(1) by (simp add: remote_inv_def)
    from message_codec.read_back [OF assms(1) this that(2)] show ?thesis using that(1) by simp
  qed
  then have "remote_inv ok ed (s\<lparr>rm_server := conn_step du ed (rm_server s)
      (LoopFrame (Some (Inr (eu (?sent ! rm_up s)))))\<rparr>)" if "rm_up s < length ?sent"
    using that by (intro server_step_inv [OF assms(3)]) simp
  then have "remote_inv ok ed (s\<lparr>rm_server := conn_step du ed (rm_server s)
      (LoopFrame (Some (Inr (eu (?sent ! rm_up s))))), rm_up := Suc (rm_up s)\<rparr>)" if "rm_up s < length ?sent"
    using that by (simp only: remote_inv_counters)
  then show ?thesis
    using assms(3) unfolding RemoteUp remote_step.simps Let_def by (simp only: split: if_split) blast
next
  case RemoteDown
  let ?written = "fc_written (rm_server s)"
  have "m \<in> set ?written"
    if "rm_down s < length ?written" "Option.bind (ed (?written ! rm_down s)) dd = Some m" for m
    using message_codec.read_back [OF assms(2) TrueI that(2)] that(1) by simp
  then have "remote_inv ok ed (s\<lparr>rm_client := client_step eu dd (rm_client s)
      (ClientFrame (Some (Inr (ed (?written ! rm_down s)))) :: ('a, 'd) client_event)\<rparr>)"
    if "rm_down s < length ?written"
    using that by (intro client_frame_inv [OF assms(3)]) simp
  then have "remote_inv ok ed (s\<lparr>rm_client := client_step eu dd (rm_client s)
      (ClientFrame (Some (Inr (ed (?written ! rm_down s)))) :: ('a, 'd) client_event),
      rm_down := Suc (rm_down s)\<rparr>)"
    if "rm_down s < length ?written"
    using that by (simp only: remote_inv_counters)
  then show ?thesis
    using assms(3) unfolding RemoteDown remote_step.simps Let_def by (simp only: split: if_split) blast
next
  case (RemoteServer ev)
  have "remote_inv ok ed (s\<lparr>rm_server := conn_step du ed (rm_server s) ev\<rparr>)" if "\<And>frm. ev \<noteq> LoopFrame frm"
    by (rule server_step_inv [OF assms(3)]) (simp add: that)
  then show ?thesis
    using assms(3) unfolding RemoteServer
    by (cases ev; simp only: remote_step.simps conn_event.distinct simp_thms)
next
  case RemoteServerLost
  show ?thesis
    unfolding RemoteServerLost remote_step.simps by (rule server_step_inv [OF assms(3)]) simp
next
  case RemoteClientLost
  show ?thesis
    unfolding RemoteClientLost remote_step.simps by (rule client_frame_inv [OF assms(3)]) simp_all
qed

abbreviation remote_run where
  "remote_run eu du ed dd es \<equiv> foldl (remote_step eu du ed dd) remote_new es"

lemma remote_new_inv: "remote_inv ok ed remote_new"
  by (simp add: remote_inv_def remote_new_def client_conn_new_def frontend_conn_new_def client_ok_def
      serves_def honest_def)

lemma remote_run_inv:
  assumes "message_codec ok eu du" and "message_codec (\<lambda>_. True) ed dd" and "list_all (event_ok ok) es"
  shows "remote_inv ok ed (remote_run eu du ed dd es)"
proof -
  have "guarded_machine (remote_step eu du ed dd) (remote_inv ok ed) (\<lambda>_. event_ok ok)"
    by unfold_locales (rule remote_step_inv [OF assms(1,2)])
  from guarded_machine.guarded_run_inv [OF this remote_new_inv] show ?thesis
    using assms(3) unfolding list_all_length by blast
qed

text \<open>What was delivered was asked for, on the channel of its own request.\<close>

lemma delivered_explained:
  assumes "remote_inv ok ed s" and "distinct (map fst (cc_taken (rm_client s)))"
    and "(ch, res) \<in> set (cc_delivered (rm_client s))"
  shows "\<exists>i call. (i, call, ch) \<in> set (cc_taken (rm_client s)) \<and>
    (res = Inl lost_error \<or> explained ed (fc_results (rm_server s)) i res call)"
proof -
  from assms(1,3) obtain i call where taken: "(i, call, ch) \<in> set (cc_taken (rm_client s))"
    and res: "res = Inl lost_error \<or> answer_message i res \<in> set (fc_written (rm_server s))"
    unfolding remote_inv_def client_ok_def by blast
  show ?thesis
  proof (cases "res = Inl lost_error")
    case False
    with res assms(1) obtain call' where e: "explained ed (fc_results (rm_server s)) i res call'"
      unfolding remote_inv_def honest_def by blast
    then have "(i, call') \<in> requests_of (rm_client s)"
      using assms(1) unfolding remote_inv_def serves_def explained_def by blast
    then obtain ch' where "(i, call', ch') \<in> set (cc_taken (rm_client s))"
      using assms(1) unfolding remote_inv_def client_ok_def requests_of_def by blast
    with assms(2) taken have "call' = call" by (metis Pair_inject eq_key_imp_eq_value)
    with e taken show ?thesis by blast
  qed (use taken in blast)
qed

text \<open>
  C16. A call through a remote leader means what a call to it means. Let a front end and its leader run
  in any order, over one stream that either may lose at any time, with writes that fail or never
  happen, calls that fail, report progress, are cancelled or never end. If the identifiers of the
  requests differ, what a waiting caller receives is the result that the leader's broker gave for the
  very call of that caller, or that its connection is lost, or, when the result does not fit a frame,
  that a limit is exceeded.
\<close>

theorem remote_call_faithful:
  assumes "\<And>i j i'. ei i = Some j \<Longrightarrow> di j = Some i' \<Longrightarrow> i' = i"
    and "\<And>f j f'. ef f = Some j \<Longrightarrow> df j = Some f' \<Longrightarrow> f' = f"
    and "\<And>r j r'. er r = Some j \<Longrightarrow> dr j = Some r' \<Longrightarrow> r' = r"
    and "list_all (event_ok (frontend_message_ok hyphenated)) es"
  defines "ed \<equiv> enc_leader_to_frontend ef er"
  defines "s \<equiv> remote_run (enc_frontend_to_leader ei) (dec_frontend_to_leader (dec_broker_call hyphenated di))
      ed (dec_leader_to_frontend (dec_broker_result df dr)) es"
  assumes "distinct (map fst (cc_taken (rm_client s)))"
    and "(channel, res) \<in> set (cc_delivered (rm_client s))"
  shows "\<exists>i call. (i, call, channel) \<in> set (cc_taken (rm_client s)) \<and>
    (res = Inl (tool_error_new ConnectionLost True) \<or>
     (i, call, res) \<in> set (fc_results (rm_server s)) \<or>
     res = Inl (tool_error_new LimitExceeded False) \<and>
       (\<exists>x. (i, call, x) \<in> set (fc_results (rm_server s)) \<and> \<not> fits ed (answer_message i x)))"
proof -
  have "message_codec (\<lambda>_. True) ei di" "message_codec (\<lambda>_. True) ef df" "message_codec (\<lambda>_. True) er dr"
    using assms(1-3) by (auto simp: message_codec_def)
  then have "remote_inv (frontend_message_ok hyphenated) ed s"
    unfolding s_def ed_def using assms(4) by (intro remote_run_inv frontend_codec leader_codec)
  from delivered_explained [OF this assms(7,8)] show ?thesis
    unfolding explained_def lost_error_def limit_error_def .
qed

text \<open>One request and its answer.\<close>

definition one_call :: "'i broker_call \<Rightarrow> ('f, 'r) broker_result \<Rightarrow> ('i, 'f, 'r, 'w) remote_event list" where
  "one_call call result =
     [RemoteCommand None (Some (CommandRequest ''f'' call 0 1)), RemoteUp, RemoteServer (TaskOpened 0 None),
      RemoteServer (TaskResult 0 (Some (Inr result))), RemoteServer (LoopCompletion 0 None), RemoteDown]"

text \<open>The client's part and the leader's part of that run.\<close>

lemma one_call_sent:
  assumes "message_body (eu (FRequest ''f'' call)) = (Inr j :: 'w broker_error + json)"
    and c: "c = client_step eu dd client_conn_new
      (ClientCommand (None :: 'w written) (Some (CommandRequest ''f'' call 0 1)))"
  shows "cc_sent c = [FRequest ''f'' call] \<and> cc_taken c = [(''f'', call, 0)] \<and> cc_running c \<and>
    cc_pending c = [(''f'', 0)] \<and> cc_delivered c = []"
  using assms(1) by (simp add: c client_conn_new_def client_send_def)

lemma one_call_written:
  fixes result :: "('f, 'r) broker_result" and s :: "('i, 'f, 'r, 'w) frontend_conn"
  assumes "du j = Some (FRequest ''f'' call)"
    and "message_body (ed (LResponse ''f'' result)) = (Inr k :: 'w broker_error + json)"
    and s: "s = foldl (conn_step du ed) frontend_conn_new
      [LoopFrame (Some (Inr (Some j))), TaskOpened 0 None, TaskResult 0 (Some (Inr result)), LoopCompletion 0 None]"
  shows "fc_written s = [LResponse ''f'' result]"
  using assms(1,2)
  by (simp add: s frontend_conn_new_def frontend_frame_def Let_def on_task_def set_task_def complete_call_def
      write_message_def sent_def)

lemma one_call_delivered:
  assumes "dd k = Some (LResponse ''f'' result)" and "cc_running c" and "cc_pending c = [(''f'', 0)]"
    and c': "c' = client_step eu dd c (ClientFrame (Some (Inr (Some k))))"
  shows "cc_taken c' = cc_taken c \<and> cc_delivered c' = cc_delivered c @ [(0, Inr result)]"
  using assms(1-3) by (simp add: c' client_on_frame_def client_deliver_def Let_def)

lemma one_call_answered:
  fixes result :: "('f, 'r) broker_result" and s :: "('i, 'f, 'r, 'w) remote"
  assumes "eu (FRequest ''f'' call) = Some j" "src_len j \<le> MAX_ENVELOPE_BYTES" "du j = Some (FRequest ''f'' call)"
    and "ed (LResponse ''f'' result) = Some k" "src_len k \<le> MAX_ENVELOPE_BYTES" "dd k = Some (LResponse ''f'' result)"
    and s: "s = remote_run eu du ed dd (one_call call result)"
  shows "cc_taken (rm_client s) = [(''f'', call, 0)] \<and> cc_delivered (rm_client s) = [(0, Inr result)]"
proof -
  have "message_body (eu (FRequest ''f'' call)) = (Inr j :: 'w broker_error + json)"
    and body: "message_body (ed (LResponse ''f'' result)) = (Inr k :: 'w broker_error + json)"
    using assms by (simp_all add: message_body_def)
  obtain c where c: "c = client_step eu dd client_conn_new
      (ClientCommand (None :: 'w written) (Some (CommandRequest ''f'' call 0 1)))" by simp
  obtain t :: "('i, 'f, 'r, 'w) frontend_conn" where t: "t = foldl (conn_step du ed) frontend_conn_new
      [LoopFrame (Some (Inr (Some j))), TaskOpened 0 None, TaskResult 0 (Some (Inr result)), LoopCompletion 0 None]"
    by simp
  from one_call_sent [OF \<open>message_body (eu _) = _\<close> c] have sent: "cc_sent c = [FRequest ''f'' call]"
    "cc_taken c = [(''f'', call, 0)]" "cc_running c" "cc_pending c = [(''f'', 0)]" "cc_delivered c = []"
    by auto
  have written: "fc_written t = [LResponse ''f'' result]" by (rule one_call_written [OF assms(3) body t])
  have first: "remote_step eu du ed dd (remote_new :: ('i, 'f, 'r, 'w) remote)
      (RemoteCommand None (Some (CommandRequest ''f'' call 0 1))) =
      \<lparr>rm_client = c, rm_server = frontend_conn_new, rm_up = 0, rm_down = 0\<rparr>"
    by (simp only: remote_step.simps remote_new_def remote.simps c)
  have second: "remote_step eu du ed dd \<lparr>rm_client = c, rm_server = frontend_conn_new, rm_up = 0, rm_down = 0\<rparr>
      RemoteUp = \<lparr>rm_client = c, rm_server = conn_step du ed frontend_conn_new (LoopFrame (Some (Inr (Some j)))),
        rm_up = 1, rm_down = 0\<rparr>"
    using assms(1) sent(1) by (simp del: conn_step.simps add: Let_def)
  have "s = remote_step eu du ed dd \<lparr>rm_client = c, rm_server = t, rm_up = 1, rm_down = 0\<rparr> RemoteDown"
    unfolding s one_call_def foldl_Cons foldl_Nil first second
    by (simp only: remote_step.simps remote.simps t foldl_Cons foldl_Nil)
  then have "rm_client s = client_step eu dd c (ClientFrame (Some (Inr (Some k))) :: ('i, 'w) client_event)"
    using assms(4) written by (simp del: client_step.simps add: Let_def)
  from one_call_delivered [OF assms(6) sent(3,4) this] show ?thesis using sent by simp
qed

lemma bool_request:
  assumes "enc_frontend_to_leader (Some \<circ> js_bool) (FRequest ''f'' (Invoke None True)) = Some j"
  shows "src_len j \<le> MAX_ENVELOPE_BYTES \<and>
    dec_frontend_to_leader (dec_broker_call Some dec_bool) j = Some (FRequest ''f'' (Invoke None True))"
proof
  show "src_len j \<le> MAX_ENVELOPE_BYTES"
    using assms by (auto simp: js_len_defs limit_defs)
  show "dec_frontend_to_leader (dec_broker_call Some dec_bool) j = Some (FRequest ''f'' (Invoke None True))"
    using assms by (rule dec_enc_frontend [rotated]) (auto simp: bounded_ok_def newtype_defs limit_defs)
qed

lemma bool_response:
  assumes "enc_leader_to_frontend (Some \<circ> js_bool) (Some \<circ> js_bool)
    (LResponse ''f'' (Invocation True) :: (bool, bool) leader_to_frontend) = Some k"
  shows "src_len k \<le> MAX_ENVELOPE_BYTES \<and>
    dec_leader_to_frontend (dec_broker_result dec_bool dec_bool) k = Some (LResponse ''f'' (Invocation True))"
proof
  show len: "src_len k \<le> MAX_ENVELOPE_BYTES"
    using assms by (auto simp: js_len_defs limit_defs)
  show "dec_leader_to_frontend (dec_broker_result dec_bool dec_bool) k = Some (LResponse ''f'' (Invocation True))"
    using assms by (rule dec_enc_leader [rotated 2]) (use len in \<open>auto simp: bounded_ok_def newtype_defs limit_defs\<close>)
qed

abbreviation one_call_run :: "(bool, bool, bool, unit) remote" where
  "one_call_run \<equiv> remote_run (enc_frontend_to_leader (Some \<circ> js_bool))
     (dec_frontend_to_leader (dec_broker_call Some dec_bool))
     (enc_leader_to_frontend (Some \<circ> js_bool) (Some \<circ> js_bool))
     (dec_leader_to_frontend (dec_broker_result dec_bool dec_bool))
     (one_call (Invoke None True) (Invocation True))"

lemma one_call_run_answered:
  "cc_taken (rm_client one_call_run) = [(''f'', Invoke None True, 0)] \<and>
   cc_delivered (rm_client one_call_run) = [(0, Inr (Invocation True))]"
proof -
  obtain j where j: "enc_frontend_to_leader (Some \<circ> js_bool) (FRequest ''f'' (Invoke None True)) = Some j" by simp
  obtain k where k: "enc_leader_to_frontend (Some \<circ> js_bool) (Some \<circ> js_bool)
    (LResponse ''f'' (Invocation True) :: (bool, bool) leader_to_frontend) = Some k" by simp
  show ?thesis
    using j k bool_request [OF j] bool_response [OF k] by (intro one_call_answered) auto
qed

theorem remote_call_faithful_witness:
  "cc_delivered (rm_client one_call_run) = [(0, Inr (Invocation True))] \<and>
   (''f'', Invoke None True, Inr (Invocation True)) \<in> set (fc_results (rm_server one_call_run))"
proof -
  have "list_all (event_ok (frontend_message_ok Some))
      (one_call (Invoke None True) (Invocation True) :: (bool, bool, bool, unit) remote_event list)"
    by (simp add: one_call_def bounded_ok_def newtype_defs limit_defs)
  moreover have "dec_bool j = Some i'" "i' = i"
    if "(Some \<circ> js_bool) i = Some j" "dec_bool j = Some i'" for i j i'
    using that by auto
  moreover note one_call_run_answered
  ultimately show ?thesis
    using remote_call_faithful [of "Some \<circ> js_bool" dec_bool "Some \<circ> js_bool" dec_bool "Some \<circ> js_bool" dec_bool
        Some "one_call (Invoke None True) (Invocation True)" 0 "Inr (Invocation True)"]
    by (simp only: list.set list.map fst_conv) fastforce
qed

end
