(* ===== verification/Values.thy ===== *)
theory Values
  imports Wire
begin

text \<open>
  Values of a design as the plugin reports them (the first part of the tree of
  \<open>crates/protocol/src/domain/common.rs\<close>): colours, paints, effects, strokes, corners, layout, text,
  component properties, variables and styles. A closed enum has a visitor of its own, which is the
  loop \<open>visit_entries\<close> over its fields followed by the choice of the variant; a struct has the
  derived decoder. A double is its IEEE bit pattern, as the parser gave it.
\<close>

section \<open>Doubles\<close>

type_synonym f64 = "64 word"

fun bit_length :: "nat \<Rightarrow> nat" where
  "bit_length n = (if n = 0 then 0 else Suc (bit_length (n div 2)))"

declare bit_length.simps [simp del]

text \<open>
  An integer as a double (\<open>n as f64\<close>): exact below \<open>2^53\<close>, otherwise rounded to the nearest double,
  ties to even. The rounding may carry into the exponent.
\<close>

definition f64_of_nat :: "nat \<Rightarrow> f64" where
  "f64_of_nat n =
     (if n = 0 then 0
      else
        let k = bit_length n - 1 in
        if k \<le> 52 then of_nat ((k + 1023) * 2 ^ 52 + (n * 2 ^ (52 - k) - 2 ^ 52))
        else
          let s = k - 52; q = n div 2 ^ s; r = n mod 2 ^ s; half = 2 ^ (s - 1);
              q = (if r > half \<or> r = half \<and> odd q then q + 1 else q) in
          of_nat ((k + 1023) * 2 ^ 52 + (q - 2 ^ 52)))"

text \<open>The parser keeps a negative integer as an \<open>i64\<close>; the sign bit of a double is its top bit.\<close>

definition f64_of_i64 :: "u64 \<Rightarrow> f64" where
  "f64_of_i64 n = (if sint n < 0 then 2 ^ 63 + f64_of_nat (nat (- sint n)) else f64_of_nat (unat n))"

definition dec_f64 :: "json \<Rightarrow> f64 option" where
  "dec_f64 j = (case body j of
     JNum (PosInt n) \<Rightarrow> Some (f64_of_nat (unat n))
   | JNum (NegInt n) \<Rightarrow> Some (f64_of_i64 n)
   | JNum (Float b) \<Rightarrow> Some b
   | _ \<Rightarrow> None)"

definition f64_exponent :: "f64 \<Rightarrow> nat" where
  "f64_exponent b = unat b div 2 ^ 52 mod 2 ^ 11"

definition f64_is_finite :: "f64 \<Rightarrow> bool" where
  "f64_is_finite b \<longleftrightarrow> f64_exponent b \<noteq> 2047"

definition f64_is_nan :: "f64 \<Rightarrow> bool" where
  "f64_is_nan b \<longleftrightarrow> f64_exponent b = 2047 \<and> unat b mod 2 ^ 52 \<noteq> 0"

text \<open>Doubles that are not NaN are ordered by magnitude and sign.\<close>

definition f64_rank :: "f64 \<Rightarrow> int" where
  "f64_rank b = (if 2 ^ 63 \<le> unat b then - int (unat b - 2 ^ 63) else int (unat b))"

definition f64_le :: "f64 \<Rightarrow> f64 \<Rightarrow> bool" where
  "f64_le a b \<longleftrightarrow> \<not> f64_is_nan a \<and> \<not> f64_is_nan b \<and> f64_rank a \<le> f64_rank b"

definition dec_usize :: "json \<Rightarrow> u64 option" where
  "dec_usize = dec_u64"

section \<open>Closed visitors\<close>

text \<open>
  The loop of a hand-written visitor: while there is a next key, which must be one of the fields,
  its value is decoded (\<open>accepts\<close> says that the field's decoder succeeds) and put in the field's slot,
  which must be empty. The slots keep the values; decoding them again yields what was stored.
\<close>

definition accepts :: "(json \<Rightarrow> 'a option) \<Rightarrow> json \<Rightarrow> bool" where
  "accepts d v \<longleftrightarrow> d v \<noteq> None"

fun visit_entries ::
    "(string \<times> (json \<Rightarrow> bool)) list \<Rightarrow> (string \<times> json) list \<Rightarrow> (string \<Rightarrow> json option)
      \<Rightarrow> (string \<Rightarrow> json option) option" where
  "visit_entries spec [] m = Some m"
| "visit_entries spec ((k, v) # kvs) m = (case map_of spec k of
     None \<Rightarrow> None
   | Some ok \<Rightarrow> if \<not> ok v then None else if m k \<noteq> None then None else visit_entries spec kvs (m(k \<mapsto> v)))"

definition visit_map :: "(string \<times> (json \<Rightarrow> bool)) list \<Rightarrow> json \<Rightarrow> (string \<Rightarrow> json option) option" where
  "visit_map spec j = (case body j of
     JObj kvs \<Rightarrow> visit_entries spec kvs (\<lambda>_. None)
   | _ \<Rightarrow> None)"

text \<open>Whether one of the fields is there.\<close>

definition any_field :: "(string \<Rightarrow> json option) \<Rightarrow> string list \<Rightarrow> bool" where
  "any_field m fs \<longleftrightarrow> list_ex (\<lambda>f. m f \<noteq> None) fs"

text \<open>The value of a slot that may be empty.\<close>

definition field_slot :: "(string \<Rightarrow> json option) \<Rightarrow> string \<Rightarrow> (json \<Rightarrow> 'a option) \<Rightarrow> 'a option option" where
  "field_slot m f d = (case m f of None \<Rightarrow> Some None | Some v \<Rightarrow> map_option Some (d v))"

lemma slot_free:
  "(\<forall>k' v'. (k', v') \<in> set kvs \<longrightarrow> (m(k \<mapsto> v)) k' = None \<and> Q k' v') \<longleftrightarrow>
     k \<notin> fst ` set kvs \<and> (\<forall>k' v'. (k', v') \<in> set kvs \<longrightarrow> m k' = None \<and> Q k' v')"
  by (auto simp: image_iff)

lemma slot_filled: "k \<notin> fst ` set kvs \<Longrightarrow> m(k \<mapsto> v) ++ map_of kvs = m ++ map_of ((k, v) # kvs)"
  by (rule ext) (auto simp: map_add_def map_of_eq_None_iff [symmetric] split: option.split)

lemma visit_entries_iff:
  "visit_entries spec kvs m = Some m' \<longleftrightarrow>
     distinct (map fst kvs) \<and> (\<forall>k v. (k, v) \<in> set kvs \<longrightarrow> m k = None \<and> (\<exists>ok. map_of spec k = Some ok \<and> ok v)) \<and>
     m' = m ++ map_of kvs"
proof (induction kvs arbitrary: m)
  case (Cons kv kvs)
  obtain k v where kv: "kv = (k, v)" by (cases kv)
  show ?case
  proof (cases "map_of spec k")
    case None
    then have "\<forall>ok. map_of spec k \<noteq> Some ok" by simp
    with None show ?thesis unfolding kv visit_entries.simps by (auto simp del: map_of_eq_Some_iff)
  next
    case (Some ok)
    show ?thesis
    proof (cases "ok v \<and> m k = None")
      case True
      then have step: "visit_entries spec (kv # kvs) m = visit_entries spec kvs (m(k \<mapsto> v))"
        using Some by (simp add: kv del: map_of_eq_Some_iff)
      show ?thesis
        unfolding step Cons.IH slot_free using Some True slot_filled [of k kvs m v]
        by (auto simp: kv simp del: map_of_eq_Some_iff map_of.simps)
    next
      case False
      then show ?thesis using Some by (auto simp: kv simp del: map_of_eq_Some_iff)
    qed
  qed
qed auto

lemma visit_map_iff:
  "visit_map spec j = Some m \<longleftrightarrow> (\<exists>kvs. body j = JObj kvs \<and> distinct (map fst kvs) \<and> m = map_of kvs \<and>
     (\<forall>k v. (k, v) \<in> set kvs \<longrightarrow> (\<exists>ok. map_of spec k = Some ok \<and> ok v)))"
  by (auto simp: visit_map_def visit_entries_iff split: jbody.splits)

section \<open>Shapes and colours\<close>

record rect =
  rc_x :: f64
  rc_y :: f64
  rc_width :: f64
  rc_height :: f64

definition dec_rect :: "json \<Rightarrow> rect option" where
  "dec_rect j =
     do { m \<leftarrow> struct_fields
            [(''x'', False), (''y'', False), (''width'', False), (''height'', False)] j;
          x \<leftarrow> field_req m ''x'' dec_f64;
          y \<leftarrow> field_req m ''y'' dec_f64;
          width \<leftarrow> field_req m ''width'' dec_f64;
          height \<leftarrow> field_req m ''height'' dec_f64;
          Some \<lparr>rc_x = x, rc_y = y, rc_width = width, rc_height = height\<rparr> }"

record color =
  co_r :: f64
  co_g :: f64
  co_b :: f64
  co_a :: f64

definition dec_color :: "json \<Rightarrow> color option" where
  "dec_color j =
     do { m \<leftarrow> struct_fields
            [(''r'', False), (''g'', False), (''b'', False), (''a'', False)] j;
          r \<leftarrow> field_req m ''r'' dec_f64;
          g \<leftarrow> field_req m ''g'' dec_f64;
          b \<leftarrow> field_req m ''b'' dec_f64;
          a \<leftarrow> field_req m ''a'' dec_f64;
          Some \<lparr>co_r = r, co_g = g, co_b = b, co_a = a\<rparr> }"

record gradient_stop =
  gs_position :: f64
  gs_color :: color

definition dec_gradient_stop :: "json \<Rightarrow> gradient_stop option" where
  "dec_gradient_stop j =
     do { m \<leftarrow> struct_fields
            [(''position'', False), (''color'', False)] j;
          position \<leftarrow> field_req m ''position'' dec_f64;
          color \<leftarrow> field_req m ''color'' dec_color;
          Some \<lparr>gs_position = position, gs_color = color\<rparr> }"

record transform_2d =
  tr_m00 :: f64
  tr_m01 :: f64
  tr_m02 :: f64
  tr_m10 :: f64
  tr_m11 :: f64
  tr_m12 :: f64

definition dec_transform_2d :: "json \<Rightarrow> transform_2d option" where
  "dec_transform_2d j =
     do { m \<leftarrow> struct_fields
            [(''m00'', False), (''m01'', False), (''m02'', False), (''m10'', False),
             (''m11'', False), (''m12'', False)] j;
          m00 \<leftarrow> field_req m ''m00'' dec_f64;
          m01 \<leftarrow> field_req m ''m01'' dec_f64;
          m02 \<leftarrow> field_req m ''m02'' dec_f64;
          m10 \<leftarrow> field_req m ''m10'' dec_f64;
          m11 \<leftarrow> field_req m ''m11'' dec_f64;
          m12 \<leftarrow> field_req m ''m12'' dec_f64;
          Some \<lparr>tr_m00 = m00, tr_m01 = m01, tr_m02 = m02, tr_m10 = m10, tr_m11 = m11, tr_m12 = m12\<rparr> }"

record geometry_value =
  gv_bounds :: "rect option"
  gv_rotation :: f64
  gv_opacity :: f64
  gv_transform :: transform_2d

definition dec_geometry_value :: "json \<Rightarrow> geometry_value option" where
  "dec_geometry_value j =
     do { m \<leftarrow> struct_fields
            [(''bounds'', True), (''rotation'', False), (''opacity'', False), (''transform'', False)] j;
          bounds \<leftarrow> field_opt m ''bounds'' dec_rect;
          rotation \<leftarrow> field_req m ''rotation'' dec_f64;
          opacity \<leftarrow> field_req m ''opacity'' dec_f64;
          transform \<leftarrow> field_req m ''transform'' dec_transform_2d;
          Some \<lparr>gv_bounds = bounds, gv_rotation = rotation, gv_opacity = opacity,
                gv_transform = transform\<rparr> }"

datatype constraint_axis =
    ConstraintMin | ConstraintCenter | ConstraintMax | ConstraintStretch | ConstraintScale

definition dec_constraint_axis :: "json \<Rightarrow> constraint_axis option" where
  "dec_constraint_axis = dec_unit_enum
     [(''min'', ConstraintMin), (''center'', ConstraintCenter), (''max'', ConstraintMax),
      (''stretch'', ConstraintStretch), (''scale'', ConstraintScale)]"

record layout_constraints =
  lc_horizontal :: constraint_axis
  lc_vertical :: constraint_axis

definition dec_layout_constraints :: "json \<Rightarrow> layout_constraints option" where
  "dec_layout_constraints j =
     do { m \<leftarrow> struct_fields
            [(''horizontal'', False), (''vertical'', False)] j;
          horizontal \<leftarrow> field_req m ''horizontal'' dec_constraint_axis;
          vertical \<leftarrow> field_req m ''vertical'' dec_constraint_axis;
          Some \<lparr>lc_horizontal = horizontal, lc_vertical = vertical\<rparr> }"

section \<open>Paints\<close>

datatype image_scale_mode =
    ScaleFill | ScaleFit | ScaleCrop | ScaleTile

definition dec_image_scale_mode :: "json \<Rightarrow> image_scale_mode option" where
  "dec_image_scale_mode = dec_unit_enum
     [(''fill'', ScaleFill), (''fit'', ScaleFit), (''crop'', ScaleCrop), (''tile'', ScaleTile)]"

datatype paint_value =
    PaintSolid color f64
  | PaintLinearGradient "gradient_stop list" transform_2d f64
  | PaintRadialGradient "gradient_stop list" transform_2d f64
  | PaintAngularGradient "gradient_stop list" transform_2d f64
  | PaintDiamondGradient "gradient_stop list" transform_2d f64
  | PaintImage string image_scale_mode f64
  | PaintMixed
  | PaintUnsupported string

datatype paint_tag =
    TagSolid | TagLinearGradient | TagRadialGradient | TagAngularGradient | TagDiamondGradient
  | TagImage | TagMixed | TagUnsupportedPaint

definition dec_paint_tag :: "json \<Rightarrow> paint_tag option" where
  "dec_paint_tag = dec_unit_enum
     [(''solid'', TagSolid), (''linearGradient'', TagLinearGradient),
      (''radialGradient'', TagRadialGradient), (''angularGradient'', TagAngularGradient),
      (''diamondGradient'', TagDiamondGradient), (''image'', TagImage), (''mixed'', TagMixed),
      (''unsupported'', TagUnsupportedPaint)]"

definition PAINT_FIELDS :: "(string \<times> (json \<Rightarrow> bool)) list" where
  "PAINT_FIELDS =
     [(''type'', accepts dec_paint_tag), (''color'', accepts dec_color),
      (''opacity'', accepts dec_f64), (''stops'', accepts (dec_returned_list dec_gradient_stop)),
      (''gradientTransform'', accepts dec_transform_2d), (''imageRef'', accepts dec_str),
      (''scaleMode'', accepts dec_image_scale_mode), (''figmaType'', accepts dec_str)]"

definition gradient_paint ::
    "paint_tag \<Rightarrow> gradient_stop list \<Rightarrow> transform_2d \<Rightarrow> f64 \<Rightarrow> paint_value option" where
  "gradient_paint tag stops transform opacity = (case tag of
     TagLinearGradient \<Rightarrow> Some (PaintLinearGradient stops transform opacity)
   | TagRadialGradient \<Rightarrow> Some (PaintRadialGradient stops transform opacity)
   | TagAngularGradient \<Rightarrow> Some (PaintAngularGradient stops transform opacity)
   | TagDiamondGradient \<Rightarrow> Some (PaintDiamondGradient stops transform opacity)
   | _ \<Rightarrow> None)"

definition paint_variant :: "(string \<Rightarrow> json option) \<Rightarrow> paint_tag \<Rightarrow> paint_value option" where
  "paint_variant m tag =
     (if tag = TagSolid then
        if any_field m [''stops'', ''gradientTransform'', ''imageRef'', ''scaleMode'', ''figmaType''] then None
        else do { color \<leftarrow> field_req m ''color'' dec_color;
                  opacity \<leftarrow> field_req m ''opacity'' dec_f64;
                  Some (PaintSolid color opacity) }
      else if tag \<in> {TagLinearGradient, TagRadialGradient, TagAngularGradient, TagDiamondGradient} then
        if any_field m [''color'', ''imageRef'', ''scaleMode'', ''figmaType''] then None
        else do { stops \<leftarrow> field_req m ''stops'' (dec_returned_list dec_gradient_stop);
                  transform \<leftarrow> field_req m ''gradientTransform'' dec_transform_2d;
                  opacity \<leftarrow> field_req m ''opacity'' dec_f64;
                  gradient_paint tag stops transform opacity }
      else if tag = TagImage then
        if any_field m [''color'', ''stops'', ''gradientTransform'', ''figmaType''] then None
        else do { image_ref \<leftarrow> field_req m ''imageRef'' dec_str;
                  scale_mode \<leftarrow> field_req m ''scaleMode'' dec_image_scale_mode;
                  opacity \<leftarrow> field_req m ''opacity'' dec_f64;
                  Some (PaintImage image_ref scale_mode opacity) }
      else if tag = TagMixed then
        if any_field m [''color'', ''opacity'', ''stops'', ''gradientTransform'', ''imageRef'',
                        ''scaleMode'', ''figmaType''] then None
        else Some PaintMixed
      else
        if any_field m [''color'', ''opacity'', ''stops'', ''gradientTransform'', ''imageRef'',
                        ''scaleMode''] then None
        else map_option PaintUnsupported (field_req m ''figmaType'' dec_str))"

definition dec_paint_value :: "json \<Rightarrow> paint_value option" where
  "dec_paint_value j =
     do { m \<leftarrow> visit_map PAINT_FIELDS j;
          tag \<leftarrow> field_req m ''type'' dec_paint_tag;
          paint_variant m tag }"

section \<open>Effects\<close>

datatype blend_mode =
    BlendPassThrough | BlendNormal | BlendDarken | BlendMultiply | BlendLinearBurn
  | BlendColorBurn | BlendLighten | BlendScreen | BlendLinearDodge | BlendColorDodge
  | BlendOverlay | BlendSoftLight | BlendHardLight | BlendDifference | BlendExclusion | BlendHue
  | BlendSaturation | BlendColor | BlendLuminosity

definition dec_blend_mode :: "json \<Rightarrow> blend_mode option" where
  "dec_blend_mode = dec_unit_enum
     [(''passThrough'', BlendPassThrough), (''normal'', BlendNormal), (''darken'', BlendDarken),
      (''multiply'', BlendMultiply), (''linearBurn'', BlendLinearBurn),
      (''colorBurn'', BlendColorBurn), (''lighten'', BlendLighten), (''screen'', BlendScreen),
      (''linearDodge'', BlendLinearDodge), (''colorDodge'', BlendColorDodge),
      (''overlay'', BlendOverlay), (''softLight'', BlendSoftLight), (''hardLight'', BlendHardLight),
      (''difference'', BlendDifference), (''exclusion'', BlendExclusion), (''hue'', BlendHue),
      (''saturation'', BlendSaturation), (''color'', BlendColor), (''luminosity'', BlendLuminosity)]"

datatype effect_value =
    DropShadow color f64 f64 f64 f64
  | InnerShadow color f64 f64 f64 f64
  | LayerBlur f64
  | BackgroundBlur f64
  | UnsupportedEffect string

datatype effect_tag =
    TagDropShadow | TagInnerShadow | TagLayerBlur | TagBackgroundBlur | TagUnsupportedEffect

definition dec_effect_tag :: "json \<Rightarrow> effect_tag option" where
  "dec_effect_tag = dec_unit_enum
     [(''dropShadow'', TagDropShadow), (''innerShadow'', TagInnerShadow),
      (''layerBlur'', TagLayerBlur), (''backgroundBlur'', TagBackgroundBlur),
      (''unsupported'', TagUnsupportedEffect)]"

definition EFFECT_FIELDS :: "(string \<times> (json \<Rightarrow> bool)) list" where
  "EFFECT_FIELDS =
     [(''type'', accepts dec_effect_tag), (''color'', accepts dec_color),
      (''offsetX'', accepts dec_f64), (''offsetY'', accepts dec_f64), (''radius'', accepts dec_f64),
      (''spread'', accepts dec_f64), (''figmaType'', accepts dec_str)]"

definition reject_fields_the_variant_does_not_carry :: "(string \<Rightarrow> json option) \<Rightarrow> unit option" where
  "reject_fields_the_variant_does_not_carry m =
     (if any_field m [''color'', ''offsetX'', ''offsetY'', ''spread'', ''figmaType''] then None else Some ())"

definition effect_variant :: "(string \<Rightarrow> json option) \<Rightarrow> effect_tag \<Rightarrow> effect_value option" where
  "effect_variant m tag =
     (if tag \<in> {TagDropShadow, TagInnerShadow} then
        if any_field m [''figmaType''] then None
        else do { color \<leftarrow> field_req m ''color'' dec_color;
                  offset_x \<leftarrow> field_req m ''offsetX'' dec_f64;
                  offset_y \<leftarrow> field_req m ''offsetY'' dec_f64;
                  radius \<leftarrow> field_req m ''radius'' dec_f64;
                  spread \<leftarrow> field_req m ''spread'' dec_f64;
                  Some (if tag = TagDropShadow then DropShadow color offset_x offset_y radius spread
                        else InnerShadow color offset_x offset_y radius spread) }
      else if tag \<in> {TagLayerBlur, TagBackgroundBlur} then
        do { _ \<leftarrow> reject_fields_the_variant_does_not_carry m;
             radius \<leftarrow> field_req m ''radius'' dec_f64;
             Some (if tag = TagLayerBlur then LayerBlur radius else BackgroundBlur radius) }
      else
        if any_field m [''color'', ''offsetX'', ''offsetY'', ''radius'', ''spread''] then None
        else map_option UnsupportedEffect (field_req m ''figmaType'' dec_str))"

definition dec_effect_value :: "json \<Rightarrow> effect_value option" where
  "dec_effect_value j =
     do { m \<leftarrow> visit_map EFFECT_FIELDS j;
          tag \<leftarrow> field_req m ''type'' dec_effect_tag;
          effect_variant m tag }"

section \<open>Strokes and corners\<close>

datatype stroke_align =
    StrokeInside | StrokeOutside | StrokeCenter

definition dec_stroke_align :: "json \<Rightarrow> stroke_align option" where
  "dec_stroke_align = dec_unit_enum
     [(''inside'', StrokeInside), (''outside'', StrokeOutside), (''center'', StrokeCenter)]"

record stroke_value =
  sk_paints :: "paint_value list"
  sk_weight :: "f64 option"
  sk_align :: "stroke_align option"
  sk_dash_pattern :: "f64 list option"

definition dec_stroke_value :: "json \<Rightarrow> stroke_value option" where
  "dec_stroke_value j =
     do { m \<leftarrow> struct_fields
            [(''paints'', False), (''weight'', True), (''align'', True), (''dashPattern'', True)] j;
          paints \<leftarrow> field_req m ''paints'' (dec_returned_list dec_paint_value);
          weight \<leftarrow> field_opt m ''weight'' dec_f64;
          align \<leftarrow> field_opt m ''align'' dec_stroke_align;
          dash_pattern \<leftarrow> field_opt m ''dashPattern'' (dec_returned_list dec_f64);
          Some \<lparr>sk_paints = paints, sk_weight = weight, sk_align = align,
                sk_dash_pattern = dash_pattern\<rparr> }"

datatype corner_radius_value = CornerUniform f64 | CornerPerCorner f64 f64 f64 f64

datatype corner_radius_tag =
    TagUniform | TagPerCorner

definition dec_corner_radius_tag :: "json \<Rightarrow> corner_radius_tag option" where
  "dec_corner_radius_tag = dec_unit_enum
     [(''uniform'', TagUniform), (''perCorner'', TagPerCorner)]"

definition CORNER_RADIUS_FIELDS :: "(string \<times> (json \<Rightarrow> bool)) list" where
  "CORNER_RADIUS_FIELDS =
     [(''kind'', accepts dec_corner_radius_tag), (''radius'', accepts dec_f64),
      (''topLeft'', accepts dec_f64), (''topRight'', accepts dec_f64),
      (''bottomRight'', accepts dec_f64), (''bottomLeft'', accepts dec_f64)]"

fun corner_radius_variant ::
    "(string \<Rightarrow> json option) \<Rightarrow> corner_radius_tag \<Rightarrow> corner_radius_value option" where
  "corner_radius_variant m TagUniform =
     (if any_field m [''topLeft'', ''topRight'', ''bottomRight'', ''bottomLeft''] then None
      else map_option CornerUniform (field_req m ''radius'' dec_f64))"
| "corner_radius_variant m TagPerCorner =
     (if any_field m [''radius''] then None
      else do { top_left \<leftarrow> field_req m ''topLeft'' dec_f64;
                top_right \<leftarrow> field_req m ''topRight'' dec_f64;
                bottom_right \<leftarrow> field_req m ''bottomRight'' dec_f64;
                bottom_left \<leftarrow> field_req m ''bottomLeft'' dec_f64;
                Some (CornerPerCorner top_left top_right bottom_right bottom_left) })"

definition dec_corner_radius_value :: "json \<Rightarrow> corner_radius_value option" where
  "dec_corner_radius_value j =
     do { m \<leftarrow> visit_map CORNER_RADIUS_FIELDS j;
          tag \<leftarrow> field_req m ''kind'' dec_corner_radius_tag;
          corner_radius_variant m tag }"

section \<open>Layout\<close>

datatype layout_mode =
    ModeNone | ModeHorizontal | ModeVertical | ModeGrid

definition dec_layout_mode :: "json \<Rightarrow> layout_mode option" where
  "dec_layout_mode = dec_unit_enum
     [(''none'', ModeNone), (''horizontal'', ModeHorizontal), (''vertical'', ModeVertical),
      (''grid'', ModeGrid)]"

datatype layout_sizing =
    SizingFixed | SizingHug | SizingFill

definition dec_layout_sizing :: "json \<Rightarrow> layout_sizing option" where
  "dec_layout_sizing = dec_unit_enum
     [(''fixed'', SizingFixed), (''hug'', SizingHug), (''fill'', SizingFill)]"

datatype axis_align =
    AlignMin | AlignCenter | AlignMax | AlignSpaceBetween | AlignBaseline

definition dec_axis_align :: "json \<Rightarrow> axis_align option" where
  "dec_axis_align = dec_unit_enum
     [(''min'', AlignMin), (''center'', AlignCenter), (''max'', AlignMax),
      (''spaceBetween'', AlignSpaceBetween), (''baseline'', AlignBaseline)]"

record layout_value =
  lv_mode :: layout_mode
  lv_primary_sizing :: layout_sizing
  lv_counter_sizing :: layout_sizing
  lv_gap :: f64
  lv_padding_top :: f64
  lv_padding_right :: f64
  lv_padding_bottom :: f64
  lv_padding_left :: f64
  lv_primary_align :: "axis_align option"
  lv_counter_align :: "axis_align option"
  lv_wrap :: "bool option"
  lv_counter_axis_spacing :: "f64 option"

definition dec_layout_value :: "json \<Rightarrow> layout_value option" where
  "dec_layout_value j =
     do { m \<leftarrow> struct_fields
            [(''mode'', False), (''primarySizing'', False), (''counterSizing'', False),
             (''gap'', False), (''paddingTop'', False), (''paddingRight'', False),
             (''paddingBottom'', False), (''paddingLeft'', False), (''primaryAlign'', True),
             (''counterAlign'', True), (''wrap'', True), (''counterAxisSpacing'', True)] j;
          mode \<leftarrow> field_req m ''mode'' dec_layout_mode;
          primary_sizing \<leftarrow> field_req m ''primarySizing'' dec_layout_sizing;
          counter_sizing \<leftarrow> field_req m ''counterSizing'' dec_layout_sizing;
          gap \<leftarrow> field_req m ''gap'' dec_f64;
          padding_top \<leftarrow> field_req m ''paddingTop'' dec_f64;
          padding_right \<leftarrow> field_req m ''paddingRight'' dec_f64;
          padding_bottom \<leftarrow> field_req m ''paddingBottom'' dec_f64;
          padding_left \<leftarrow> field_req m ''paddingLeft'' dec_f64;
          primary_align \<leftarrow> field_opt m ''primaryAlign'' dec_axis_align;
          counter_align \<leftarrow> field_opt m ''counterAlign'' dec_axis_align;
          wrapped \<leftarrow> field_opt m ''wrap'' dec_bool;
          counter_axis_spacing \<leftarrow> field_opt m ''counterAxisSpacing'' dec_f64;
          Some \<lparr>lv_mode = mode, lv_primary_sizing = primary_sizing,
                lv_counter_sizing = counter_sizing, lv_gap = gap, lv_padding_top = padding_top,
                lv_padding_right = padding_right, lv_padding_bottom = padding_bottom,
                lv_padding_left = padding_left, lv_primary_align = primary_align,
                lv_counter_align = counter_align, lv_wrap = wrapped,
                lv_counter_axis_spacing = counter_axis_spacing\<rparr> }"

section \<open>Text\<close>

text \<open>
  A derived enum with a tag and a content: both fields may stand in any order, or the tag first in
  the positional form. A unit variant takes no content, or \<open>null\<close>.
\<close>

definition adjacent ::
    "string \<Rightarrow> string \<Rightarrow> (json \<Rightarrow> 't option) \<Rightarrow> ('t \<Rightarrow> json option \<Rightarrow> 'a option) \<Rightarrow> json \<Rightarrow> 'a option" where
  "adjacent tag_field content_field dt variant j = (case body j of
     JObj kvs \<Rightarrow>
       do { m \<leftarrow> struct_fields [(tag_field, False), (content_field, True)] j;
            tag \<leftarrow> field_req m tag_field dt;
            variant tag (m content_field) }
   | JArr [t, v] \<Rightarrow> do { tag \<leftarrow> dt t; variant tag (Some v) }
   | _ \<Rightarrow> None)"

datatype length_unit = UnitPixels | UnitPercent | UnitAuto

datatype line_height_value = LineHeightPixels f64 | LineHeightPercent f64 | LineHeightAuto

fun line_height_variant :: "length_unit \<Rightarrow> json option \<Rightarrow> line_height_value option" where
  "line_height_variant UnitPixels v = map_option LineHeightPixels (Option.bind v dec_f64)"
| "line_height_variant UnitPercent v = map_option LineHeightPercent (Option.bind v dec_f64)"
| "line_height_variant UnitAuto None = Some LineHeightAuto"
| "line_height_variant UnitAuto (Some v) = map_option (\<lambda>_. LineHeightAuto) (dec_unit v)"

definition dec_line_height_value :: "json \<Rightarrow> line_height_value option" where
  "dec_line_height_value = adjacent ''unit'' ''value''
     (dec_unit_enum [(''pixels'', UnitPixels), (''percent'', UnitPercent), (''auto'', UnitAuto)])
     line_height_variant"

datatype letter_spacing_value = LetterSpacingPixels f64 | LetterSpacingPercent f64

fun letter_spacing_variant :: "length_unit \<Rightarrow> json option \<Rightarrow> letter_spacing_value option" where
  "letter_spacing_variant UnitPixels v = map_option LetterSpacingPixels (Option.bind v dec_f64)"
| "letter_spacing_variant UnitPercent v = map_option LetterSpacingPercent (Option.bind v dec_f64)"
| "letter_spacing_variant UnitAuto v = None"

definition dec_letter_spacing_value :: "json \<Rightarrow> letter_spacing_value option" where
  "dec_letter_spacing_value = adjacent ''unit'' ''value''
     (dec_unit_enum [(''pixels'', UnitPixels), (''percent'', UnitPercent)]) letter_spacing_variant"

datatype text_decoration =
    DecorationNone | DecorationUnderline | DecorationStrikethrough

definition dec_text_decoration :: "json \<Rightarrow> text_decoration option" where
  "dec_text_decoration = dec_unit_enum
     [(''none'', DecorationNone), (''underline'', DecorationUnderline),
      (''strikethrough'', DecorationStrikethrough)]"

datatype text_align_horizontal =
    TextLeft | TextCenter | TextRight | TextJustified

definition dec_text_align_horizontal :: "json \<Rightarrow> text_align_horizontal option" where
  "dec_text_align_horizontal = dec_unit_enum
     [(''left'', TextLeft), (''center'', TextCenter), (''right'', TextRight),
      (''justified'', TextJustified)]"

datatype text_align_vertical =
    TextTop | TextMiddle | TextBottom

definition dec_text_align_vertical :: "json \<Rightarrow> text_align_vertical option" where
  "dec_text_align_vertical = dec_unit_enum
     [(''top'', TextTop), (''center'', TextMiddle), (''bottom'', TextBottom)]"

datatype text_auto_resize =
    ResizeNone | ResizeWidthAndHeight | ResizeHeight | ResizeTruncate

definition dec_text_auto_resize :: "json \<Rightarrow> text_auto_resize option" where
  "dec_text_auto_resize = dec_unit_enum
     [(''none'', ResizeNone), (''widthAndHeight'', ResizeWidthAndHeight),
      (''height'', ResizeHeight), (''truncate'', ResizeTruncate)]"

record text_style =
  ts_font_family :: string
  ts_font_style :: string
  ts_font_size :: "f64 option"
  ts_line_height :: "line_height_value option"
  ts_letter_spacing :: "letter_spacing_value option"
  ts_font_weight :: "f64 option"
  ts_text_decoration :: "text_decoration option"
  ts_paints :: "paint_value list"

definition dec_text_style :: "json \<Rightarrow> text_style option" where
  "dec_text_style j =
     do { m \<leftarrow> struct_fields
            [(''fontFamily'', False), (''fontStyle'', False), (''fontSize'', True),
             (''lineHeight'', True), (''letterSpacing'', True), (''fontWeight'', True),
             (''textDecoration'', True), (''paints'', False)] j;
          font_family \<leftarrow> field_req m ''fontFamily'' dec_str;
          font_style \<leftarrow> field_req m ''fontStyle'' dec_str;
          font_size \<leftarrow> field_opt m ''fontSize'' dec_f64;
          line_height \<leftarrow> field_opt m ''lineHeight'' dec_line_height_value;
          letter_spacing \<leftarrow> field_opt m ''letterSpacing'' dec_letter_spacing_value;
          font_weight \<leftarrow> field_opt m ''fontWeight'' dec_f64;
          text_decoration \<leftarrow> field_opt m ''textDecoration'' dec_text_decoration;
          paints \<leftarrow> field_req m ''paints'' (dec_returned_list dec_paint_value);
          Some \<lparr>ts_font_family = font_family, ts_font_style = font_style, ts_font_size = font_size,
                ts_line_height = line_height, ts_letter_spacing = letter_spacing,
                ts_font_weight = font_weight, ts_text_decoration = text_decoration,
                ts_paints = paints\<rparr> }"

record styled_text_range =
  sr_start :: u64
  sr_end :: u64
  sr_style :: text_style

definition dec_styled_text_range :: "json \<Rightarrow> styled_text_range option" where
  "dec_styled_text_range j =
     do { m \<leftarrow> struct_fields
            [(''start'', False), (''end'', False), (''style'', False)] j;
          start \<leftarrow> field_req m ''start'' dec_usize;
          ending \<leftarrow> field_req m ''end'' dec_usize;
          style \<leftarrow> field_req m ''style'' dec_text_style;
          Some \<lparr>sr_start = start, sr_end = ending, sr_style = style\<rparr> }"

record text_value =
  tv_characters :: string
  tv_default_style :: text_style
  tv_styled_ranges :: "styled_text_range list"
  tv_align_horizontal :: "text_align_horizontal option"
  tv_align_vertical :: "text_align_vertical option"
  tv_auto_resize :: "text_auto_resize option"

definition dec_text_value :: "json \<Rightarrow> text_value option" where
  "dec_text_value j =
     do { m \<leftarrow> struct_fields
            [(''characters'', False), (''defaultStyle'', False), (''styledRanges'', False),
             (''alignHorizontal'', True), (''alignVertical'', True), (''autoResize'', True)] j;
          characters \<leftarrow> field_req m ''characters'' dec_str;
          default_style \<leftarrow> field_req m ''defaultStyle'' dec_text_style;
          styled_ranges \<leftarrow> field_req m ''styledRanges'' (dec_returned_list dec_styled_text_range);
          align_horizontal \<leftarrow> field_opt m ''alignHorizontal'' dec_text_align_horizontal;
          align_vertical \<leftarrow> field_opt m ''alignVertical'' dec_text_align_vertical;
          auto_resize \<leftarrow> field_opt m ''autoResize'' dec_text_auto_resize;
          Some \<lparr>tv_characters = characters, tv_default_style = default_style,
                tv_styled_ranges = styled_ranges, tv_align_horizontal = align_horizontal,
                tv_align_vertical = align_vertical, tv_auto_resize = auto_resize\<rparr> }"

record text_summary =
  tm_character_count :: u64
  tm_preview :: string

definition dec_text_summary :: "json \<Rightarrow> text_summary option" where
  "dec_text_summary j =
     do { m \<leftarrow> struct_fields
            [(''characterCount'', False), (''preview'', False)] j;
          character_count \<leftarrow> field_req m ''characterCount'' dec_usize;
          preview \<leftarrow> field_req m ''preview'' dec_str;
          Some \<lparr>tm_character_count = character_count, tm_preview = preview\<rparr> }"

section \<open>Component properties and variables\<close>

text \<open>
  The visitors of a kind with a raw value: the value is kept as text until the kind is known, which
  is \<^const>\<open>dec_tag_payload\<close>.
\<close>

datatype component_property_value =
    PropertyText string | PropertyBoolean bool | PropertyInstanceSwap string | PropertyVariant string

datatype component_property_tag =
    TagPropertyText | TagPropertyBoolean | TagPropertyInstanceSwap | TagPropertyVariant

definition dec_component_property_tag :: "json \<Rightarrow> component_property_tag option" where
  "dec_component_property_tag = dec_unit_enum
     [(''text'', TagPropertyText), (''boolean'', TagPropertyBoolean),
      (''instanceSwap'', TagPropertyInstanceSwap), (''variant'', TagPropertyVariant)]"

fun component_property_payload :: "component_property_tag \<Rightarrow> json \<Rightarrow> component_property_value option" where
  "component_property_payload TagPropertyText v = map_option PropertyText (dec_str v)"
| "component_property_payload TagPropertyBoolean v = map_option PropertyBoolean (dec_bool v)"
| "component_property_payload TagPropertyInstanceSwap v = map_option PropertyInstanceSwap (dec_str v)"
| "component_property_payload TagPropertyVariant v = map_option PropertyVariant (dec_str v)"

definition dec_component_property_value :: "json \<Rightarrow> component_property_value option" where
  "dec_component_property_value j = map_option snd
     (dec_tag_payload ''kind'' ''value'' dec_component_property_tag component_property_payload j)"

record named_component_property =
  np_name :: string
  np_value :: component_property_value

definition dec_named_component_property :: "json \<Rightarrow> named_component_property option" where
  "dec_named_component_property j =
     do { m \<leftarrow> struct_fields
            [(''name'', False), (''value'', False)] j;
          name \<leftarrow> field_req m ''name'' dec_str;
          v \<leftarrow> field_req m ''value'' dec_component_property_value;
          Some \<lparr>np_name = name, np_value = v\<rparr> }"

record component_value =
  cv_component_id :: string
  cv_component_set_id :: "string option"
  cv_properties :: "named_component_property list"

definition dec_component_value :: "json \<Rightarrow> component_value option" where
  "dec_component_value j =
     do { m \<leftarrow> struct_fields
            [(''componentId'', False), (''componentSetId'', False), (''properties'', False)] j;
          component_id \<leftarrow> field_req m ''componentId'' (bounded_deserialize NODE_ID);
          component_set_id \<leftarrow> field_opt m ''componentSetId'' (bounded_deserialize NODE_ID);
          props \<leftarrow> field_req m ''properties'' (dec_returned_list dec_named_component_property);
          Some \<lparr>cv_component_id = component_id, cv_component_set_id = component_set_id,
                cv_properties = props\<rparr> }"

datatype variable_value =
    VariableBoolean bool | VariableFloat f64 | VariableString string | VariableColor color
  | VariableAlias string

datatype variable_value_tag =
    TagVariableBoolean | TagVariableFloat | TagVariableString | TagVariableColor
  | TagVariableAlias

definition dec_variable_value_tag :: "json \<Rightarrow> variable_value_tag option" where
  "dec_variable_value_tag = dec_unit_enum
     [(''boolean'', TagVariableBoolean), (''float'', TagVariableFloat),
      (''string'', TagVariableString), (''color'', TagVariableColor), (''alias'', TagVariableAlias)]"

fun variable_payload :: "variable_value_tag \<Rightarrow> json \<Rightarrow> variable_value option" where
  "variable_payload TagVariableBoolean v = map_option VariableBoolean (dec_bool v)"
| "variable_payload TagVariableFloat v = map_option VariableFloat (dec_f64 v)"
| "variable_payload TagVariableString v = map_option VariableString (dec_str v)"
| "variable_payload TagVariableColor v = map_option VariableColor (dec_color v)"
| "variable_payload TagVariableAlias v = map_option VariableAlias (dec_str v)"

definition dec_variable_value :: "json \<Rightarrow> variable_value option" where
  "dec_variable_value j = map_option snd
     (dec_tag_payload ''kind'' ''value'' dec_variable_value_tag variable_payload j)"

section \<open>Styles\<close>

datatype style_kind =
    KindPaint | KindStroke | KindText | KindEffect | KindGrid

definition dec_style_kind :: "json \<Rightarrow> style_kind option" where
  "dec_style_kind = dec_unit_enum
     [(''paint'', KindPaint), (''stroke'', KindStroke), (''text'', KindText),
      (''effect'', KindEffect), (''grid'', KindGrid)]"

text \<open>The fields every style has, and those of its variant.\<close>

record style_head =
  sh_id :: string
  sh_name :: string
  sh_description :: "string option"
  sh_remote :: "bool option"
  sh_key :: "string option"

datatype style_value =
    StylePaint style_head "paint_value list"
  | StyleText style_head text_value
  | StyleEffect style_head "effect_value list"
  | StyleGrid style_head string f64

datatype style_value_tag =
    TagStylePaint | TagStyleText | TagStyleEffect | TagStyleGrid

definition dec_style_value_tag :: "json \<Rightarrow> style_value_tag option" where
  "dec_style_value_tag = dec_unit_enum
     [(''paint'', TagStylePaint), (''text'', TagStyleText), (''effect'', TagStyleEffect),
      (''grid'', TagStyleGrid)]"

definition STYLE_FIELDS :: "(string \<times> (json \<Rightarrow> bool)) list" where
  "STYLE_FIELDS =
     [(''styleType'', accepts dec_style_value_tag), (''id'', accepts dec_str),
      (''name'', accepts dec_str), (''description'', accepts dec_str),
      (''remote'', accepts dec_bool), (''key'', accepts dec_str),
      (''paints'', accepts (dec_returned_list dec_paint_value)), (''text'', accepts dec_text_value),
      (''effects'', accepts (dec_returned_list dec_effect_value)), (''pattern'', accepts dec_str),
      (''size'', accepts dec_f64)]"

fun style_variant :: "(string \<Rightarrow> json option) \<Rightarrow> style_head \<Rightarrow> style_value_tag \<Rightarrow> style_value option" where
  "style_variant m h TagStylePaint =
     (if any_field m [''text'', ''effects'', ''pattern'', ''size''] then None
      else map_option (StylePaint h) (field_req m ''paints'' (dec_returned_list dec_paint_value)))"
| "style_variant m h TagStyleText =
     (if any_field m [''paints'', ''effects'', ''pattern'', ''size''] then None
      else map_option (StyleText h) (field_req m ''text'' dec_text_value))"
| "style_variant m h TagStyleEffect =
     (if any_field m [''paints'', ''text'', ''pattern'', ''size''] then None
      else map_option (StyleEffect h) (field_req m ''effects'' (dec_returned_list dec_effect_value)))"
| "style_variant m h TagStyleGrid =
     (if any_field m [''paints'', ''text'', ''effects''] then None
      else do { pattern \<leftarrow> field_req m ''pattern'' dec_str;
                sz \<leftarrow> field_req m ''size'' dec_f64;
                Some (StyleGrid h pattern sz) })"

definition dec_style_value :: "json \<Rightarrow> style_value option" where
  "dec_style_value j =
     do { m \<leftarrow> visit_map STYLE_FIELDS j;
          i \<leftarrow> field_req m ''id'' dec_str;
          name \<leftarrow> field_req m ''name'' dec_str;
          description \<leftarrow> field_slot m ''description'' dec_str;
          remote \<leftarrow> field_slot m ''remote'' dec_bool;
          key \<leftarrow> field_slot m ''key'' dec_str;
          tag \<leftarrow> field_req m ''styleType'' dec_style_value_tag;
          style_variant m \<lparr>sh_id = i, sh_name = name, sh_description = description,
            sh_remote = remote, sh_key = key\<rparr> tag }"

record style_reference =
  sf_id :: string
  sf_kind :: style_kind
  sf_name :: "string option"

definition dec_style_reference :: "json \<Rightarrow> style_reference option" where
  "dec_style_reference j =
     do { m \<leftarrow> struct_fields
            [(''id'', False), (''kind'', False), (''name'', True)] j;
          i \<leftarrow> field_req m ''id'' dec_str;
          kind \<leftarrow> field_req m ''kind'' dec_style_kind;
          name \<leftarrow> field_opt m ''name'' dec_str;
          Some \<lparr>sf_id = i, sf_kind = kind, sf_name = name\<rparr> }"

record variable_reference =
  vr_id :: string
  vr_name :: "string option"

definition dec_variable_reference :: "json \<Rightarrow> variable_reference option" where
  "dec_variable_reference j =
     do { m \<leftarrow> struct_fields
            [(''id'', False), (''name'', True)] j;
          i \<leftarrow> field_req m ''id'' dec_str;
          name \<leftarrow> field_opt m ''name'' dec_str;
          Some \<lparr>vr_id = i, vr_name = name\<rparr> }"

section \<open>What the visitors accept\<close>

text \<open>The fields of a value as it must have stood on the wire, without and with the optional ones.\<close>

fun paint_fields :: "paint_value \<Rightarrow> string list" where
  "paint_fields (PaintSolid c opacity) = [''type'', ''color'', ''opacity'']"
| "paint_fields (PaintImage image_ref mode opacity) = [''type'', ''opacity'', ''imageRef'', ''scaleMode'']"
| "paint_fields PaintMixed = [''type'']"
| "paint_fields (PaintUnsupported t) = [''type'', ''figmaType'']"
| "paint_fields _ = [''type'', ''opacity'', ''stops'', ''gradientTransform'']"

fun effect_fields :: "effect_value \<Rightarrow> string list" where
  "effect_fields (LayerBlur radius) = [''type'', ''radius'']"
| "effect_fields (BackgroundBlur radius) = [''type'', ''radius'']"
| "effect_fields (UnsupportedEffect t) = [''type'', ''figmaType'']"
| "effect_fields _ = [''type'', ''color'', ''offsetX'', ''offsetY'', ''radius'', ''spread'']"

fun corner_fields :: "corner_radius_value \<Rightarrow> string list" where
  "corner_fields (CornerUniform radius) = [''kind'', ''radius'']"
| "corner_fields (CornerPerCorner a b c d) =
     [''kind'', ''topLeft'', ''topRight'', ''bottomRight'', ''bottomLeft'']"

fun style_head_of :: "style_value \<Rightarrow> style_head" where
  "style_head_of (StylePaint h paints) = h"
| "style_head_of (StyleText h text_style) = h"
| "style_head_of (StyleEffect h effects) = h"
| "style_head_of (StyleGrid h pattern sz) = h"

fun style_own_fields :: "style_value \<Rightarrow> string list" where
  "style_own_fields (StylePaint h paints) = [''paints'']"
| "style_own_fields (StyleText h text_style) = [''text'']"
| "style_own_fields (StyleEffect h effects) = [''effects'']"
| "style_own_fields (StyleGrid h pattern sz) = [''pattern'', ''size'']"

definition style_fields :: "style_value \<Rightarrow> string list" where
  "style_fields s =
     [''styleType'', ''id'', ''name''] @
     (if sh_description (style_head_of s) = None then [] else [''description'']) @
     (if sh_remote (style_head_of s) = None then [] else [''remote'']) @
     (if sh_key (style_head_of s) = None then [] else [''key'']) @ style_own_fields s"

definition has_fields :: "json \<Rightarrow> string list \<Rightarrow> bool" where
  "has_fields j fs \<longleftrightarrow> (\<exists>kvs. body j = JObj kvs \<and> distinct (map fst kvs) \<and> set (map fst kvs) = set fs)"

lemma visit_map_present:
  assumes "visit_map spec j = Some m"
  shows "has_fields j (filter (\<lambda>k. m k \<noteq> None) (map fst spec))"
proof -
  obtain kvs where kvs: "body j = JObj kvs" "distinct (map fst kvs)" "m = map_of kvs"
    and ok: "\<forall>k v. (k, v) \<in> set kvs \<longrightarrow> (\<exists>a. map_of spec k = Some a \<and> a v)"
    using assms unfolding visit_map_iff by blast
  have "k \<in> fst ` set spec" if "(k, v) \<in> set kvs" for k v
  proof -
    from ok that have "\<exists>a. map_of spec k = Some a \<and> a v" by blast
    then have "map_of spec k \<noteq> None" by (metis option.distinct(1))
    then show ?thesis by (metis map_of_eq_None_iff)
  qed
  moreover have "m k \<noteq> None \<longleftrightarrow> k \<in> fst ` set kvs" for k
    unfolding kvs(3) by (simp add: map_of_eq_None_iff)
  ultimately have "set (map fst kvs) = set (filter (\<lambda>k. m k \<noteq> None) (map fst spec))" by force
  then show ?thesis using kvs unfolding has_fields_def by blast
qed

lemmas visitor_simps = any_field_def field_req_def field_slot_def bind_eq_Some_conv

lemma field_slot_present: "field_slot m f d = Some s \<Longrightarrow> m f \<noteq> None \<longleftrightarrow> s \<noteq> None"
  by (cases "m f") (auto simp: field_slot_def)

lemma field_req_present: "field_req m f d = Some a \<Longrightarrow> m f \<noteq> None"
  by (cases "m f") (auto simp: field_req_def)

lemma paint_closed: "dec_paint_value j = Some p \<Longrightarrow> has_fields j (paint_fields p)"
proof -
  assume "dec_paint_value j = Some p"
  then obtain m tag where m: "visit_map PAINT_FIELDS j = Some m" "field_req m ''type'' dec_paint_tag = Some tag"
    "paint_variant m tag = Some p" by (auto simp: dec_paint_value_def bind_eq_Some_conv)
  show "has_fields j (paint_fields p)"
    using visit_map_present [OF m(1)] m(2,3)
    by (cases tag) (auto simp: paint_variant_def gradient_paint_def visitor_simps PAINT_FIELDS_def split: if_splits)
qed

lemma effect_closed: "dec_effect_value j = Some e \<Longrightarrow> has_fields j (effect_fields e)"
proof -
  assume "dec_effect_value j = Some e"
  then obtain m tag where m: "visit_map EFFECT_FIELDS j = Some m" "field_req m ''type'' dec_effect_tag = Some tag"
    "effect_variant m tag = Some e" by (auto simp: dec_effect_value_def bind_eq_Some_conv)
  show "has_fields j (effect_fields e)"
    using visit_map_present [OF m(1)] m(2,3)
    by (cases tag) (auto simp: effect_variant_def reject_fields_the_variant_does_not_carry_def visitor_simps
        EFFECT_FIELDS_def split: if_splits)
qed

lemma corner_closed: "dec_corner_radius_value j = Some c \<Longrightarrow> has_fields j (corner_fields c)"
proof -
  assume "dec_corner_radius_value j = Some c"
  then obtain m tag where m: "visit_map CORNER_RADIUS_FIELDS j = Some m"
    "field_req m ''kind'' dec_corner_radius_tag = Some tag" "corner_radius_variant m tag = Some c"
    by (auto simp: dec_corner_radius_value_def bind_eq_Some_conv)
  show "has_fields j (corner_fields c)"
    using visit_map_present [OF m(1)] m(2,3)
    by (cases tag) (auto simp: visitor_simps CORNER_RADIUS_FIELDS_def split: if_splits)
qed

lemma style_closed: "dec_style_value j = Some s \<Longrightarrow> has_fields j (style_fields s)"
proof -
  assume "dec_style_value j = Some s"
  then obtain m i n d r k tag where plain: "visit_map STYLE_FIELDS j = Some m"
    "field_req m ''id'' dec_str = Some i" "field_req m ''name'' dec_str = Some n"
    "field_slot m ''description'' dec_str = Some d" "field_slot m ''remote'' dec_bool = Some r"
    "field_slot m ''key'' dec_str = Some k"
    "field_req m ''styleType'' dec_style_value_tag = Some tag"
    "style_variant m \<lparr>sh_id = i, sh_name = n, sh_description = d, sh_remote = r, sh_key = k\<rparr> tag = Some s"
    by (auto simp: dec_style_value_def bind_eq_Some_conv)
  define h where "h = \<lparr>sh_id = i, sh_name = n, sh_description = d, sh_remote = r, sh_key = k\<rparr>"
  have m: "visit_map STYLE_FIELDS j = Some m"
    "field_req m ''id'' dec_str = Some (sh_id h)" "field_req m ''name'' dec_str = Some (sh_name h)"
    "field_slot m ''description'' dec_str = Some (sh_description h)"
    "field_slot m ''remote'' dec_bool = Some (sh_remote h)"
    "field_slot m ''key'' dec_str = Some (sh_key h)"
    "field_req m ''styleType'' dec_style_value_tag = Some tag" "style_variant m h tag = Some s"
    using plain by (simp_all add: h_def)
  have head: "style_head_of s = h"
    using m(8) by (cases tag) (auto simp: visitor_simps split: if_splits)
  have own: "m ''paints'' \<noteq> None \<longleftrightarrow> ''paints'' \<in> set (style_own_fields s)"
    "m ''text'' \<noteq> None \<longleftrightarrow> ''text'' \<in> set (style_own_fields s)"
    "m ''effects'' \<noteq> None \<longleftrightarrow> ''effects'' \<in> set (style_own_fields s)"
    "m ''pattern'' \<noteq> None \<longleftrightarrow> ''pattern'' \<in> set (style_own_fields s)"
    "m ''size'' \<noteq> None \<longleftrightarrow> ''size'' \<in> set (style_own_fields s)"
    "set (style_own_fields s) \<subseteq> {''paints'', ''text'', ''effects'', ''pattern'', ''size''}"
    using m(8) by (cases tag; auto simp: visitor_simps split: if_splits)+
  have slots: "m ''id'' \<noteq> None" "m ''name'' \<noteq> None" "m ''styleType'' \<noteq> None"
    "m ''description'' \<noteq> None \<longleftrightarrow> sh_description h \<noteq> None" "m ''remote'' \<noteq> None \<longleftrightarrow> sh_remote h \<noteq> None"
    "m ''key'' \<noteq> None \<longleftrightarrow> sh_key h \<noteq> None"
    using m(2,3,7) field_slot_present [OF m(4)] field_slot_present [OF m(5)] field_slot_present [OF m(6)]
    by (simp_all add: field_req_present)
  have "filter (\<lambda>k. m k \<noteq> None) (map fst STYLE_FIELDS) = style_fields s"
    unfolding style_fields_def head STYLE_FIELDS_def list.map fst_conv filter.simps
    using slots own(1-5) by (cases s) simp_all
  then show ?thesis using visit_map_present [OF m(1)] by simp
qed

text \<open>
  C14. A paint, an effect, a corner radius or a style decodes only from an object that has exactly the
  fields of the variant it decodes to, each once: a field of another variant, a field that is missing
  or repeated, or one that nobody knows makes the whole value fail.
\<close>

theorem closed_values:
  "(dec_paint_value p = Some pv \<longrightarrow> has_fields p (paint_fields pv)) \<and>
   (dec_effect_value e = Some ev \<longrightarrow> has_fields e (effect_fields ev)) \<and>
   (dec_corner_radius_value c = Some cv \<longrightarrow> has_fields c (corner_fields cv)) \<and>
   (dec_style_value s = Some sv \<longrightarrow> has_fields s (style_fields sv))"
  using paint_closed effect_closed corner_closed style_closed by blast

definition sample_paint :: json where
  "sample_paint = js_obj [(''opacity'', Json 3 (JNum (Float 0))), (''type'', js_str ''image''),
     (''scaleMode'', js_str ''fit''), (''imageRef'', js_str ''a1'')]"

definition sample_style :: json where
  "sample_style = js_obj [(''styleType'', js_str ''grid''), (''id'', js_str ''S''), (''name'', js_str ''g''),
     (''size'', Json 3 (JNum (Float 0))), (''pattern'', js_str ''rows'')]"

lemmas visit_simps = visit_map_def accepts_def any_field_def field_slot_def field_req_def js_str_def js_obj_def
  dec_unit_enum_def dec_str_def dec_bool_def dec_f64_def

lemma sample_paint_decodes: "dec_paint_value sample_paint = Some (PaintImage ''a1'' ScaleFit 0)"
  by (simp add: dec_paint_value_def sample_paint_def PAINT_FIELDS_def dec_paint_tag_def paint_variant_def
      dec_image_scale_mode_def visit_simps)

lemma sample_style_decodes:
  "dec_style_value sample_style =
     Some (StyleGrid \<lparr>sh_id = ''S'', sh_name = ''g'', sh_description = None, sh_remote = None, sh_key = None\<rparr>
       ''rows'' 0)"
  by (simp add: dec_style_value_def sample_style_def STYLE_FIELDS_def dec_style_value_tag_def visit_simps)

theorem closed_values_witness:
  "has_fields sample_paint [''type'', ''opacity'', ''imageRef'', ''scaleMode''] \<and>
   has_fields sample_style [''styleType'', ''id'', ''name'', ''pattern'', ''size'']"
proof -
  note closed = closed_values [of sample_paint "PaintImage ''a1'' ScaleFit 0" js_null "LayerBlur 0" js_null "CornerUniform 0"
      sample_style "StyleGrid \<lparr>sh_id = ''S'', sh_name = ''g'', sh_description = None, sh_remote = None,
        sh_key = None\<rparr> ''rows'' 0", unfolded sample_paint_decodes sample_style_decodes]
  then show ?thesis by (simp add: style_fields_def)
qed

end
