(* ===== verification/Nodes.thy ===== *)
theory Nodes
  imports Values
begin

text \<open>
  Nodes of a design (the rest of \<open>crates/protocol/src/domain/common.rs\<close>): the details of a node at the
  three levels, the recursive tree with the decoder that spends one budget of nodes over all of it, the
  forests and batches that results carry, and the constructors that validate a finished tree.
\<close>

section \<open>Truncation and observation\<close>

datatype detail_level =
    DetailMinimal | DetailCompact | DetailFull

definition dec_detail_level :: "json \<Rightarrow> detail_level option" where
  "dec_detail_level = dec_unit_enum
     [(''minimal'', DetailMinimal), (''compact'', DetailCompact), (''full'', DetailFull)]"

datatype truncation_reason =
    DepthLimit | NodeLimit | ByteLimit

definition dec_truncation_reason :: "json \<Rightarrow> truncation_reason option" where
  "dec_truncation_reason = dec_unit_enum
     [(''depthLimit'', DepthLimit), (''nodeLimit'', NodeLimit), (''byteLimit'', ByteLimit)]"

record truncation =
  tn_reason :: truncation_reason
  tn_applied_depth :: "u8 option"
  tn_visited_nodes :: "u64 option"
  tn_encoded_bytes :: "u64 option"

definition dec_truncation :: "json \<Rightarrow> truncation option" where
  "dec_truncation j =
     do { m \<leftarrow> struct_fields
            [(''reason'', False), (''appliedDepth'', False), (''visitedNodes'', False),
             (''encodedBytes'', False)] j;
          reason \<leftarrow> field_req m ''reason'' dec_truncation_reason;
          applied_depth \<leftarrow> field_opt m ''appliedDepth'' dec_u8;
          visited_nodes \<leftarrow> field_opt m ''visitedNodes'' dec_usize;
          encoded_bytes \<leftarrow> field_opt m ''encodedBytes'' dec_usize;
          Some \<lparr>tn_reason = reason, tn_applied_depth = applied_depth,
                tn_visited_nodes = visited_nodes, tn_encoded_bytes = encoded_bytes\<rparr> }"

record observation_window =
  ow_started_at :: string
  ow_completed_at :: string

definition dec_observation_window :: "json \<Rightarrow> observation_window option" where
  "dec_observation_window j =
     do { m \<leftarrow> struct_fields
            [(''startedAt'', False), (''completedAt'', False)] j;
          started_at \<leftarrow> field_req m ''startedAt'' (bounded_deserialize DISPLAY_TEXT);
          completed_at \<leftarrow> field_req m ''completedAt'' (bounded_deserialize DISPLAY_TEXT);
          Some \<lparr>ow_started_at = started_at, ow_completed_at = completed_at\<rparr> }"

section \<open>The details of a node\<close>

record instance_value =
  iv_component_id :: string
  iv_component_set_id :: "string option"
  iv_properties :: "named_component_property list"

definition dec_instance_value :: "json \<Rightarrow> instance_value option" where
  "dec_instance_value j =
     do { m \<leftarrow> struct_fields
            [(''componentId'', False), (''componentSetId'', True), (''properties'', False)] j;
          component_id \<leftarrow> field_req m ''componentId'' (bounded_deserialize NODE_ID);
          component_set_id \<leftarrow> field_opt m ''componentSetId'' (bounded_deserialize NODE_ID);
          props \<leftarrow> field_req m ''properties'' (dec_returned_list dec_named_component_property);
          Some \<lparr>iv_component_id = component_id, iv_component_set_id = component_set_id,
                iv_properties = props\<rparr> }"

record node_summary =
  nm_id :: string
  nm_name :: string
  nm_node_type :: string
  nm_parent_id :: "string option"
  nm_child_ids :: "string list"
  nm_bounds :: "rect option"

definition dec_node_summary :: "json \<Rightarrow> node_summary option" where
  "dec_node_summary j =
     do { m \<leftarrow> struct_fields
            [(''id'', False), (''name'', False), (''nodeType'', False), (''parentId'', True),
             (''childIds'', True), (''bounds'', True)] j;
          i \<leftarrow> field_req m ''id'' (bounded_deserialize NODE_ID);
          name \<leftarrow> field_req m ''name'' (bounded_deserialize DISPLAY_TEXT);
          node_type \<leftarrow> field_req m ''nodeType'' (bounded_deserialize NODE_TYPE_NAME);
          parent_id \<leftarrow> field_opt m ''parentId'' (bounded_deserialize NODE_ID);
          child_ids \<leftarrow> field_default m ''childIds'' [] dec_node_id_list;
          bounds \<leftarrow> field_opt m ''bounds'' dec_rect;
          Some \<lparr>nm_id = i, nm_name = name, nm_node_type = node_type, nm_parent_id = parent_id,
                nm_child_ids = child_ids, nm_bounds = bounds\<rparr> }"

datatype minimal_node_details = MinimalNodeDetails

definition dec_minimal_node_details :: "json \<Rightarrow> minimal_node_details option" where
  "dec_minimal_node_details j = do { _ \<leftarrow> struct_fields [] j; Some MinimalNodeDetails }"

record compact_node_data =
  cd_geometry :: "geometry_value option"
  cd_constraints :: "layout_constraints option"
  cd_auto_layout :: "layout_value option"
  cd_text :: "text_summary option"
  cd_component :: "component_value option"
  cd_instance :: "instance_value option"
  cd_style_references :: "style_reference list"
  cd_variable_references :: "variable_reference list"

definition dec_compact_node_data :: "json \<Rightarrow> compact_node_data option" where
  "dec_compact_node_data j =
     do { m \<leftarrow> struct_fields
            [(''geometry'', True), (''constraints'', True), (''autoLayout'', True),
             (''text'', True), (''component'', True), (''instance'', True),
             (''styleReferences'', False), (''variableReferences'', False)] j;
          geometry \<leftarrow> field_opt m ''geometry'' dec_geometry_value;
          cons \<leftarrow> field_opt m ''constraints'' dec_layout_constraints;
          auto_layout \<leftarrow> field_opt m ''autoLayout'' dec_layout_value;
          txt \<leftarrow> field_opt m ''text'' dec_text_summary;
          comp \<leftarrow> field_opt m ''component'' dec_component_value;
          inst \<leftarrow> field_opt m ''instance'' dec_instance_value;
          style_references \<leftarrow> field_req m ''styleReferences'' (dec_returned_list dec_style_reference);
          variable_references \<leftarrow> field_req m ''variableReferences'' (dec_returned_list dec_variable_reference);
          Some \<lparr>cd_geometry = geometry, cd_constraints = cons, cd_auto_layout = auto_layout,
                cd_text = txt, cd_component = comp, cd_instance = inst,
                cd_style_references = style_references, cd_variable_references = variable_references\<rparr> }"

record full_node_data =
  fd_geometry :: "geometry_value option"
  fd_constraints :: "layout_constraints option"
  fd_auto_layout :: "layout_value option"
  fd_text :: "text_value option"
  fd_paints :: "paint_value list"
  fd_effects :: "effect_value list"
  fd_component :: "component_value option"
  fd_instance :: "instance_value option"
  fd_strokes :: "stroke_value option"
  fd_corner_radius :: "corner_radius_value option"
  fd_corner_smoothing :: "f64 option"
  fd_clips_content :: "bool option"
  fd_blend_mode :: "blend_mode option"
  fd_style_references :: "style_reference list"
  fd_variable_references :: "variable_reference list"

definition dec_full_node_data :: "json \<Rightarrow> full_node_data option" where
  "dec_full_node_data j =
     do { m \<leftarrow> struct_fields
            [(''geometry'', True), (''constraints'', True), (''autoLayout'', True),
             (''text'', True), (''paints'', False), (''effects'', False), (''component'', True),
             (''instance'', True), (''strokes'', True), (''cornerRadius'', True),
             (''cornerSmoothing'', True), (''clipsContent'', True), (''blendMode'', True),
             (''styleReferences'', False), (''variableReferences'', False)] j;
          geometry \<leftarrow> field_opt m ''geometry'' dec_geometry_value;
          cons \<leftarrow> field_opt m ''constraints'' dec_layout_constraints;
          auto_layout \<leftarrow> field_opt m ''autoLayout'' dec_layout_value;
          txt \<leftarrow> field_opt m ''text'' dec_text_value;
          paints \<leftarrow> field_req m ''paints'' (dec_returned_list dec_paint_value);
          effects \<leftarrow> field_req m ''effects'' (dec_returned_list dec_effect_value);
          comp \<leftarrow> field_opt m ''component'' dec_component_value;
          inst \<leftarrow> field_opt m ''instance'' dec_instance_value;
          strokes \<leftarrow> field_opt m ''strokes'' dec_stroke_value;
          corner_radius \<leftarrow> field_opt m ''cornerRadius'' dec_corner_radius_value;
          corner_smoothing \<leftarrow> field_opt m ''cornerSmoothing'' dec_f64;
          clips_content \<leftarrow> field_opt m ''clipsContent'' dec_bool;
          blend_mode \<leftarrow> field_opt m ''blendMode'' dec_blend_mode;
          style_references \<leftarrow> field_req m ''styleReferences'' (dec_returned_list dec_style_reference);
          variable_references \<leftarrow> field_req m ''variableReferences'' (dec_returned_list dec_variable_reference);
          Some \<lparr>fd_geometry = geometry, fd_constraints = cons, fd_auto_layout = auto_layout,
                fd_text = txt, fd_paints = paints, fd_effects = effects, fd_component = comp,
                fd_instance = inst, fd_strokes = strokes, fd_corner_radius = corner_radius,
                fd_corner_smoothing = corner_smoothing, fd_clips_content = clips_content,
                fd_blend_mode = blend_mode, fd_style_references = style_references,
                fd_variable_references = variable_references\<rparr> }"

section \<open>Items\<close>

text \<open>The result of one item of a batch, with the closed visitor it shares with the nodes.\<close>

datatype 'a item_result = ItemSuccess 'a | ItemFailure tool_error

datatype item_result_status = StatusSuccess | StatusError

definition dec_item_result_status :: "json \<Rightarrow> item_result_status option" where
  "dec_item_result_status = dec_unit_enum [(''success'', StatusSuccess), (''error'', StatusError)]"

fun item_of :: "item_result_status \<Rightarrow> 'a option \<Rightarrow> tool_error option \<Rightarrow> 'a item_result option" where
  "item_of StatusSuccess v None = map_option ItemSuccess v"
| "item_of StatusError None e = map_option ItemFailure e"
| "item_of _ _ _ = None"

definition dec_item_result :: "(json \<Rightarrow> 'a option) \<Rightarrow> json \<Rightarrow> 'a item_result option" where
  "dec_item_result d j =
     do { m \<leftarrow> visit_map [(''status'', accepts dec_item_result_status), (''value'', accepts d),
                         (''error'', accepts dec_tool_error)] j;
          status \<leftarrow> field_req m ''status'' dec_item_result_status;
          v \<leftarrow> field_slot m ''value'' d;
          error \<leftarrow> field_slot m ''error'' dec_tool_error;
          item_of status v error }"

record 'a bounded_items =
  bi_items :: "'a list"
  bi_truncated :: bool
  bi_truncation :: "truncation option"
  bi_observation :: observation_window

definition dec_bounded_items :: "(json \<Rightarrow> 'a option) \<Rightarrow> json \<Rightarrow> 'a bounded_items option" where
  "dec_bounded_items d j =
     do { m \<leftarrow> struct_fields
            [(''items'', False), (''truncated'', False), (''truncation'', False), (''observation'', False)] j;
          items \<leftarrow> field_req m ''items'' (dec_returned_list d);
          truncated \<leftarrow> field_req m ''truncated'' dec_bool;
          truncation \<leftarrow> field_opt m ''truncation'' dec_truncation;
          observation \<leftarrow> field_req m ''observation'' dec_observation_window;
          Some \<lparr>bi_items = items, bi_truncated = truncated, bi_truncation = truncation,
                bi_observation = observation\<rparr> }"

section \<open>The tree decoder\<close>

datatype 'd design_node =
  DesignNode (dn_summary: node_summary) (dn_data: 'd) (dn_children: "'d design_node list")
    (dn_children_truncated: bool) (dn_children_truncation: "truncation option")

definition sat_succ8 :: "u8 \<Rightarrow> u8" where
  "sat_succ8 n = (if n = - 1 then n else n + 1)"

text \<open>The fields whose values do not depend on the budget.\<close>

definition NODE_FIELDS :: "(json \<Rightarrow> 'd option) \<Rightarrow> (string \<times> (json \<Rightarrow> bool)) list" where
  "NODE_FIELDS dd =
     [(''summary'', accepts dec_node_summary), (''data'', accepts dd),
      (''childrenTruncated'', accepts dec_bool), (''childrenTruncation'', accepts (dec_option dec_truncation))]"

text \<open>The node from its slots, when the required ones are filled.\<close>

definition node_of ::
    "(json \<Rightarrow> 'd option) \<Rightarrow> (string \<Rightarrow> json option) \<Rightarrow> 'd design_node list option \<Rightarrow> 'd design_node option" where
  "node_of dd m children =
     do { summary \<leftarrow> field_req m ''summary'' dec_node_summary;
          dat \<leftarrow> field_req m ''data'' dd;
          children \<leftarrow> children;
          children_truncated \<leftarrow> field_req m ''childrenTruncated'' dec_bool;
          children_truncation \<leftarrow> field_opt m ''childrenTruncation'' dec_truncation;
          Some (DesignNode summary dat children children_truncated children_truncation) }"

text \<open>
  The three seeds: a node checks its depth and takes one node from the budget before its fields are
  visited; the list of its children, one level deeper, draws from what is left. The budget is a
  \<open>&mut usize\<close>, which a successful call hands back.
\<close>

function (sequential)
  dec_node :: "(json \<Rightarrow> 'd option) \<Rightarrow> nat \<Rightarrow> u8 \<Rightarrow> json \<Rightarrow> ('d design_node \<times> nat) option" and
  node_visit :: "(json \<Rightarrow> 'd option) \<Rightarrow> nat \<Rightarrow> u8 \<Rightarrow> (string \<times> json) list
    \<Rightarrow> (string \<Rightarrow> json option) \<Rightarrow> 'd design_node list option
    \<Rightarrow> ((string \<Rightarrow> json option) \<times> 'd design_node list option \<times> nat) option" and
  dec_nodes :: "(json \<Rightarrow> 'd option) \<Rightarrow> nat \<Rightarrow> u8 \<Rightarrow> nat \<Rightarrow> json list \<Rightarrow> ('d design_node list \<times> nat) option"
  where
  "dec_node dd remaining_nodes depth j =
     (if unat depth > MAX_DEPTH then None
      else if remaining_nodes = 0 then None
      else case body j of
        JObj kvs \<Rightarrow>
          (case node_visit dd (remaining_nodes - 1) depth kvs (\<lambda>_. None) None of
             None \<Rightarrow> None
           | Some (m, children, remaining_nodes) \<Rightarrow>
               map_option (\<lambda>node. (node, remaining_nodes)) (node_of dd m children))
      | _ \<Rightarrow> None)"
| "node_visit dd remaining_nodes depth [] m children = Some (m, children, remaining_nodes)"
| "node_visit dd remaining_nodes depth ((field, v) # kvs) m children =
     (if field = ''children'' then
        if children \<noteq> None then None
        else (case body v of
          JArr xs \<Rightarrow>
            (case dec_nodes dd remaining_nodes (sat_succ8 depth) MAX_RETURNED_NODES xs of
               None \<Rightarrow> None
             | Some (nodes, remaining_nodes) \<Rightarrow> node_visit dd remaining_nodes depth kvs m (Some nodes))
        | _ \<Rightarrow> None)
      else if m field \<noteq> None then None
      else (case map_of (NODE_FIELDS dd) field of
        None \<Rightarrow> None
      | Some ok \<Rightarrow> if ok v then node_visit dd remaining_nodes depth kvs (m(field \<mapsto> v)) children else None))"
| "dec_nodes dd remaining_nodes depth maximum_items [] = Some ([], remaining_nodes)"
| "dec_nodes dd remaining_nodes depth maximum_items (x # xs) =
     (if maximum_items = 0 then None
      else case dec_node dd remaining_nodes depth x of
        None \<Rightarrow> None
      | Some (node, remaining_nodes) \<Rightarrow>
          map_option (\<lambda>(nodes, remaining_nodes). (node # nodes, remaining_nodes))
            (dec_nodes dd remaining_nodes depth (maximum_items - 1) xs))"
  by pat_completeness auto

text \<open>The size of a JSON value bounds the descent.\<close>

lemma size_body: "size (body j) < size j"
  by (cases j) simp

definition entries_size :: "(string \<times> json) list \<Rightarrow> nat" where
  "entries_size kvs = size_list (size_prod (\<lambda>_. 0) size) kvs"

lemma size_arr: "body j = JArr xs \<Longrightarrow> size_list size xs < size j"
  using size_body [of j] by simp

lemma size_obj: "body j = JObj kvs \<Longrightarrow> entries_size kvs < size j"
  using size_body [of j] by (simp add: entries_size_def)

lemma entries_size_Cons: "entries_size ((k, v) # kvs) = Suc (Suc (size v + entries_size kvs))"
  by (simp add: entries_size_def)

termination dec_node
  by (relation "measure (\<lambda>x. case x of
      Inl (dd, r, d, j) \<Rightarrow> size j
    | Inr (Inl (dd, r, d, kvs, m, ch)) \<Rightarrow> entries_size kvs
    | Inr (Inr (dd, r, d, n, xs)) \<Rightarrow> size_list size xs)")
    (auto simp: entries_size_Cons dest!: size_arr size_obj)

definition dec_design_node :: "(json \<Rightarrow> 'd option) \<Rightarrow> json \<Rightarrow> 'd design_node option" where
  "dec_design_node dd j = map_option fst (dec_node dd MAX_RETURNED_NODES 0 j)"

type_synonym 'd node_forest = "'d design_node list"

definition dec_node_forest :: "(json \<Rightarrow> 'd option) \<Rightarrow> json \<Rightarrow> 'd node_forest option" where
  "dec_node_forest dd j = (case body j of
     JArr xs \<Rightarrow> map_option fst (dec_nodes dd MAX_RETURNED_NODES 0 MAX_RETURNED_NODES xs)
   | _ \<Rightarrow> None)"

text \<open>A batch: the budget goes from item to item.\<close>

fun item_visit ::
    "(json \<Rightarrow> 'd option) \<Rightarrow> nat \<Rightarrow> (string \<times> json) list \<Rightarrow> (string \<Rightarrow> json option) \<Rightarrow> 'd design_node option
      \<Rightarrow> ((string \<Rightarrow> json option) \<times> 'd design_node option \<times> nat) option" where
  "item_visit dd remaining_nodes [] m v = Some (m, v, remaining_nodes)"
| "item_visit dd remaining_nodes ((field, j) # kvs) m v =
     (if field = ''value'' then
        if v \<noteq> None then None
        else (case dec_node dd remaining_nodes 0 j of
          None \<Rightarrow> None
        | Some (node, remaining_nodes) \<Rightarrow> item_visit dd remaining_nodes kvs m (Some node))
      else if m field \<noteq> None then None
      else (case map_of [(''status'', accepts dec_item_result_status), (''error'', accepts dec_tool_error)] field of
        None \<Rightarrow> None
      | Some ok \<Rightarrow> if ok j then item_visit dd remaining_nodes kvs (m(field \<mapsto> j)) v else None))"

definition dec_node_item ::
    "(json \<Rightarrow> 'd option) \<Rightarrow> nat \<Rightarrow> json \<Rightarrow> ('d design_node item_result \<times> nat) option" where
  "dec_node_item dd remaining_nodes j = (case body j of
     JObj kvs \<Rightarrow>
       (case item_visit dd remaining_nodes kvs (\<lambda>_. None) None of
          None \<Rightarrow> None
        | Some (m, v, remaining_nodes) \<Rightarrow>
            do { status \<leftarrow> field_req m ''status'' dec_item_result_status;
                 error \<leftarrow> field_slot m ''error'' dec_tool_error;
                 item \<leftarrow> item_of status v error;
                 Some (item, remaining_nodes) })
   | _ \<Rightarrow> None)"

type_synonym 'd node_batch = "'d design_node item_result list"

fun dec_node_items ::
    "(json \<Rightarrow> 'd option) \<Rightarrow> nat \<Rightarrow> nat \<Rightarrow> json list \<Rightarrow> ('d node_batch \<times> nat) option" where
  "dec_node_items dd remaining_nodes maximum_items [] = Some ([], remaining_nodes)"
| "dec_node_items dd remaining_nodes maximum_items (x # xs) =
     (if maximum_items = 0 then None
      else case dec_node_item dd remaining_nodes x of
        None \<Rightarrow> None
      | Some (item, remaining_nodes) \<Rightarrow>
          map_option (\<lambda>(items, remaining_nodes). (item # items, remaining_nodes))
            (dec_node_items dd remaining_nodes (maximum_items - 1) xs))"

definition dec_node_batch :: "(json \<Rightarrow> 'd option) \<Rightarrow> json \<Rightarrow> 'd node_batch option" where
  "dec_node_batch dd j = (case body j of
     JArr xs \<Rightarrow> map_option fst (dec_node_items dd MAX_RETURNED_NODES MAX_INPUT_IDS xs)
   | _ \<Rightarrow> None)"

section \<open>Validation of a finished tree\<close>

text \<open>The count is a \<open>&mut usize\<close>, returned here; a sum cannot pass the width of a \<open>usize\<close> in memory.\<close>

fun validate_node :: "'d design_node \<Rightarrow> u8 \<Rightarrow> nat \<Rightarrow> boundary_error + nat"
  and validate_nodes :: "'d design_node list \<Rightarrow> u8 \<Rightarrow> nat \<Rightarrow> boundary_error + nat" where
  "validate_node (DesignNode summary dat children tr trn) depth counted =
     (if unat depth > MAX_DEPTH then Inl (BoundaryTooDeep depth (of_nat MAX_DEPTH))
      else let counted = counted + 1 in
        if counted > MAX_RETURNED_NODES then
          Inl (BoundaryTooMany ''returned design nodes'' counted MAX_RETURNED_NODES)
        else if length children > MAX_RETURNED_NODES - counted then
          Inl (BoundaryTooMany ''returned design nodes'' (counted + length children) MAX_RETURNED_NODES)
        else validate_nodes children (sat_succ8 depth) counted)"
| "validate_nodes [] depth counted = Inr counted"
| "validate_nodes (node # nodes) depth counted = (case validate_node node depth counted of
     Inl e \<Rightarrow> Inl e
   | Inr counted \<Rightarrow> validate_nodes nodes depth counted)"

definition validate_node_roots :: "'d design_node list \<Rightarrow> boundary_error + unit" where
  "validate_node_roots roots = map_sum id (\<lambda>_. ()) (validate_nodes roots 0 0)"

definition validate_node_forest :: "'d design_node list \<Rightarrow> boundary_error + unit" where
  "validate_node_forest nodes = validate_node_roots nodes"

definition node_forest_try_from :: "'d design_node list \<Rightarrow> boundary_error + 'd node_forest" where
  "node_forest_try_from nodes =
     (if length nodes > MAX_RETURNED_NODES then
        Inl (BoundaryTooMany ''returned design node roots'' (length nodes) MAX_RETURNED_NODES)
      else case validate_node_forest nodes of Inl e \<Rightarrow> Inl e | Inr _ \<Rightarrow> Inr nodes)"

fun item_success :: "'a item_result \<Rightarrow> 'a option" where
  "item_success (ItemSuccess v) = Some v"
| "item_success (ItemFailure e) = None"

definition node_batch_try_from :: "'d node_batch \<Rightarrow> boundary_error + 'd node_batch" where
  "node_batch_try_from items =
     (if length items > MAX_INPUT_IDS then
        Inl (BoundaryTooMany ''node results'' (length items) MAX_INPUT_IDS)
      else case validate_node_roots (List.map_filter item_success items) of
        Inl e \<Rightarrow> Inl e | Inr _ \<Rightarrow> Inr items)"

section \<open>The tree without limits\<close>

text \<open>The reference: a node is a closed struct whose children are nodes, with no budget and no depth.\<close>

lemma field_req_cong [fundef_cong]:
  "m = m' \<Longrightarrow> f = f' \<Longrightarrow> (\<And>v. m' f' = Some v \<Longrightarrow> d v = d' v) \<Longrightarrow> field_req m f d = field_req m' f' d'"
  by (cases "m' f'") (simp_all add: field_req_def)

fun dec_all :: "(json \<Rightarrow> 'a option) \<Rightarrow> json list \<Rightarrow> 'a list option" where
  "dec_all d [] = Some []"
| "dec_all d (x # xs) = do { y \<leftarrow> d x; ys \<leftarrow> dec_all d xs; Some (y # ys) }"

lemma dec_all_cong [fundef_cong]:
  "xs = xs' \<Longrightarrow> (\<And>x. x \<in> set xs' \<Longrightarrow> d x = d' x) \<Longrightarrow> dec_all d xs = dec_all d' xs'"
  by (induction xs' arbitrary: xs) auto

definition TREE_FIELDS :: "(json \<Rightarrow> 'd option) \<Rightarrow> (string \<times> (json \<Rightarrow> bool)) list" where
  "TREE_FIELDS dd = (''children'', \<lambda>_. True) # NODE_FIELDS dd"

lemma visit_map_size: "visit_map spec j = Some m \<Longrightarrow> m k = Some v \<Longrightarrow> size v < size j"
proof -
  assume "visit_map spec j = Some m" "m k = Some v"
  then obtain kvs where "body j = JObj kvs" "(k, v) \<in> set kvs"
    unfolding visit_map_iff by (auto dest: map_of_SomeD)
  moreover have "(k, v) \<in> set kvs \<Longrightarrow> size v \<le> entries_size kvs"
    by (induction kvs) (auto simp: entries_size_def)
  ultimately show ?thesis using size_obj [of j kvs] by simp
qed

function tree_of :: "(json \<Rightarrow> 'd option) \<Rightarrow> json \<Rightarrow> 'd design_node option" where
  "tree_of dd j =
     do { m \<leftarrow> visit_map (TREE_FIELDS dd) j;
          children \<leftarrow> field_req m ''children'' (\<lambda>v. case body v of
            JArr xs \<Rightarrow> dec_all (tree_of dd) xs
          | _ \<Rightarrow> None);
          node_of dd m (Some children) }"
  by pat_completeness auto

lemma size_member: "x \<in> set xs \<Longrightarrow> size x < size_list size xs"
  by (induction xs) auto

termination tree_of
  by (relation "measure (\<lambda>(dd, j). size j)") (auto dest!: size_arr size_member visit_map_size)

declare tree_of.simps [simp del]

definition dec_tree_children :: "(json \<Rightarrow> 'd option) \<Rightarrow> json \<Rightarrow> 'd design_node list option" where
  "dec_tree_children dd j = (case body j of JArr xs \<Rightarrow> dec_all (tree_of dd) xs | _ \<Rightarrow> None)"

section \<open>Counting and measuring a tree\<close>

fun node_count :: "'d design_node \<Rightarrow> nat" where
  "node_count (DesignNode summary dat children tr trn) = Suc (sum_list (map node_count children))"

definition nodes_count :: "'d design_node list \<Rightarrow> nat" where
  "nodes_count nodes = sum_list (map node_count nodes)"

fun node_fits :: "u8 \<Rightarrow> 'd design_node \<Rightarrow> bool" where
  "node_fits depth (DesignNode summary dat children tr trn) \<longleftrightarrow>
     unat depth \<le> MAX_DEPTH \<and> list_all (node_fits (sat_succ8 depth)) children"

lemma nodes_count_simps [simp]:
  "nodes_count [] = 0" "nodes_count (node # nodes) = node_count node + nodes_count nodes"
  by (simp_all add: nodes_count_def)

lemma node_count_children: "node_count node = Suc (nodes_count (dn_children node))"
  by (cases node) (simp add: nodes_count_def)

lemma node_fits_children:
  "node_fits d node \<longleftrightarrow> unat d \<le> MAX_DEPTH \<and> list_all (node_fits (sat_succ8 d)) (dn_children node)"
  by (cases node) simp

lemma length_le_nodes_count: "length nodes \<le> nodes_count nodes"
  by (induction nodes) (auto simp: node_count_children)

lemma dec_all_iff: "dec_all d xs = Some ys \<longleftrightarrow> map d xs = map Some ys"
proof (induction xs arbitrary: ys)
  case (Cons x xs)
  then show ?case by (cases ys) (auto simp: bind_eq_Some_conv)
qed auto

lemma dec_all_length: "dec_all d xs = Some ys \<Longrightarrow> length ys = length xs"
  unfolding dec_all_iff by (metis length_map)

text \<open>Validation succeeds exactly for the trees that fit, and the count is exact.\<close>

lemma validate_nodes_iff:
  fixes node :: "'d design_node" and nodes :: "'d design_node list"
  shows "validate_node node d n = Inr n' \<longleftrightarrow>
     node_fits d node \<and> n + node_count node \<le> MAX_RETURNED_NODES \<and> n' = n + node_count node"
  "n \<le> MAX_RETURNED_NODES \<Longrightarrow> validate_nodes nodes d n = Inr n' \<longleftrightarrow>
     list_all (node_fits d) nodes \<and> n + nodes_count nodes \<le> MAX_RETURNED_NODES \<and> n' = n + nodes_count nodes"
proof (induction node d n and nodes d n arbitrary: n' and n' rule: validate_node_validate_nodes.induct)
  case (1 summary dat children tr trn d n)
  have "length children \<le> sum_list (map node_count children)"
    using length_le_nodes_count [of children] by (simp add: nodes_count_def)
  then show ?case
    using 1 by (auto simp: Let_def nodes_count_def)
next
  case (3 node nodes d n)
  show ?case
  proof (cases "validate_node node d n")
    case (Inl e)
    then show ?thesis using "3.IH"(1) [of "n + node_count node"] by auto
  next
    case (Inr n1)
    then have "n1 \<le> MAX_RETURNED_NODES" "n1 = n + node_count node" "node_fits d node"
      using "3.IH"(1) by auto
    then show ?thesis using "3.IH"(2) [OF Inr] Inr by auto
  qed
qed auto

lemma validate_node_roots_iff:
  "validate_node_roots nodes = Inr u \<longleftrightarrow> list_all (node_fits 0) nodes \<and> nodes_count nodes \<le> MAX_RETURNED_NODES"
proof -
  have "validate_node_roots nodes = Inr u \<longleftrightarrow> (\<exists>n. validate_nodes nodes 0 0 = Inr n)"
    unfolding validate_node_roots_def by (cases "validate_nodes nodes 0 0") auto
  then show ?thesis by (simp add: validate_nodes_iff)
qed

lemma node_forest_try_from_iff:
  "node_forest_try_from nodes = Inr f \<longleftrightarrow>
     f = nodes \<and> list_all (node_fits 0) nodes \<and> nodes_count nodes \<le> MAX_RETURNED_NODES"
  using length_le_nodes_count [of nodes] validate_node_roots_iff [of nodes "()"]
  by (auto simp: node_forest_try_from_def validate_node_forest_def split: sum.splits)

section \<open>The budget against the finished tree\<close>

text \<open>
  What a loop over fields has met when one of them, \<open>key\<close>, draws on the budget and the others do not:
  \<open>rd v x r r'\<close> says that the value \<open>v\<close> of the key reads as \<open>x\<close> and leaves \<open>r'\<close> of the budget \<open>r\<close>.
\<close>

definition others_ok ::
    "string \<Rightarrow> (string \<times> (json \<Rightarrow> bool)) list \<Rightarrow> (string \<times> json) list \<Rightarrow> (string \<Rightarrow> json option) \<Rightarrow> bool" where
  "others_ok key spec kvs m \<longleftrightarrow> (\<forall>k v. (k, v) \<in> set kvs \<longrightarrow> k \<noteq> key \<longrightarrow>
     m k = None \<and> (\<exists>ok. map_of spec k = Some ok \<and> ok v))"

fun key_read ::
    "(json \<Rightarrow> 'c \<Rightarrow> nat \<Rightarrow> nat \<Rightarrow> bool) \<Rightarrow> json option \<Rightarrow> 'c option \<Rightarrow> nat \<Rightarrow> 'c option \<Rightarrow> nat \<Rightarrow> bool" where
  "key_read rd None c r c' r' \<longleftrightarrow> c' = c \<and> r' = r"
| "key_read rd (Some v) None r c' r' \<longleftrightarrow> (\<exists>x. c' = Some x \<and> rd v x r r')"
| "key_read rd (Some v) (Some _) r c' r' \<longleftrightarrow> False"

definition entries_read ::
    "string \<Rightarrow> (string \<times> (json \<Rightarrow> bool)) list \<Rightarrow> (json \<Rightarrow> 'c \<Rightarrow> nat \<Rightarrow> nat \<Rightarrow> bool) \<Rightarrow> nat \<Rightarrow> (string \<times> json) list
      \<Rightarrow> (string \<Rightarrow> json option) \<Rightarrow> 'c option \<Rightarrow> (string \<Rightarrow> json option) \<Rightarrow> 'c option \<Rightarrow> nat \<Rightarrow> bool" where
  "entries_read key spec rd r kvs m c m' c' r' \<longleftrightarrow>
     distinct (map fst kvs) \<and> others_ok key spec kvs m \<and> m' = m ++ (map_of kvs)(key := None) \<and>
     key_read rd (map_of kvs key) c r c' r'"

lemma others_ok_Cons:
  "others_ok key spec ((k, v) # kvs) m \<longleftrightarrow> others_ok key spec kvs m \<and>
     (k \<noteq> key \<longrightarrow> m k = None \<and> (\<exists>ok. map_of spec k = Some ok \<and> ok v))"
  unfolding others_ok_def by auto

lemma others_ok_upd:
  "k \<noteq> key \<Longrightarrow> others_ok key spec kvs (m(k \<mapsto> v)) \<longleftrightarrow> others_ok key spec kvs m \<and> k \<notin> fst ` set kvs"
  unfolding others_ok_def by (auto simp: image_iff)

lemma map_add_key: "(m ++ (map_of kvs)(key := None)) = m ++ (map_of ((key, v) # kvs))(key := None)"
  by (rule ext) (simp add: map_add_def)

lemma map_add_other:
  assumes "k \<noteq> key" and "k \<notin> fst ` set kvs"
  shows "m(k \<mapsto> v) ++ (map_of kvs)(key := None) = m ++ (map_of ((k, v) # kvs))(key := None)"
  using assms by (intro ext) (auto simp: map_add_def map_of_eq_None_iff [symmetric] split: option.split)

lemma entries_read_Nil: "entries_read key spec rd r [] m c m' c' r' \<longleftrightarrow> m' = m \<and> c' = c \<and> r' = r"
  by (auto simp: entries_read_def others_ok_def)

lemma entries_read_key:
  "entries_read key spec rd r ((key, v) # kvs) m c m' c' r' \<longleftrightarrow>
     c = None \<and> (\<exists>x q. rd v x r q \<and> entries_read key spec rd q kvs m (Some x) m' c' r')"
proof -
  have here: "map_of kvs key = None \<longleftrightarrow> key \<notin> fst ` set kvs"
    by (rule map_of_eq_None_iff)
  have more: "key_read rd (map_of kvs key) (Some x) q c' r' \<longleftrightarrow> map_of kvs key = None \<and> c' = Some x \<and> r' = q" for x q
    by (cases "map_of kvs key") auto
  show ?thesis
    unfolding entries_read_def more here map_add_key [symmetric] others_ok_Cons by (cases c) auto
qed

lemma entries_read_other:
  assumes "k \<noteq> key"
  shows "entries_read key spec rd r ((k, v) # kvs) m c m' c' r' \<longleftrightarrow>
     m k = None \<and> (\<exists>ok. map_of spec k = Some ok \<and> ok v) \<and> entries_read key spec rd r kvs (m(k \<mapsto> v)) c m' c' r'"
proof -
  have "map_of ((k, v) # kvs) key = map_of kvs key" using assms by simp
  then show ?thesis
    using map_add_other [OF assms, of kvs m v] assms
    unfolding entries_read_def others_ok_Cons others_ok_upd [OF assms] by auto
qed

definition nodes_read ::
    "(json \<Rightarrow> 'd option) \<Rightarrow> nat \<Rightarrow> u8 \<Rightarrow> json list \<Rightarrow> 'd design_node list \<Rightarrow> nat \<Rightarrow> bool" where
  "nodes_read dd r d xs nodes r' \<longleftrightarrow> dec_all (tree_of dd) xs = Some nodes \<and> list_all (node_fits d) nodes \<and>
     nodes_count nodes \<le> r \<and> r' = r - nodes_count nodes"

definition children_read ::
    "(json \<Rightarrow> 'd option) \<Rightarrow> u8 \<Rightarrow> json \<Rightarrow> 'd design_node list \<Rightarrow> nat \<Rightarrow> nat \<Rightarrow> bool" where
  "children_read dd d v nodes r r' \<longleftrightarrow> (\<exists>xs. body v = JArr xs \<and> nodes_read dd r (sat_succ8 d) xs nodes r')"

definition fields_read ::
    "(json \<Rightarrow> 'd option) \<Rightarrow> nat \<Rightarrow> u8 \<Rightarrow> (string \<times> json) list \<Rightarrow> (string \<Rightarrow> json option)
      \<Rightarrow> 'd design_node list option \<Rightarrow> (string \<Rightarrow> json option) \<Rightarrow> 'd design_node list option \<Rightarrow> nat \<Rightarrow> bool" where
  "fields_read dd r d = entries_read ''children'' (NODE_FIELDS dd) (children_read dd d) r"

lemmas fields_read_Nil = entries_read_Nil [of "''children''" "NODE_FIELDS dd" "children_read dd d" for dd d,
  folded fields_read_def]

lemmas fields_read_other = entries_read_other [of _ "''children''" "NODE_FIELDS dd" "children_read dd d" for dd d,
  folded fields_read_def]

lemma children_field:
  "fields_read dd r d ((''children'', v) # kvs) m ch m' ch' r' \<longleftrightarrow>
     ch = None \<and> (\<exists>xs nodes r1. body v = JArr xs \<and> nodes_read dd r (sat_succ8 d) xs nodes r1 \<and>
       fields_read dd r1 d kvs m (Some nodes) m' ch' r')"
  unfolding fields_read_def entries_read_key children_read_def by blast

definition node_read :: "(json \<Rightarrow> 'd option) \<Rightarrow> nat \<Rightarrow> u8 \<Rightarrow> json \<Rightarrow> 'd design_node \<Rightarrow> nat \<Rightarrow> bool" where
  "node_read dd r d j node r' \<longleftrightarrow>
     tree_of dd j = Some node \<and> node_fits d node \<and> node_count node \<le> r \<and> r' = r - node_count node"

lemma node_of_away: "node_of dd (m(''children'' := x)) ch = node_of dd m ch"
  by (simp add: node_of_def field_req_def field_opt_def field_default_def)

lemma node_of_children: "node_of dd m ch = Some node \<Longrightarrow> ch = Some (dn_children node)"
  by (cases ch) (auto simp: node_of_def bind_eq_Some_conv)

lemma visit_tree_fields:
  "body j = JObj kvs \<Longrightarrow> visit_map (TREE_FIELDS dd) j = Some m \<longleftrightarrow>
     distinct (map fst kvs) \<and> others_ok ''children'' (NODE_FIELDS dd) kvs (\<lambda>_. None) \<and> m = map_of kvs"
  unfolding visit_map_iff others_ok_def TREE_FIELDS_def by (auto simp del: map_of_eq_Some_iff)

lemma tree_of_fields:
  assumes "body j = JObj kvs"
  shows "tree_of dd j = Some node \<longleftrightarrow> distinct (map fst kvs) \<and> others_ok ''children'' (NODE_FIELDS dd) kvs (\<lambda>_. None) \<and>
    (\<exists>v. map_of kvs ''children'' = Some v \<and> dec_tree_children dd v = Some (dn_children node)) \<and>
    node_of dd (map_of kvs) (Some (dn_children node)) = Some node"
proof -
  have "tree_of dd j = Some node \<longleftrightarrow> (\<exists>m. visit_map (TREE_FIELDS dd) j = Some m \<and> (\<exists>children.
      (\<exists>v. m ''children'' = Some v \<and> dec_tree_children dd v = Some children) \<and>
      node_of dd m (Some children) = Some node))"
    unfolding tree_of.simps [of dd j] dec_tree_children_def [symmetric] bind_eq_Some_conv field_req_def ..
  moreover have "children = dn_children node" if "node_of dd m (Some children) = Some node" for m children
    using node_of_children [OF that] by simp
  ultimately show ?thesis unfolding visit_tree_fields [OF assms] by metis
qed

lemma children_read_iff:
  "children_read dd d v nodes r r' \<longleftrightarrow> dec_tree_children dd v = Some nodes \<and>
     list_all (node_fits (sat_succ8 d)) nodes \<and> nodes_count nodes \<le> r \<and> r' = r - nodes_count nodes"
  unfolding children_read_def nodes_read_def dec_tree_children_def by (cases "body v") auto

lemma node_read_step:
  assumes "body j = JObj kvs" and "unat d \<le> MAX_DEPTH" and "0 < r"
  shows "node_read dd r d j node r' \<longleftrightarrow> (\<exists>m ch. fields_read dd (r - 1) d kvs (\<lambda>_. None) None m ch r' \<and>
    node_of dd m ch = Some node)"
proof -
  have away: "node_of dd ((\<lambda>_. None) ++ (map_of kvs)(''children'' := None)) ch = node_of dd (map_of kvs) ch" for ch
    unfolding empty_map_add node_of_away ..
  have "(\<exists>m ch. fields_read dd (r - 1) d kvs (\<lambda>_. None) None m ch r' \<and> node_of dd m ch = Some node) \<longleftrightarrow>
      (\<exists>ch. distinct (map fst kvs) \<and> others_ok ''children'' (NODE_FIELDS dd) kvs (\<lambda>_. None) \<and>
        key_read (children_read dd d) (map_of kvs ''children'') None (r - 1) ch r' \<and> node_of dd (map_of kvs) ch = Some node)"
    unfolding fields_read_def entries_read_def using away by metis
  also have "\<dots> \<longleftrightarrow> distinct (map fst kvs) \<and> others_ok ''children'' (NODE_FIELDS dd) kvs (\<lambda>_. None) \<and>
        key_read (children_read dd d) (map_of kvs ''children'') None (r - 1) (Some (dn_children node)) r' \<and>
        node_of dd (map_of kvs) (Some (dn_children node)) = Some node"
    (is "(\<exists>ch. ?P ch) \<longleftrightarrow> ?Q")
  proof
    assume "\<exists>ch. ?P ch"
    then obtain ch where ch: "?P ch" by blast
    then have "ch = Some (dn_children node)" by (intro node_of_children) blast
    with ch show ?Q by blast
  qed blast
  also have "\<dots> \<longleftrightarrow> node_read dd r d j node r'"
  proof -
    have nums: "Suc n \<le> r \<longleftrightarrow> n \<le> r - 1" "r - Suc n = r - 1 - n" for n
      using assms(3) by auto
    show ?thesis
      unfolding node_read_def tree_of_fields [OF assms(1)] node_fits_children [of d] node_count_children nums
      by (cases "map_of kvs ''children''"; simp only: key_read.simps children_read_iff option.inject option.distinct)
        (use assms(2) in blast)+
  qed
  finally show ?thesis by blast
qed

lemma nodes_read_Nil: "nodes_read dd r d [] nodes r' \<longleftrightarrow> nodes = [] \<and> r' = r"
  by (auto simp: nodes_read_def)

lemma nodes_read_Cons:
  "nodes_read dd r d (x # xs) nodes r' \<longleftrightarrow>
     (\<exists>node ns r1. nodes = node # ns \<and> node_read dd r d x node r1 \<and> nodes_read dd r1 d xs ns r')"
  unfolding nodes_read_def node_read_def by (auto simp: bind_eq_Some_conv)

lemma nodes_read_length: "nodes_read dd r d xs nodes r' \<Longrightarrow> length xs \<le> r"
  unfolding nodes_read_def using dec_all_length length_le_nodes_count le_trans by metis

lemma node_read_left: "node_read dd r d x node r' \<Longrightarrow> r' \<le> r"
  unfolding node_read_def by simp

lemma dec_node_guards:
  "dec_node dd r d j = (if unat d > MAX_DEPTH \<or> r = 0 then None else case body j of
      JObj kvs \<Rightarrow> (case node_visit dd (r - 1) d kvs (\<lambda>_. None) None of
         None \<Rightarrow> None
       | Some (m, ch, r') \<Rightarrow> map_option (\<lambda>node. (node, r')) (node_of dd m ch))
    | _ \<Rightarrow> None)"
  by simp

lemma node_read_obj:
  assumes "node_read dd r d j node r'"
  obtains kvs where "body j = JObj kvs" and "unat d \<le> MAX_DEPTH" and "0 < r"
proof -
  have "tree_of dd j = Some node" "node_fits d node" "node_count node \<le> r"
    using assms unfolding node_read_def by blast+
  moreover obtain m where "visit_map (TREE_FIELDS dd) j = Some m"
    using calculation(1) unfolding tree_of.simps [of dd j] bind_eq_Some_conv by blast
  ultimately show thesis
    using that unfolding visit_map_iff node_fits_children [of d] node_count_children by fastforce
qed

lemma decode_iff_read:
  fixes dd :: "json \<Rightarrow> 'd option"
  shows "r \<le> MAX_RETURNED_NODES \<Longrightarrow> dec_node dd r d j = Some (node, r') \<longleftrightarrow> node_read dd r d j node r'"
    and "r \<le> MAX_RETURNED_NODES \<Longrightarrow>
      node_visit dd r d kvs m ch = Some (m', ch', r') \<longleftrightarrow> fields_read dd r d kvs m ch m' ch' r'"
    and "r \<le> MAX_RETURNED_NODES \<Longrightarrow>
      dec_nodes dd r d n xs = Some (nodes, r') \<longleftrightarrow> length xs \<le> n \<and> nodes_read dd r d xs nodes r'"
proof (induction dd r d j and dd r d kvs m ch and dd r d n xs arbitrary: node r' and m' ch' r' and nodes r'
    rule: dec_node_node_visit_dec_nodes.induct)
  case (1 dd r d j)
  show ?case
  proof (cases "unat d \<le> MAX_DEPTH \<and> 0 < r \<and> (\<exists>kvs. body j = JObj kvs)")
    case False
    then have "dec_node dd r d j = None" unfolding dec_node_guards by (auto split: jbody.split)
    moreover have "\<not> node_read dd r d j node r'" using False node_read_obj by blast
    ultimately show ?thesis by simp
  next
    case True
    then obtain kvs where kvs: "body j = JObj kvs" by blast
    have IH: "node_visit dd (r - 1) d kvs (\<lambda>_. None) None = Some (m, ch, q) \<longleftrightarrow>
        fields_read dd (r - 1) d kvs (\<lambda>_. None) None m ch q" for m ch q
      using 1 True kvs by simp
    have "dec_node dd r d j = Some (node, r') \<longleftrightarrow> (\<exists>m ch.
        node_visit dd (r - 1) d kvs (\<lambda>_. None) None = Some (m, ch, r') \<and> node_of dd m ch = Some node)"
      unfolding dec_node_guards using True
      by (cases "node_visit dd (r - 1) d kvs (\<lambda>_. None) None") (auto simp: kvs)
    also have "\<dots> \<longleftrightarrow> node_read dd r d j node r'"
      unfolding IH using True by (intro node_read_step [symmetric] kvs) auto
    finally show ?thesis .
  qed
next
  case (2 dd r d m ch)
  then show ?case by (auto simp: fields_read_Nil)
next
  case (3 dd r d field v kvs m ch)
  show ?case
  proof (cases "field = ''children''")
    case True
    show ?thesis
    proof (cases "ch = None \<and> (\<exists>xs. body v = JArr xs)")
      case False
      then show ?thesis using True unfolding True children_field by (auto split: jbody.split)
    next
      case ok: True
      then obtain xs where xs: "body v = JArr xs" by blast
      have list: "dec_nodes dd r (sat_succ8 d) MAX_RETURNED_NODES xs = Some (nodes, q) \<longleftrightarrow>
          nodes_read dd r (sat_succ8 d) xs nodes q" for nodes q
        using 3 True ok xs nodes_read_length le_trans by (metis (no_types, lifting))
      show ?thesis
        proof -
        have rest: "node_visit dd q d kvs m (Some nodes) = Some (m', ch', r') \<longleftrightarrow>
            fields_read dd q d kvs m (Some nodes) m' ch' r'"
          if "dec_nodes dd r (sat_succ8 d) MAX_RETURNED_NODES xs = Some (nodes, q)" for nodes q
        proof -
          have "q \<le> MAX_RETURNED_NODES"
            using that 3(4) unfolding list nodes_read_def by linarith
          then show ?thesis using 3(2) True ok xs that by simp
        qed
        have "node_visit dd r d ((field, v) # kvs) m ch = Some (m', ch', r') \<longleftrightarrow> (\<exists>nodes q.
            dec_nodes dd r (sat_succ8 d) MAX_RETURNED_NODES xs = Some (nodes, q) \<and>
            node_visit dd q d kvs m (Some nodes) = Some (m', ch', r'))"
          using True ok xs
          by (cases "dec_nodes dd r (sat_succ8 d) MAX_RETURNED_NODES xs") (auto split: prod.split)
        also have "\<dots> \<longleftrightarrow> (\<exists>nodes q. nodes_read dd r (sat_succ8 d) xs nodes q \<and>
            fields_read dd q d kvs m (Some nodes) m' ch' r')"
          using rest list by blast
        also have "\<dots> \<longleftrightarrow> fields_read dd r d ((field, v) # kvs) m ch m' ch' r'"
          unfolding True children_field using ok xs by auto
        finally show ?thesis .
      qed
    qed
  next
    case False
    show ?thesis
      proof (cases "m field = None \<and> (\<exists>ok. map_of (NODE_FIELDS dd) field = Some ok \<and> ok v)")
      case bad: False
      then show ?thesis
        using False unfolding fields_read_other [OF False]
        by (cases "map_of (NODE_FIELDS dd) field") (auto simp del: map_of_eq_Some_iff)
    next
      case ok: True
      then have "node_visit dd r d ((field, v) # kvs) m ch = node_visit dd r d kvs (m(field \<mapsto> v)) ch"
        using False by (auto simp del: map_of_eq_Some_iff)
      moreover have "node_visit dd r d kvs (m(field \<mapsto> v)) ch = Some (m', ch', r') \<longleftrightarrow>
          fields_read dd r d kvs (m(field \<mapsto> v)) ch m' ch' r'"
      proof -
        obtain f where f: "map_of (NODE_FIELDS dd) field = Some f" "f v" using ok by blast
        show ?thesis by (rule 3(3) [OF False _ f 3(4)]) (simp add: ok)
      qed
      ultimately show ?thesis using ok unfolding fields_read_other [OF False] by metis
    qed
  qed
next
  case (4 dd r d n)
  then show ?case by (auto simp: nodes_read_Nil)
next
  case (5 dd r d n x xs)
  show ?case
    proof (cases "n = 0")
    case False
    have head: "dec_node dd r d x = Some (node, q) \<longleftrightarrow> node_read dd r d x node q" for node q
      using 5 False by blast
    have rest: "dec_nodes dd q d (n - 1) xs = Some (ns, r') \<longleftrightarrow> length xs \<le> n - 1 \<and> nodes_read dd q d xs ns r'"
      if "dec_node dd r d x = Some (node, q)" for node q ns r'
      using 5(2) [OF False that refl] node_read_left that 5(3) unfolding head by (meson le_trans)
    have "dec_nodes dd r d n (x # xs) = Some (nodes, r') \<longleftrightarrow> (\<exists>node ns q. nodes = node # ns \<and>
        dec_node dd r d x = Some (node, q) \<and> dec_nodes dd q d (n - 1) xs = Some (ns, r'))"
      using False by (cases "dec_node dd r d x") (auto simp del: dec_node.simps)
    also have "\<dots> \<longleftrightarrow> (\<exists>node ns q. nodes = node # ns \<and> node_read dd r d x node q \<and>
        length xs \<le> n - 1 \<and> nodes_read dd q d xs ns r')"
      using rest head by blast
    also have "\<dots> \<longleftrightarrow> length (x # xs) \<le> n \<and> nodes_read dd r d (x # xs) nodes r'"
    proof -
      have "length (x # xs) \<le> n \<longleftrightarrow> length xs \<le> n - 1" using False by auto
      then show ?thesis unfolding nodes_read_Cons by blast
    qed
    finally show ?thesis .
  qed simp
qed

section \<open>Forests and batches\<close>

definition ok_of :: "'e + 'a \<Rightarrow> 'a option" where
  "ok_of r = (case r of Inl e \<Rightarrow> None | Inr a \<Rightarrow> Some a)"

lemma ok_of_iff: "ok_of r = Some a \<longleftrightarrow> r = Inr a"
  by (cases r) (auto simp: ok_of_def)

lemma option_eqI: "(\<And>x. a = Some x \<longleftrightarrow> b = Some x) \<Longrightarrow> a = b"
  by (cases a; cases b) auto

lemma forest_decoder:
  "dec_node_forest dd j = do { nodes \<leftarrow> dec_tree_children dd j; ok_of (node_forest_try_from nodes) }"
proof (rule option_eqI, unfold bind_eq_Some_conv ok_of_iff)
  fix f
  show "dec_node_forest dd j = Some f \<longleftrightarrow> (\<exists>nodes. dec_tree_children dd j = Some nodes \<and>
      node_forest_try_from nodes = Inr f)"
  proof (cases "body j")
    case (JArr xs)
    have "dec_node_forest dd j = Some f \<longleftrightarrow> (\<exists>r'. dec_nodes dd MAX_RETURNED_NODES 0 MAX_RETURNED_NODES xs = Some (f, r'))"
      by (auto simp: dec_node_forest_def JArr)
    then show ?thesis
      unfolding decode_iff_read(3) [OF order_refl] node_forest_try_from_iff
      using nodes_read_length [of dd MAX_RETURNED_NODES 0 xs]
      by (auto simp: nodes_read_def dec_tree_children_def JArr)
  qed (auto simp: dec_node_forest_def dec_tree_children_def)
qed

definition ITEM_FIELDS :: "(string \<times> (json \<Rightarrow> bool)) list" where
  "ITEM_FIELDS = [(''status'', accepts dec_item_result_status), (''error'', accepts dec_tool_error)]"

definition item_fields_read ::
    "(json \<Rightarrow> 'd option) \<Rightarrow> nat \<Rightarrow> (string \<times> json) list \<Rightarrow> (string \<Rightarrow> json option)
      \<Rightarrow> 'd design_node option \<Rightarrow> (string \<Rightarrow> json option) \<Rightarrow> 'd design_node option \<Rightarrow> nat \<Rightarrow> bool" where
  "item_fields_read dd = entries_read ''value'' ITEM_FIELDS (\<lambda>v node r r'. node_read dd r 0 v node r')"

lemmas item_fields_read_Nil = entries_read_Nil [of "''value''" ITEM_FIELDS
    "\<lambda>v node r r'. node_read dd r 0 v node r'" for dd, folded item_fields_read_def]

lemmas item_fields_read_other = entries_read_other [of _ "''value''" ITEM_FIELDS
    "\<lambda>v node r r'. node_read dd r 0 v node r'" for dd, folded item_fields_read_def]

lemmas item_fields_read_key = entries_read_key [of "''value''" ITEM_FIELDS
    "\<lambda>v node r r'. node_read dd r 0 v node r'" for dd, folded item_fields_read_def]

lemma item_visit_iff_read:
  fixes dd :: "json \<Rightarrow> 'd option"
  shows "r \<le> MAX_RETURNED_NODES \<Longrightarrow>
    item_visit dd r kvs m v = Some (m', v', r') \<longleftrightarrow> item_fields_read dd r kvs m v m' v' r'"
proof (induction dd r kvs m v rule: item_visit.induct)
  case (1 dd r m v)
  then show ?case by (auto simp: item_fields_read_Nil)
next
  case (2 dd r field j kvs m v)
  show ?case
  proof (cases "field = ''value''")
    case True
    have head: "dec_node dd r 0 j = Some (node, q) \<longleftrightarrow> node_read dd r 0 j node q" for node q
      using decode_iff_read(1) 2(3) by blast
    have rest: "item_visit dd q kvs m (Some node) = Some (m', v', r') \<longleftrightarrow>
        item_fields_read dd q kvs m (Some node) m' v' r'"
      if "dec_node dd r 0 j = Some (node, q)" and "v = None" for node q
    proof -
      have "q \<le> MAX_RETURNED_NODES" using that(1) node_read_left 2(3) unfolding head by (meson le_trans)
      then show ?thesis using 2(1) [OF True _ that(1) refl] that(2) by simp
    qed
    have "item_visit dd r ((field, j) # kvs) m v = Some (m', v', r') \<longleftrightarrow> v = None \<and> (\<exists>node q.
        dec_node dd r 0 j = Some (node, q) \<and> item_visit dd q kvs m (Some node) = Some (m', v', r'))"
      using True by (cases "dec_node dd r 0 j") (auto split: prod.split simp del: dec_node.simps)
    also have "\<dots> \<longleftrightarrow> item_fields_read dd r ((field, j) # kvs) m v m' v' r'"
      unfolding True item_fields_read_key using rest head by blast
    finally show ?thesis .
  next
    case False
    show ?thesis
    proof (cases "m field = None \<and> (\<exists>ok. map_of ITEM_FIELDS field = Some ok \<and> ok j)")
      case bad: False
      then show ?thesis
        using False unfolding item_fields_read_other [OF False] ITEM_FIELDS_def
        by (cases "map_of ITEM_FIELDS field") (auto simp: ITEM_FIELDS_def simp del: map_of_eq_Some_iff)
    next
      case ok: True
      then obtain f where f: "map_of ITEM_FIELDS field = Some f" "f j" by blast
      then have "item_visit dd r ((field, j) # kvs) m v = item_visit dd r kvs (m(field \<mapsto> j)) v"
        using False ok unfolding ITEM_FIELDS_def by (simp del: map_of_eq_Some_iff map_of.simps)
      moreover have "item_visit dd r kvs (m(field \<mapsto> j)) v = Some (m', v', r') \<longleftrightarrow>
          item_fields_read dd r kvs (m(field \<mapsto> j)) v m' v' r'"
        by (rule 2(2) [OF False _ f [unfolded ITEM_FIELDS_def] 2(3)]) (simp add: ok)
      ultimately show ?thesis using ok unfolding item_fields_read_other [OF False] by metis
    qed
  qed
qed

abbreviation "successes items \<equiv> List.map_filter item_success items"

lemma successes_simps [simp]:
  "successes [] = []" "successes (ItemSuccess v # items) = v # successes items"
  "successes (ItemFailure e # items) = successes items"
  by (simp_all add: List.map_filter_simps)

lemma item_of_success: "item_of status (Some v) e = Some item \<longleftrightarrow> status = StatusSuccess \<and> e = None \<and> item = ItemSuccess v"
  by (cases status; cases e) auto

lemma item_of_failure: "item_of status None e = Some item \<longleftrightarrow> status = StatusError \<and> (\<exists>x. e = Some x \<and> item = ItemFailure x)"
  by (cases status; cases e) auto

definition item_read ::
    "(json \<Rightarrow> 'd option) \<Rightarrow> nat \<Rightarrow> json \<Rightarrow> 'd design_node item_result \<Rightarrow> nat \<Rightarrow> bool" where
  "item_read dd r j item r' \<longleftrightarrow> dec_item_result (tree_of dd) j = Some item \<and>
     list_all (node_fits 0) (successes [item]) \<and> nodes_count (successes [item]) \<le> r \<and>
     r' = r - nodes_count (successes [item])"

lemma visit_item_fields:
  assumes "body j = JObj kvs"
  shows "visit_map [(''status'', accepts dec_item_result_status), (''value'', accepts d),
      (''error'', accepts dec_tool_error)] j = Some m \<longleftrightarrow>
    distinct (map fst kvs) \<and> others_ok ''value'' ITEM_FIELDS kvs (\<lambda>_. None) \<and>
    pred_option (accepts d) (map_of kvs ''value'') \<and> m = map_of kvs"
proof -
  have "(\<forall>v. (''value'', v) \<in> set kvs \<longrightarrow> accepts d v) \<longleftrightarrow> pred_option (accepts d) (map_of kvs ''value'')"
    if "distinct (map fst kvs)"
    unfolding map_of_eq_Some_iff [OF that, symmetric]
    by (cases "map_of kvs ''value''") (simp_all del: map_of_eq_Some_iff)
  moreover have "(\<forall>k v. (k, v) \<in> set kvs \<longrightarrow> (\<exists>ok. map_of [(''status'', accepts dec_item_result_status),
      (''value'', accepts d), (''error'', accepts dec_tool_error)] k = Some ok \<and> ok v)) \<longleftrightarrow>
      others_ok ''value'' ITEM_FIELDS kvs (\<lambda>_. None) \<and> (\<forall>v. (''value'', v) \<in> set kvs \<longrightarrow> accepts d v)"
  proof -
    have "map_of [(''status'', accepts dec_item_result_status), (''value'', accepts d),
        (''error'', accepts dec_tool_error)] k =
        (if k = ''value'' then Some (accepts d) else map_of ITEM_FIELDS k)" for k
      by (simp add: ITEM_FIELDS_def)
    then show ?thesis unfolding others_ok_def by (auto simp del: map_of_eq_Some_iff)
  qed
  ultimately show ?thesis unfolding visit_map_iff assms jbody.inject by blast
qed

lemma item_read_iff:
  assumes "r \<le> MAX_RETURNED_NODES"
  shows "dec_node_item dd r j = Some (item, r') \<longleftrightarrow> item_read dd r j item r'"
proof (cases "body j")
  case (JObj kvs)
  let ?rest = "\<lambda>v. \<exists>status error. field_req (map_of kvs) ''status'' dec_item_result_status = Some status \<and>
      field_slot (map_of kvs) ''error'' dec_tool_error = Some error \<and> item_of status v error = Some item"
  have same: "field_req ((\<lambda>_. None) ++ (map_of kvs)(''value'' := None)) ''status'' d = field_req (map_of kvs) ''status'' d"
    "field_slot ((\<lambda>_. None) ++ (map_of kvs)(''value'' := None)) ''error'' e = field_slot (map_of kvs) ''error'' e"
    for d :: "json \<Rightarrow> 'x option" and e :: "json \<Rightarrow> 'y option"
    unfolding empty_map_add by (simp_all add: field_req_def field_slot_def)
  have "dec_node_item dd r j = Some (item, r') \<longleftrightarrow>
      (\<exists>m v. item_visit dd r kvs (\<lambda>_. None) None = Some (m, v, r') \<and>
        (\<exists>status error. field_req m ''status'' dec_item_result_status = Some status \<and>
           field_slot m ''error'' dec_tool_error = Some error \<and> item_of status v error = Some item))"
    unfolding dec_node_item_def JObj
    by (cases "item_visit dd r kvs (\<lambda>_. None) None") (auto simp: bind_eq_Some_conv)
  also have "\<dots> \<longleftrightarrow> (\<exists>v. distinct (map fst kvs) \<and> others_ok ''value'' ITEM_FIELDS kvs (\<lambda>_. None) \<and>
      key_read (\<lambda>v node r r'. node_read dd r 0 v node r') (map_of kvs ''value'') None r v r' \<and> ?rest v)"
    unfolding item_visit_iff_read [OF assms] item_fields_read_def entries_read_def using same by metis
  also have "\<dots> \<longleftrightarrow> item_read dd r j item r'"
  proof -
    have slots: "dec_item_result (tree_of dd) j = Some item \<longleftrightarrow> distinct (map fst kvs) \<and>
        others_ok ''value'' ITEM_FIELDS kvs (\<lambda>_. None) \<and> pred_option (accepts (tree_of dd)) (map_of kvs ''value'') \<and>
        (\<exists>v. field_slot (map_of kvs) ''value'' (tree_of dd) = Some v \<and> ?rest v)"
      unfolding dec_item_result_def bind_eq_Some_conv visit_item_fields [OF JObj] by blast
    show ?thesis
    proof (cases "map_of kvs ''value''")
      case None
      have "field_slot (map_of kvs) ''value'' (tree_of dd) = Some v \<longleftrightarrow> v = None" for v
        using None by (auto simp: field_slot_def)
      then have "dec_item_result (tree_of dd) j = Some item \<longleftrightarrow> distinct (map fst kvs) \<and>
          others_ok ''value'' ITEM_FIELDS kvs (\<lambda>_. None) \<and> ?rest None"
        unfolding slots None by simp
      moreover have "successes [item] = []" if "?rest None"
        using that unfolding item_of_failure by auto
      ultimately show ?thesis
        unfolding item_read_def None key_read.simps by auto
    next
      case (Some jv)
      have "field_slot (map_of kvs) ''value'' (tree_of dd) = Some v \<longleftrightarrow>
          (\<exists>node. tree_of dd jv = Some node \<and> v = Some node)" for v
        unfolding field_slot_def Some by auto
      then have "dec_item_result (tree_of dd) j = Some item \<longleftrightarrow> distinct (map fst kvs) \<and>
          others_ok ''value'' ITEM_FIELDS kvs (\<lambda>_. None) \<and>
          (\<exists>node. tree_of dd jv = Some node \<and> ?rest (Some node))"
        unfolding slots Some by (auto simp: accepts_def)
      moreover have "successes [item] = [node]" if "?rest (Some node)" for node
      proof -
        have "item = ItemSuccess node" using that unfolding item_of_success by blast
        then show ?thesis by simp
      qed
      ultimately show ?thesis
        unfolding item_read_def Some key_read.simps node_read_def
        by (metis (no_types, lifting) add.right_neutral list.pred_inject nodes_count_simps option.inject)
    qed
  qed
  finally show ?thesis .
qed (auto simp: dec_node_item_def item_read_def dec_item_result_def visit_map_def)

definition items_read ::
    "(json \<Rightarrow> 'd option) \<Rightarrow> nat \<Rightarrow> json list \<Rightarrow> 'd node_batch \<Rightarrow> nat \<Rightarrow> bool" where
  "items_read dd r xs items r' \<longleftrightarrow> dec_all (dec_item_result (tree_of dd)) xs = Some items \<and>
     list_all (node_fits 0) (successes items) \<and> nodes_count (successes items) \<le> r \<and>
     r' = r - nodes_count (successes items)"

lemma items_read_Cons:
  "items_read dd r (x # xs) items r' \<longleftrightarrow>
     (\<exists>item rest r1. items = item # rest \<and> item_read dd r x item r1 \<and> items_read dd r1 xs rest r')"
proof (cases "dec_item_result (tree_of dd) x")
  case (Some item)
  then show ?thesis
    unfolding items_read_def item_read_def dec_all.simps bind_eq_Some_conv by (cases item) auto
qed (simp add: items_read_def item_read_def)

lemma items_decoder:
  "r \<le> MAX_RETURNED_NODES \<Longrightarrow>
     dec_node_items dd r n xs = Some (items, r') \<longleftrightarrow> length xs \<le> n \<and> items_read dd r xs items r'"
proof (induction dd r n xs arbitrary: items r' rule: dec_node_items.induct)
  case (2 dd r n x xs)
  show ?case
  proof (cases "n = 0")
    case False
    have rest: "dec_node_items dd q (n - 1) xs = Some (items, r') \<longleftrightarrow> length xs \<le> n - 1 \<and> items_read dd q xs items r'"
      if "item_read dd r x item q" for item q items r'
    proof -
      have "dec_node_item dd r x = Some (item, q)" "q \<le> MAX_RETURNED_NODES"
        using that 2(2) unfolding item_read_iff [OF 2(2)] item_read_def by auto
      then show ?thesis using 2(1) [OF False _ refl] by blast
    qed
    have "dec_node_items dd r n (x # xs) = Some (items, r') \<longleftrightarrow> (\<exists>item is q. items = item # is \<and>
        dec_node_item dd r x = Some (item, q) \<and> dec_node_items dd q (n - 1) xs = Some (is, r'))"
      using False by (cases "dec_node_item dd r x") auto
    also have "\<dots> \<longleftrightarrow> (\<exists>item is q. items = item # is \<and> item_read dd r x item q \<and>
        length xs \<le> n - 1 \<and> items_read dd q xs is r')"
      unfolding item_read_iff [OF 2(2)] using rest by blast
    also have "\<dots> \<longleftrightarrow> length (x # xs) \<le> n \<and> items_read dd r (x # xs) items r'"
    proof -
      have "length (x # xs) \<le> n \<longleftrightarrow> length xs \<le> n - 1" using False by auto
      then show ?thesis unfolding items_read_Cons by blast
    qed
    finally show ?thesis .
  qed simp
qed (auto simp: items_read_def)

lemma node_batch_try_from_iff:
  "node_batch_try_from items = Inr b \<longleftrightarrow> b = items \<and> length items \<le> MAX_INPUT_IDS \<and>
     list_all (node_fits 0) (successes items) \<and> nodes_count (successes items) \<le> MAX_RETURNED_NODES"
  using validate_node_roots_iff [of "successes items" "()"]
  by (auto simp: node_batch_try_from_def split: sum.splits)

lemma batch_decoder:
  "dec_node_batch dd j =
     do { items \<leftarrow> (case body j of JArr xs \<Rightarrow> dec_all (dec_item_result (tree_of dd)) xs | _ \<Rightarrow> None);
          ok_of (node_batch_try_from items) }"
proof (rule option_eqI, unfold bind_eq_Some_conv ok_of_iff)
  fix b
  show "dec_node_batch dd j = Some b \<longleftrightarrow>
      (\<exists>items. (case body j of JArr xs \<Rightarrow> dec_all (dec_item_result (tree_of dd)) xs | _ \<Rightarrow> None) = Some items \<and>
        node_batch_try_from items = Inr b)"
  proof (cases "body j")
    case (JArr xs)
    have "dec_node_batch dd j = Some b \<longleftrightarrow> (\<exists>r'. dec_node_items dd MAX_RETURNED_NODES MAX_INPUT_IDS xs = Some (b, r'))"
      by (auto simp: dec_node_batch_def JArr)
    then show ?thesis
      unfolding items_decoder [OF order_refl] node_batch_try_from_iff
      using dec_all_length [of "dec_item_result (tree_of dd)" xs]
      by (auto simp: items_read_def JArr)
  qed (auto simp: dec_node_batch_def)
qed

text \<open>
  C11. A forest or a batch of nodes that is decoded under the one budget of nodes and the depth limit is
  exactly what a decoder without limits reads and the constructor of the forest or batch then accepts:
  at most 2,000 nodes in all, none deeper than six levels below its root, at most the allowed items.
  Counting while decoding refuses nothing that the validation would accept, and accepts nothing it would refuse.
\<close>

theorem budget_is_validation:
  "dec_node_forest dd j = do { nodes \<leftarrow> dec_tree_children dd j; ok_of (node_forest_try_from nodes) } \<and>
   dec_node_batch dd j =
     do { items \<leftarrow> (case body j of JArr xs \<Rightarrow> dec_all (dec_item_result (tree_of dd)) xs | _ \<Rightarrow> None);
          ok_of (node_batch_try_from items) } \<and>
   (ok_of (node_forest_try_from nodes) \<noteq> None \<longleftrightarrow>
      list_all (node_fits 0) nodes \<and> nodes_count nodes \<le> MAX_RETURNED_NODES)"
  unfolding forest_decoder [symmetric] batch_decoder [symmetric]
  by (simp add: ok_of_iff node_forest_try_from_iff)

end
