(* ===== verification/Navigation.thy ===== *)
theory Navigation
  imports Nodes Registry
begin

text \<open>
  Navigation: listing files, metadata, selections, nodes, search and design context
  (\<open>crates/protocol/src/domain/navigation.rs\<close>). Results that depend on the level of detail have a closed
  visitor made by one macro, in two forms. The inputs come with the serializer that writes them to the plugin.
\<close>

section \<open>Files and metadata\<close>

datatype list_files_input = ListFilesInput

definition dec_list_files_input :: "json \<Rightarrow> list_files_input option" where
  "dec_list_files_input j = do { _ \<leftarrow> struct_fields [] j; Some ListFilesInput }"

definition dec_live_file :: "(string \<Rightarrow> string option) \<Rightarrow> json \<Rightarrow> live_file option" where
  "dec_live_file hyphenated j =
     do { m \<leftarrow> struct_fields
            [(''connectionId'', False), (''displayName'', False), (''fileKey'', True),
             (''fileName'', False), (''currentPage'', False), (''editorType'', False),
             (''capabilities'', False), (''connectedAt'', False), (''lastSeenAt'', False)] j;
          connection_id \<leftarrow> field_req m ''connectionId'' (dec_connection_id hyphenated);
          display_name \<leftarrow> field_req m ''displayName'' (bounded_deserialize DISPLAY_TEXT);
          file_key \<leftarrow> field_opt m ''fileKey'' (bounded_deserialize FILE_KEY);
          file_name \<leftarrow> field_req m ''fileName'' (bounded_deserialize DISPLAY_TEXT);
          current_page \<leftarrow> field_req m ''currentPage'' dec_page_summary;
          editor_type \<leftarrow> field_req m ''editorType'' (bounded_deserialize DISPLAY_TEXT);
          capabilities \<leftarrow> field_req m ''capabilities'' dec_capability_set;
          connected_at \<leftarrow> field_req m ''connectedAt'' (bounded_deserialize DISPLAY_TEXT);
          last_seen_at \<leftarrow> field_req m ''lastSeenAt'' (bounded_deserialize DISPLAY_TEXT);
          Some \<lparr>lf_connection_id = connection_id, lf_display_name = display_name,
                lf_file_key = file_key, lf_file_name = file_name, lf_current_page = current_page,
                lf_editor_type = editor_type, lf_capabilities = capabilities,
                lf_connected_at = connected_at, lf_last_seen_at = last_seen_at\<rparr> }"

record list_files_result =
  lr_files :: "live_file list"
  lr_truncated :: bool
  lr_truncation :: "truncation option"
  lr_observation :: observation_window

definition dec_list_files_result :: "(string \<Rightarrow> string option) \<Rightarrow> json \<Rightarrow> list_files_result option" where
  "dec_list_files_result hyphenated j =
     do { m \<leftarrow> struct_fields
            [(''files'', False), (''truncated'', False), (''truncation'', True),
             (''observation'', False)] j;
          files \<leftarrow> field_req m ''files'' (dec_returned_list (dec_live_file hyphenated));
          truncated \<leftarrow> field_req m ''truncated'' dec_bool;
          truncation \<leftarrow> field_opt m ''truncation'' dec_truncation;
          observation \<leftarrow> field_req m ''observation'' dec_observation_window;
          Some \<lparr>lr_files = files, lr_truncated = truncated, lr_truncation = truncation,
                lr_observation = observation\<rparr> }"

record get_metadata_input =
  gmi_connection_id :: "string option"

definition dec_get_metadata_input :: "(string \<Rightarrow> string option) \<Rightarrow> json \<Rightarrow> get_metadata_input option" where
  "dec_get_metadata_input hyphenated j =
     do { m \<leftarrow> struct_fields
            [(''connectionId'', True)] j;
          connection_id \<leftarrow> field_opt m ''connectionId'' (dec_connection_id hyphenated);
          Some \<lparr>gmi_connection_id = connection_id\<rparr> }"

record file_metadata =
  fm_key :: "string option"
  fm_name :: string
  fm_editor_type :: string

definition dec_file_metadata :: "json \<Rightarrow> file_metadata option" where
  "dec_file_metadata j =
     do { m \<leftarrow> struct_fields
            [(''key'', True), (''name'', False), (''editorType'', False)] j;
          ky \<leftarrow> field_opt m ''key'' (bounded_deserialize FILE_KEY);
          name \<leftarrow> field_req m ''name'' (bounded_deserialize DISPLAY_TEXT);
          editor_type \<leftarrow> field_req m ''editorType'' (bounded_deserialize DISPLAY_TEXT);
          Some \<lparr>fm_key = ky, fm_name = name, fm_editor_type = editor_type\<rparr> }"

record get_metadata_result =
  gmr_file :: file_metadata
  gmr_pages :: "page_summary list"
  gmr_current_page_id :: string
  gmr_plugin_version :: string
  gmr_capabilities :: capability_set
  gmr_truncated :: bool
  gmr_truncation :: "truncation option"
  gmr_observation :: observation_window

definition dec_get_metadata_result :: "json \<Rightarrow> get_metadata_result option" where
  "dec_get_metadata_result j =
     do { m \<leftarrow> struct_fields
            [(''file'', False), (''pages'', False), (''currentPageId'', False),
             (''pluginVersion'', False), (''capabilities'', False), (''truncated'', False),
             (''truncation'', True), (''observation'', False)] j;
          file \<leftarrow> field_req m ''file'' dec_file_metadata;
          pages \<leftarrow> field_req m ''pages'' (dec_returned_list dec_page_summary);
          current_page_id \<leftarrow> field_req m ''currentPageId'' (bounded_deserialize PAGE_ID);
          plugin_version \<leftarrow> field_req m ''pluginVersion'' (bounded_deserialize DISPLAY_TEXT);
          capabilities \<leftarrow> field_req m ''capabilities'' dec_capability_set;
          truncated \<leftarrow> field_req m ''truncated'' dec_bool;
          truncation \<leftarrow> field_opt m ''truncation'' dec_truncation;
          observation \<leftarrow> field_req m ''observation'' dec_observation_window;
          Some \<lparr>gmr_file = file, gmr_pages = pages, gmr_current_page_id = current_page_id,
                gmr_plugin_version = plugin_version, gmr_capabilities = capabilities,
                gmr_truncated = truncated, gmr_truncation = truncation,
                gmr_observation = observation\<rparr> }"

section \<open>Selections and nodes\<close>

record get_selection_input =
  gsi_connection_id :: "string option"
  gsi_detail :: "detail_level option"
  gsi_depth :: "u8 option"

definition dec_get_selection_input :: "(string \<Rightarrow> string option) \<Rightarrow> json \<Rightarrow> get_selection_input option" where
  "dec_get_selection_input hyphenated j =
     do { m \<leftarrow> struct_fields
            [(''connectionId'', True), (''detail'', True), (''depth'', True)] j;
          connection_id \<leftarrow> field_opt m ''connectionId'' (dec_connection_id hyphenated);
          detail \<leftarrow> field_opt m ''detail'' dec_detail_level;
          depth \<leftarrow> field_default m ''depth'' None deserialize_optional_depth;
          Some \<lparr>gsi_connection_id = connection_id, gsi_detail = detail, gsi_depth = depth\<rparr> }"

record unresolved_node =
  un_id :: string
  un_error :: tool_error

definition dec_unresolved_node :: "json \<Rightarrow> unresolved_node option" where
  "dec_unresolved_node j =
     do { m \<leftarrow> struct_fields
            [(''id'', False), (''error'', False)] j;
          i \<leftarrow> field_req m ''id'' (bounded_deserialize NODE_ID);
          err \<leftarrow> field_req m ''error'' dec_tool_error;
          Some \<lparr>un_id = i, un_error = err\<rparr> }"

text \<open>
  The macro \<open>impl_detail_result_deserialize\<close>: the payload stays raw until the detail level is known; the
  variant of the level is an argument. The second form has one more field.
\<close>

definition DETAIL_FIELDS :: "string \<Rightarrow> (string \<times> (json \<Rightarrow> bool)) list" where
  "DETAIL_FIELDS payload_json =
     [(''detail'', accepts dec_detail_level), (payload_json, \<lambda>_. True), (''truncated'', accepts dec_bool),
      (''truncation'', accepts (dec_option dec_truncation)), (''observation'', accepts dec_observation_window)]"

definition dec_detail_result ::
    "string \<Rightarrow> (detail_level \<Rightarrow> json \<Rightarrow> bool \<Rightarrow> truncation option \<Rightarrow> observation_window \<Rightarrow> 'r option) \<Rightarrow> json
      \<Rightarrow> 'r option" where
  "dec_detail_result payload_json variant j =
     do { m \<leftarrow> visit_map (DETAIL_FIELDS payload_json) j;
          payload \<leftarrow> m payload_json;
          truncated \<leftarrow> field_req m ''truncated'' dec_bool;
          truncation \<leftarrow> field_opt m ''truncation'' dec_truncation;
          observation \<leftarrow> field_req m ''observation'' dec_observation_window;
          detail \<leftarrow> field_req m ''detail'' dec_detail_level;
          variant detail payload truncated truncation observation }"

definition dec_detail_result_with_unresolved ::
    "string \<Rightarrow> (detail_level \<Rightarrow> json \<Rightarrow> unresolved_node list \<Rightarrow> bool \<Rightarrow> truncation option \<Rightarrow> observation_window
      \<Rightarrow> 'r option) \<Rightarrow> json \<Rightarrow> 'r option" where
  "dec_detail_result_with_unresolved payload_json variant j =
     do { m \<leftarrow> visit_map (DETAIL_FIELDS payload_json @ [(''unresolved'', accepts (dec_returned_list dec_unresolved_node))]) j;
          payload \<leftarrow> m payload_json;
          truncated \<leftarrow> field_req m ''truncated'' dec_bool;
          truncation \<leftarrow> field_opt m ''truncation'' dec_truncation;
          unresolved \<leftarrow> field_default m ''unresolved'' [] (dec_returned_list dec_unresolved_node);
          observation \<leftarrow> field_req m ''observation'' dec_observation_window;
          detail \<leftarrow> field_req m ''detail'' dec_detail_level;
          variant detail payload unresolved truncated truncation observation }"

datatype get_selection_result =
    SelectionMinimal "minimal_node_details node_forest" "unresolved_node list" bool "truncation option" observation_window
  | SelectionCompact "compact_node_data node_forest" "unresolved_node list" bool "truncation option" observation_window
  | SelectionFull "full_node_data node_forest" "unresolved_node list" bool "truncation option" observation_window

fun selection_variant ::
    "detail_level \<Rightarrow> json \<Rightarrow> unresolved_node list \<Rightarrow> bool \<Rightarrow> truncation option \<Rightarrow> observation_window \<Rightarrow> get_selection_result option" where
  "selection_variant DetailMinimal payload unresolved truncated truncation observation =
     map_option (\<lambda>p. SelectionMinimal p unresolved truncated truncation observation)
       (decode_raw (dec_node_forest dec_minimal_node_details) payload)"
| "selection_variant DetailCompact payload unresolved truncated truncation observation =
     map_option (\<lambda>p. SelectionCompact p unresolved truncated truncation observation)
       (decode_raw (dec_node_forest dec_compact_node_data) payload)"
| "selection_variant DetailFull payload unresolved truncated truncation observation =
     map_option (\<lambda>p. SelectionFull p unresolved truncated truncation observation)
       (decode_raw (dec_node_forest dec_full_node_data) payload)"

definition dec_get_selection_result :: "json \<Rightarrow> get_selection_result option" where
  "dec_get_selection_result = dec_detail_result_with_unresolved ''nodes'' selection_variant"

record get_nodes_input =
  gni_connection_id :: "string option"
  gni_node_ids :: "string list"
  gni_detail :: "detail_level option"
  gni_depth :: "u8 option"

definition dec_get_nodes_input :: "(string \<Rightarrow> string option) \<Rightarrow> json \<Rightarrow> get_nodes_input option" where
  "dec_get_nodes_input hyphenated j =
     do { m \<leftarrow> struct_fields
            [(''connectionId'', True), (''nodeIds'', False), (''detail'', True), (''depth'', True)] j;
          connection_id \<leftarrow> field_opt m ''connectionId'' (dec_connection_id hyphenated);
          node_ids \<leftarrow> field_req m ''nodeIds'' dec_node_id_list;
          detail \<leftarrow> field_opt m ''detail'' dec_detail_level;
          depth \<leftarrow> field_default m ''depth'' None deserialize_optional_depth;
          Some \<lparr>gni_connection_id = connection_id, gni_node_ids = node_ids, gni_detail = detail,
                gni_depth = depth\<rparr> }"

datatype get_nodes_result =
    NodesMinimal "minimal_node_details node_batch" bool "truncation option" observation_window
  | NodesCompact "compact_node_data node_batch" bool "truncation option" observation_window
  | NodesFull "full_node_data node_batch" bool "truncation option" observation_window

fun nodes_variant ::
    "detail_level \<Rightarrow> json \<Rightarrow> bool \<Rightarrow> truncation option \<Rightarrow> observation_window \<Rightarrow> get_nodes_result option" where
  "nodes_variant DetailMinimal payload truncated truncation observation =
     map_option (\<lambda>p. NodesMinimal p truncated truncation observation)
       (decode_raw (dec_node_batch dec_minimal_node_details) payload)"
| "nodes_variant DetailCompact payload truncated truncation observation =
     map_option (\<lambda>p. NodesCompact p truncated truncation observation)
       (decode_raw (dec_node_batch dec_compact_node_data) payload)"
| "nodes_variant DetailFull payload truncated truncation observation =
     map_option (\<lambda>p. NodesFull p truncated truncation observation)
       (decode_raw (dec_node_batch dec_full_node_data) payload)"

definition dec_get_nodes_result :: "json \<Rightarrow> get_nodes_result option" where
  "dec_get_nodes_result = dec_detail_result ''items'' nodes_variant"

section \<open>Search\<close>

datatype search_scope = ScopePage string | ScopeNode string

definition dec_search_scope :: "json \<Rightarrow> search_scope option" where
  "dec_search_scope j = (case body j of
     JObj [(field, v)] \<Rightarrow>
       if field = ''pageId'' then map_option ScopePage (bounded_deserialize PAGE_ID v)
       else if field = ''nodeId'' then map_option ScopeNode (bounded_deserialize NODE_ID v)
       else None
   | _ \<Rightarrow> None)"

datatype search_match_mode =
    MatchContains | MatchExact

definition dec_search_match_mode :: "json \<Rightarrow> search_match_mode option" where
  "dec_search_match_mode = dec_unit_enum
     [(''contains'', MatchContains), (''exact'', MatchExact)]"

definition default_search_limit :: "16 word" where
  "default_search_limit = 50"

record search_nodes_input =
  sni_connection_id :: "string option"
  sni_scope :: search_scope
  sni_query :: "string option"
  sni_types :: "string list"
  sni_match :: search_match_mode
  sni_limit :: "16 word"
  sni_cursor :: "string option"

definition dec_search_nodes_input :: "(string \<Rightarrow> string option) \<Rightarrow> json \<Rightarrow> search_nodes_input option" where
  "dec_search_nodes_input hyphenated j =
     do { m \<leftarrow> struct_fields
            [(''connectionId'', True), (''scope'', False), (''query'', True), (''types'', True),
             (''match'', True), (''limit'', True), (''cursor'', True)] j;
          connection_id \<leftarrow> field_opt m ''connectionId'' (dec_connection_id hyphenated);
          scope \<leftarrow> field_req m ''scope'' dec_search_scope;
          query \<leftarrow> field_opt m ''query'' (bounded_deserialize QUERY_TEXT);
          types \<leftarrow> field_default m ''types'' [] dec_node_type_list;
          mtch \<leftarrow> field_default m ''match'' MatchContains dec_search_match_mode;
          lim \<leftarrow> field_default m ''limit'' default_search_limit deserialize_search_limit;
          cursor \<leftarrow> field_opt m ''cursor'' (bounded_deserialize SEARCH_CURSOR);
          Some \<lparr>sni_connection_id = connection_id, sni_scope = scope, sni_query = query,
                sni_types = types, sni_match = mtch, sni_limit = lim, sni_cursor = cursor\<rparr> }"

record node_match =
  nmt_node :: node_summary
  nmt_reasons :: "string list"

definition dec_node_match :: "json \<Rightarrow> node_match option" where
  "dec_node_match j =
     do { m \<leftarrow> struct_fields
            [(''node'', False), (''reasons'', False)] j;
          node \<leftarrow> field_req m ''node'' dec_node_summary;
          reasons \<leftarrow> field_req m ''reasons'' (dec_returned_list dec_str);
          Some \<lparr>nmt_node = node, nmt_reasons = reasons\<rparr> }"

record search_nodes_result =
  snr_matches :: "node_match list"
  snr_next_cursor :: "string option"
  snr_truncated :: bool
  snr_truncation :: "truncation option"
  snr_observation :: observation_window

definition dec_search_nodes_result :: "json \<Rightarrow> search_nodes_result option" where
  "dec_search_nodes_result j =
     do { m \<leftarrow> struct_fields
            [(''matches'', False), (''nextCursor'', True), (''truncated'', False),
             (''truncation'', True), (''observation'', False)] j;
          matches \<leftarrow> field_req m ''matches'' (dec_returned_list dec_node_match);
          next_cursor \<leftarrow> field_opt m ''nextCursor'' (bounded_deserialize SEARCH_CURSOR);
          truncated \<leftarrow> field_req m ''truncated'' dec_bool;
          truncation \<leftarrow> field_opt m ''truncation'' dec_truncation;
          observation \<leftarrow> field_req m ''observation'' dec_observation_window;
          Some \<lparr>snr_matches = matches, snr_next_cursor = next_cursor, snr_truncated = truncated,
                snr_truncation = truncation, snr_observation = observation\<rparr> }"

section \<open>Design context\<close>

record get_design_context_input =
  gdi_connection_id :: "string option"
  gdi_selector :: "selector option"
  gdi_depth :: "u8 option"
  gdi_detail :: "detail_level option"
  gdi_dedupe_components :: bool

definition dec_get_design_context_input :: "(string \<Rightarrow> string option) \<Rightarrow> json \<Rightarrow> get_design_context_input option" where
  "dec_get_design_context_input hyphenated j =
     do { m \<leftarrow> struct_fields
            [(''connectionId'', True), (''selector'', True), (''depth'', True), (''detail'', True),
             (''dedupeComponents'', True)] j;
          connection_id \<leftarrow> field_opt m ''connectionId'' (dec_connection_id hyphenated);
          selector \<leftarrow> field_opt m ''selector'' dec_selector;
          depth \<leftarrow> field_default m ''depth'' None deserialize_optional_depth;
          detail \<leftarrow> field_opt m ''detail'' dec_detail_level;
          dedupe_components \<leftarrow> field_default m ''dedupeComponents'' False dec_bool;
          Some \<lparr>gdi_connection_id = connection_id, gdi_selector = selector, gdi_depth = depth,
                gdi_detail = detail, gdi_dedupe_components = dedupe_components\<rparr> }"

datatype get_design_context_result =
    ContextMinimal "minimal_node_details node_forest" "unresolved_node list" bool "truncation option" observation_window
  | ContextCompact "compact_node_data node_forest" "unresolved_node list" bool "truncation option" observation_window
  | ContextFull "full_node_data node_forest" "unresolved_node list" bool "truncation option" observation_window

fun design_context_variant ::
    "detail_level \<Rightarrow> json \<Rightarrow> unresolved_node list \<Rightarrow> bool \<Rightarrow> truncation option \<Rightarrow> observation_window \<Rightarrow> get_design_context_result option" where
  "design_context_variant DetailMinimal payload unresolved truncated truncation observation =
     map_option (\<lambda>p. ContextMinimal p unresolved truncated truncation observation)
       (decode_raw (dec_node_forest dec_minimal_node_details) payload)"
| "design_context_variant DetailCompact payload unresolved truncated truncation observation =
     map_option (\<lambda>p. ContextCompact p unresolved truncated truncation observation)
       (decode_raw (dec_node_forest dec_compact_node_data) payload)"
| "design_context_variant DetailFull payload unresolved truncated truncation observation =
     map_option (\<lambda>p. ContextFull p unresolved truncated truncation observation)
       (decode_raw (dec_node_forest dec_full_node_data) payload)"

definition dec_get_design_context_result :: "json \<Rightarrow> get_design_context_result option" where
  "dec_get_design_context_result = dec_detail_result_with_unresolved ''roots'' design_context_variant"

end
