(* ===== verification/Handoff.thy ===== *)
theory Handoff
  imports Nodes
begin

text \<open>
  Developer handoff: styles, variables, components and fonts
  (\<open>crates/protocol/src/domain/handoff.rs\<close>). All are derived structs; the strings of a result are not
  bounded one by one, only their lists and the frame are.
\<close>

section \<open>Inputs\<close>

text \<open>The macro \<open>scoped_input\<close>, of which other inputs of the same shape are copies.\<close>

record scoped_input =
  sci_connection_id :: "string option"
  sci_selector :: "selector option"

definition dec_scoped_input :: "(string \<Rightarrow> string option) \<Rightarrow> json \<Rightarrow> scoped_input option" where
  "dec_scoped_input hyphenated j =
     do { m \<leftarrow> struct_fields
            [(''connectionId'', True), (''selector'', True)] j;
          connection_id \<leftarrow> field_opt m ''connectionId'' (dec_connection_id hyphenated);
          selector \<leftarrow> field_opt m ''selector'' dec_selector;
          Some \<lparr>sci_connection_id = connection_id, sci_selector = selector\<rparr> }"

type_synonym get_fonts_input = scoped_input

definition dec_get_fonts_input :: "(string \<Rightarrow> string option) \<Rightarrow> json \<Rightarrow> get_fonts_input option" where
  "dec_get_fonts_input = dec_scoped_input"

type_synonym get_components_input = scoped_input

definition dec_get_components_input :: "(string \<Rightarrow> string option) \<Rightarrow> json \<Rightarrow> get_components_input option" where
  "dec_get_components_input = dec_scoped_input"

datatype style_source =
    SourceLocal | SourceReferenced | SourceBoth

definition dec_style_source :: "json \<Rightarrow> style_source option" where
  "dec_style_source = dec_unit_enum
     [(''local'', SourceLocal), (''referenced'', SourceReferenced), (''both'', SourceBoth)]"

record get_styles_input =
  gty_connection_id :: "string option"
  gty_selector :: "selector option"
  gty_source :: style_source

definition dec_get_styles_input :: "(string \<Rightarrow> string option) \<Rightarrow> json \<Rightarrow> get_styles_input option" where
  "dec_get_styles_input hyphenated j =
     do { m \<leftarrow> struct_fields
            [(''connectionId'', True), (''selector'', True), (''source'', True)] j;
          connection_id \<leftarrow> field_opt m ''connectionId'' (dec_connection_id hyphenated);
          selector \<leftarrow> field_opt m ''selector'' dec_selector;
          src \<leftarrow> field_default m ''source'' SourceBoth dec_style_source;
          Some \<lparr>gty_connection_id = connection_id, gty_selector = selector, gty_source = src\<rparr> }"

record get_variables_input =
  gvi_connection_id :: "string option"
  gvi_selector :: "selector option"
  gvi_resolve_aliases :: bool

definition dec_get_variables_input :: "(string \<Rightarrow> string option) \<Rightarrow> json \<Rightarrow> get_variables_input option" where
  "dec_get_variables_input hyphenated j =
     do { m \<leftarrow> struct_fields
            [(''connectionId'', True), (''selector'', True), (''resolveAliases'', True)] j;
          connection_id \<leftarrow> field_opt m ''connectionId'' (dec_connection_id hyphenated);
          selector \<leftarrow> field_opt m ''selector'' dec_selector;
          resolve_aliases \<leftarrow> field_default m ''resolveAliases'' False dec_bool;
          Some \<lparr>gvi_connection_id = connection_id, gvi_selector = selector,
                gvi_resolve_aliases = resolve_aliases\<rparr> }"

section \<open>Styles and variables\<close>

record get_styles_result =
  gsr_styles :: "style_value list"
  gsr_truncated :: bool
  gsr_truncation :: "truncation option"
  gsr_observation :: observation_window

definition dec_get_styles_result :: "json \<Rightarrow> get_styles_result option" where
  "dec_get_styles_result j =
     do { m \<leftarrow> struct_fields
            [(''styles'', False), (''truncated'', False), (''truncation'', True),
             (''observation'', False)] j;
          styles \<leftarrow> field_req m ''styles'' (dec_returned_list dec_style_value);
          truncated \<leftarrow> field_req m ''truncated'' dec_bool;
          truncation \<leftarrow> field_opt m ''truncation'' dec_truncation;
          observation \<leftarrow> field_req m ''observation'' dec_observation_window;
          Some \<lparr>gsr_styles = styles, gsr_truncated = truncated, gsr_truncation = truncation,
                gsr_observation = observation\<rparr> }"

record variable_mode_error =
  vme_code :: error_code
  vme_retryable :: bool

definition dec_variable_mode_error :: "json \<Rightarrow> variable_mode_error option" where
  "dec_variable_mode_error j =
     do { m \<leftarrow> struct_fields
            [(''code'', False), (''retryable'', False)] j;
          cd \<leftarrow> field_req m ''code'' dec_code;
          retryable \<leftarrow> field_req m ''retryable'' dec_bool;
          Some \<lparr>vme_code = cd, vme_retryable = retryable\<rparr> }"

record variable_mode_value =
  vmv_mode_id :: string
  vmv_source :: variable_value
  vmv_resolved :: "variable_value option"
  vmv_error :: "variable_mode_error option"

definition dec_variable_mode_value :: "json \<Rightarrow> variable_mode_value option" where
  "dec_variable_mode_value j =
     do { m \<leftarrow> struct_fields
            [(''modeId'', False), (''source'', False), (''resolved'', True), (''error'', True)] j;
          mode_id \<leftarrow> field_req m ''modeId'' dec_str;
          src \<leftarrow> field_req m ''source'' dec_variable_value;
          resolved \<leftarrow> field_opt m ''resolved'' dec_variable_value;
          err \<leftarrow> field_opt m ''error'' dec_variable_mode_error;
          Some \<lparr>vmv_mode_id = mode_id, vmv_source = src, vmv_resolved = resolved, vmv_error = err\<rparr> }"

record code_syntax =
  csx_platform :: string
  csx_code :: string

definition dec_code_syntax :: "json \<Rightarrow> code_syntax option" where
  "dec_code_syntax j =
     do { m \<leftarrow> struct_fields
            [(''platform'', False), (''code'', False)] j;
          platform \<leftarrow> field_req m ''platform'' dec_str;
          cd \<leftarrow> field_req m ''code'' dec_str;
          Some \<lparr>csx_platform = platform, csx_code = cd\<rparr> }"

record variable_definition =
  vde_id :: string
  vde_name :: string
  vde_collection_id :: string
  vde_scopes :: "string list"
  vde_values :: "variable_mode_value list"
  vde_code_syntax :: "code_syntax list"

definition dec_variable_definition :: "json \<Rightarrow> variable_definition option" where
  "dec_variable_definition j =
     do { m \<leftarrow> struct_fields
            [(''id'', False), (''name'', False), (''collectionId'', False), (''scopes'', False),
             (''values'', False), (''codeSyntax'', False)] j;
          i \<leftarrow> field_req m ''id'' dec_str;
          name \<leftarrow> field_req m ''name'' dec_str;
          collection_id \<leftarrow> field_req m ''collectionId'' dec_str;
          scopes \<leftarrow> field_req m ''scopes'' (dec_returned_list dec_str);
          vals \<leftarrow> field_req m ''values'' (dec_returned_list dec_variable_mode_value);
          code_syntax \<leftarrow> field_req m ''codeSyntax'' (dec_returned_list dec_code_syntax);
          Some \<lparr>vde_id = i, vde_name = name, vde_collection_id = collection_id, vde_scopes = scopes,
                vde_values = vals, vde_code_syntax = code_syntax\<rparr> }"

record variable_mode =
  vmo_id :: string
  vmo_name :: string

definition dec_variable_mode :: "json \<Rightarrow> variable_mode option" where
  "dec_variable_mode j =
     do { m \<leftarrow> struct_fields
            [(''id'', False), (''name'', False)] j;
          i \<leftarrow> field_req m ''id'' dec_str;
          name \<leftarrow> field_req m ''name'' dec_str;
          Some \<lparr>vmo_id = i, vmo_name = name\<rparr> }"

record variable_collection =
  vco_id :: string
  vco_name :: string
  vco_modes :: "variable_mode list"
  vco_variables :: "variable_definition list"

definition dec_variable_collection :: "json \<Rightarrow> variable_collection option" where
  "dec_variable_collection j =
     do { m \<leftarrow> struct_fields
            [(''id'', False), (''name'', False), (''modes'', False), (''variables'', False)] j;
          i \<leftarrow> field_req m ''id'' dec_str;
          name \<leftarrow> field_req m ''name'' dec_str;
          modes \<leftarrow> field_req m ''modes'' (dec_returned_list dec_variable_mode);
          variables \<leftarrow> field_req m ''variables'' (dec_returned_list dec_variable_definition);
          Some \<lparr>vco_id = i, vco_name = name, vco_modes = modes, vco_variables = variables\<rparr> }"

record get_variables_result =
  gvr_collections :: "variable_collection list"
  gvr_truncated :: bool
  gvr_truncation :: "truncation option"
  gvr_observation :: observation_window

definition dec_get_variables_result :: "json \<Rightarrow> get_variables_result option" where
  "dec_get_variables_result j =
     do { m \<leftarrow> struct_fields
            [(''collections'', False), (''truncated'', False), (''truncation'', True),
             (''observation'', False)] j;
          collections \<leftarrow> field_req m ''collections'' (dec_returned_list dec_variable_collection);
          truncated \<leftarrow> field_req m ''truncated'' dec_bool;
          truncation \<leftarrow> field_opt m ''truncation'' dec_truncation;
          observation \<leftarrow> field_req m ''observation'' dec_observation_window;
          Some \<lparr>gvr_collections = collections, gvr_truncated = truncated,
                gvr_truncation = truncation, gvr_observation = observation\<rparr> }"

section \<open>Components and fonts\<close>

record documentation_reference =
  dre_label :: "string option"
  dre_uri :: string

definition dec_documentation_reference :: "json \<Rightarrow> documentation_reference option" where
  "dec_documentation_reference j =
     do { m \<leftarrow> struct_fields
            [(''label'', True), (''uri'', False)] j;
          lbl \<leftarrow> field_opt m ''label'' dec_str;
          uri \<leftarrow> field_req m ''uri'' dec_str;
          Some \<lparr>dre_label = lbl, dre_uri = uri\<rparr> }"

record component_property_definition =
  cpd_name :: string
  cpd_default_value :: component_property_value
  cpd_preferred_values :: "component_property_value list"

definition dec_component_property_definition :: "json \<Rightarrow> component_property_definition option" where
  "dec_component_property_definition j =
     do { m \<leftarrow> struct_fields
            [(''name'', False), (''defaultValue'', False), (''preferredValues'', True)] j;
          name \<leftarrow> field_req m ''name'' dec_str;
          default_value \<leftarrow> field_req m ''defaultValue'' dec_component_property_value;
          preferred_values \<leftarrow> field_default m ''preferredValues'' [] (dec_returned_list dec_component_property_value);
          Some \<lparr>cpd_name = name, cpd_default_value = default_value,
                cpd_preferred_values = preferred_values\<rparr> }"

record named_variant_property =
  nvp_name :: string
  nvp_value :: string

definition dec_named_variant_property :: "json \<Rightarrow> named_variant_property option" where
  "dec_named_variant_property j =
     do { m \<leftarrow> struct_fields
            [(''name'', False), (''value'', False)] j;
          name \<leftarrow> field_req m ''name'' dec_str;
          v \<leftarrow> field_req m ''value'' dec_str;
          Some \<lparr>nvp_name = name, nvp_value = v\<rparr> }"

record component_definition =
  cde_id :: string
  cde_name :: string
  cde_component_set_id :: "string option"
  cde_description :: "string option"
  cde_documentation :: "documentation_reference list"
  cde_variant_properties :: "named_variant_property list"
  cde_property_definitions :: "component_property_definition list"

definition dec_component_definition :: "json \<Rightarrow> component_definition option" where
  "dec_component_definition j =
     do { m \<leftarrow> struct_fields
            [(''id'', False), (''name'', False), (''componentSetId'', True),
             (''description'', True), (''documentation'', False), (''variantProperties'', False),
             (''propertyDefinitions'', False)] j;
          i \<leftarrow> field_req m ''id'' (bounded_deserialize NODE_ID);
          name \<leftarrow> field_req m ''name'' dec_str;
          component_set_id \<leftarrow> field_opt m ''componentSetId'' (bounded_deserialize NODE_ID);
          description \<leftarrow> field_opt m ''description'' dec_str;
          documentation \<leftarrow> field_req m ''documentation'' (dec_returned_list dec_documentation_reference);
          variant_properties \<leftarrow> field_req m ''variantProperties'' (dec_returned_list dec_named_variant_property);
          property_definitions \<leftarrow> field_req m ''propertyDefinitions'' (dec_returned_list dec_component_property_definition);
          Some \<lparr>cde_id = i, cde_name = name, cde_component_set_id = component_set_id,
                cde_description = description, cde_documentation = documentation,
                cde_variant_properties = variant_properties,
                cde_property_definitions = property_definitions\<rparr> }"

record instance_relationship =
  irl_instance_id :: string
  irl_component_id :: string

definition dec_instance_relationship :: "json \<Rightarrow> instance_relationship option" where
  "dec_instance_relationship j =
     do { m \<leftarrow> struct_fields
            [(''instanceId'', False), (''componentId'', False)] j;
          instance_id \<leftarrow> field_req m ''instanceId'' (bounded_deserialize NODE_ID);
          component_id \<leftarrow> field_req m ''componentId'' (bounded_deserialize NODE_ID);
          Some \<lparr>irl_instance_id = instance_id, irl_component_id = component_id\<rparr> }"

record get_components_result =
  gcr_components :: "component_definition list"
  gcr_instances :: "instance_relationship list"
  gcr_truncated :: bool
  gcr_truncation :: "truncation option"
  gcr_observation :: observation_window

definition dec_get_components_result :: "json \<Rightarrow> get_components_result option" where
  "dec_get_components_result j =
     do { m \<leftarrow> struct_fields
            [(''components'', False), (''instances'', False), (''truncated'', False),
             (''truncation'', True), (''observation'', False)] j;
          components \<leftarrow> field_req m ''components'' (dec_returned_list dec_component_definition);
          instances \<leftarrow> field_req m ''instances'' (dec_returned_list dec_instance_relationship);
          truncated \<leftarrow> field_req m ''truncated'' dec_bool;
          truncation \<leftarrow> field_opt m ''truncation'' dec_truncation;
          observation \<leftarrow> field_req m ''observation'' dec_observation_window;
          Some \<lparr>gcr_components = components, gcr_instances = instances, gcr_truncated = truncated,
                gcr_truncation = truncation, gcr_observation = observation\<rparr> }"

record font_name =
  fna_family :: string
  fna_style :: string

definition dec_font_name :: "json \<Rightarrow> font_name option" where
  "dec_font_name j =
     do { m \<leftarrow> struct_fields
            [(''family'', False), (''style'', False)] j;
          family \<leftarrow> field_req m ''family'' dec_str;
          style \<leftarrow> field_req m ''style'' dec_str;
          Some \<lparr>fna_family = family, fna_style = style\<rparr> }"

datatype font_availability =
    FontAvailable | FontUnavailable | FontUnknown

definition dec_font_availability :: "json \<Rightarrow> font_availability option" where
  "dec_font_availability = dec_unit_enum
     [(''available'', FontAvailable), (''unavailable'', FontUnavailable), (''unknown'', FontUnknown)]"

record font_usage =
  fus_font :: font_name
  fus_availability :: font_availability
  fus_node_ids :: "string list"

definition dec_font_usage :: "json \<Rightarrow> font_usage option" where
  "dec_font_usage j =
     do { m \<leftarrow> struct_fields
            [(''font'', False), (''availability'', False), (''nodeIds'', False)] j;
          font \<leftarrow> field_req m ''font'' dec_font_name;
          availability \<leftarrow> field_req m ''availability'' dec_font_availability;
          node_ids \<leftarrow> field_req m ''nodeIds'' dec_node_id_list;
          Some \<lparr>fus_font = font, fus_availability = availability, fus_node_ids = node_ids\<rparr> }"

record get_fonts_result =
  gfr_fonts :: "font_usage list"
  gfr_truncated :: bool
  gfr_truncation :: "truncation option"
  gfr_observation :: observation_window

definition dec_get_fonts_result :: "json \<Rightarrow> get_fonts_result option" where
  "dec_get_fonts_result j =
     do { m \<leftarrow> struct_fields
            [(''fonts'', False), (''truncated'', False), (''truncation'', True),
             (''observation'', False)] j;
          fonts \<leftarrow> field_req m ''fonts'' (dec_returned_list dec_font_usage);
          truncated \<leftarrow> field_req m ''truncated'' dec_bool;
          truncation \<leftarrow> field_opt m ''truncation'' dec_truncation;
          observation \<leftarrow> field_req m ''observation'' dec_observation_window;
          Some \<lparr>gfr_fonts = fonts, gfr_truncated = truncated, gfr_truncation = truncation,
                gfr_observation = observation\<rparr> }"

end
