(* ===== verification/Prototype.thy ===== *)
theory Prototype
  imports Handoff
begin

text \<open>
  Dev Mode data, prototype reactions and motion (\<open>crates/protocol/src/domain/prototype.rs\<close>). Besides
  derived structs there are a hand-written visitor of the reaction actions, enums tagged inside their
  object, whose derived decoder buffers the other fields, and one untagged enum.
\<close>

section \<open>Tagged and untagged enums\<close>

text \<open>
  The derived decoder of an internally tagged enum: the object form, where the tag may stand anywhere, and
  the sequence form with the tag first. The variant decodes from what is left; a variant without fields
  accepts any object, and of a sequence only one in which nothing is left.
\<close>

definition dec_internally_tagged ::
    "string \<Rightarrow> (string \<times> 't) list \<Rightarrow> ('t \<Rightarrow> json \<Rightarrow> 'a option) \<Rightarrow> json \<Rightarrow> 'a option" where
  "dec_internally_tagged tag_field tags variant j = (case body j of
     JObj kvs \<Rightarrow> (case filter (\<lambda>kv. fst kv = tag_field) kvs of
         [(_, v)] \<Rightarrow> do { s \<leftarrow> dec_str v; tag \<leftarrow> map_of tags s;
                          variant tag (Json 0 (JObj (filter (\<lambda>kv. fst kv \<noteq> tag_field) kvs))) }
       | _ \<Rightarrow> None)
   | JArr (v # xs) \<Rightarrow> do { s \<leftarrow> dec_str v; tag \<leftarrow> map_of tags s; variant tag (Json 0 (JArr xs)) }
   | _ \<Rightarrow> None)"

text \<open>An untagged enum: the first variant that decodes.\<close>

fun dec_untagged :: "(json \<Rightarrow> 'a option) list \<Rightarrow> json \<Rightarrow> 'a option" where
  "dec_untagged [] j = None"
| "dec_untagged (d # ds) j = (case d j of Some a \<Rightarrow> Some a | None \<Rightarrow> dec_untagged ds j)"

text \<open>A \<open>Vec\<close> without a bound of its own.\<close>

definition dec_vec :: "(json \<Rightarrow> 'a option) \<Rightarrow> json \<Rightarrow> 'a list option" where
  "dec_vec d j = (case body j of JArr xs \<Rightarrow> dec_all d xs | _ \<Rightarrow> None)"

section \<open>Dev Mode data\<close>

type_synonym get_dev_mode_data_input = scoped_input

definition dec_get_dev_mode_data_input :: "(string \<Rightarrow> string option) \<Rightarrow> json \<Rightarrow> get_dev_mode_data_input option" where
  "dec_get_dev_mode_data_input = dec_scoped_input"

type_synonym get_reactions_input = scoped_input

definition dec_get_reactions_input :: "(string \<Rightarrow> string option) \<Rightarrow> json \<Rightarrow> get_reactions_input option" where
  "dec_get_reactions_input = dec_scoped_input"

record annotation_value =
  ava_id :: string
  ava_category_id :: "string option"
  ava_text :: string

definition dec_annotation_value :: "json \<Rightarrow> annotation_value option" where
  "dec_annotation_value j =
     do { m \<leftarrow> struct_fields
            [(''id'', False), (''categoryId'', True), (''text'', False)] j;
          i \<leftarrow> field_req m ''id'' dec_str;
          category_id \<leftarrow> field_opt m ''categoryId'' dec_str;
          txt \<leftarrow> field_req m ''text'' dec_str;
          Some \<lparr>ava_id = i, ava_category_id = category_id, ava_text = txt\<rparr> }"

record annotation_category =
  aca_id :: string
  aca_label :: string

definition dec_annotation_category :: "json \<Rightarrow> annotation_category option" where
  "dec_annotation_category j =
     do { m \<leftarrow> struct_fields
            [(''id'', False), (''label'', False)] j;
          i \<leftarrow> field_req m ''id'' dec_str;
          lbl \<leftarrow> field_req m ''label'' dec_str;
          Some \<lparr>aca_id = i, aca_label = lbl\<rparr> }"

record dev_resource =
  dvr_name :: string
  dvr_uri :: string

definition dec_dev_resource :: "json \<Rightarrow> dev_resource option" where
  "dec_dev_resource j =
     do { m \<leftarrow> struct_fields
            [(''name'', False), (''uri'', False)] j;
          name \<leftarrow> field_req m ''name'' dec_str;
          uri \<leftarrow> field_req m ''uri'' dec_str;
          Some \<lparr>dvr_name = name, dvr_uri = uri\<rparr> }"

record dev_mode_node_data =
  dmn_node_id :: string
  dmn_description :: "string option"
  dmn_description_markdown :: "string option"
  dmn_annotations :: "annotation_value list"
  dmn_annotation_categories :: "annotation_category list"
  dmn_documentation :: "dev_resource list"
  dmn_dev_resources :: "dev_resource list"
  dmn_owner_node_id :: "string option"
  dmn_inherited_from_node_id :: "string option"

definition dec_dev_mode_node_data :: "json \<Rightarrow> dev_mode_node_data option" where
  "dec_dev_mode_node_data j =
     do { m \<leftarrow> struct_fields
            [(''nodeId'', False), (''description'', True), (''descriptionMarkdown'', True),
             (''annotations'', False), (''annotationCategories'', False),
             (''documentation'', False), (''devResources'', False), (''ownerNodeId'', True),
             (''inheritedFromNodeId'', True)] j;
          node_id \<leftarrow> field_req m ''nodeId'' (bounded_deserialize NODE_ID);
          description \<leftarrow> field_opt m ''description'' dec_str;
          description_markdown \<leftarrow> field_opt m ''descriptionMarkdown'' dec_str;
          annotations \<leftarrow> field_req m ''annotations'' (dec_returned_list dec_annotation_value);
          annotation_categories \<leftarrow> field_req m ''annotationCategories'' (dec_returned_list dec_annotation_category);
          documentation \<leftarrow> field_req m ''documentation'' (dec_returned_list dec_dev_resource);
          dev_resources \<leftarrow> field_req m ''devResources'' (dec_returned_list dec_dev_resource);
          owner_node_id \<leftarrow> field_opt m ''ownerNodeId'' (bounded_deserialize NODE_ID);
          inherited_from_node_id \<leftarrow> field_opt m ''inheritedFromNodeId'' (bounded_deserialize NODE_ID);
          Some \<lparr>dmn_node_id = node_id, dmn_description = description,
                dmn_description_markdown = description_markdown, dmn_annotations = annotations,
                dmn_annotation_categories = annotation_categories,
                dmn_documentation = documentation, dmn_dev_resources = dev_resources,
                dmn_owner_node_id = owner_node_id,
                dmn_inherited_from_node_id = inherited_from_node_id\<rparr> }"

record get_dev_mode_data_result =
  gdr_items :: "dev_mode_node_data item_result list"
  gdr_visited_nodes :: u64
  gdr_truncated :: bool
  gdr_truncation :: "truncation option"
  gdr_observation :: observation_window

definition dec_get_dev_mode_data_result :: "json \<Rightarrow> get_dev_mode_data_result option" where
  "dec_get_dev_mode_data_result j =
     do { m \<leftarrow> struct_fields
            [(''items'', False), (''visitedNodes'', False), (''truncated'', False),
             (''truncation'', True), (''observation'', False)] j;
          items \<leftarrow> field_req m ''items'' (dec_returned_list (dec_item_result dec_dev_mode_node_data));
          visited_nodes \<leftarrow> field_req m ''visitedNodes'' dec_usize;
          truncated \<leftarrow> field_req m ''truncated'' dec_bool;
          truncation \<leftarrow> field_opt m ''truncation'' dec_truncation;
          observation \<leftarrow> field_req m ''observation'' dec_observation_window;
          Some \<lparr>gdr_items = items, gdr_visited_nodes = visited_nodes, gdr_truncated = truncated,
                gdr_truncation = truncation, gdr_observation = observation\<rparr> }"

section \<open>Reactions\<close>

datatype reaction_trigger =
    TriggerClick | TriggerDrag | TriggerHover | TriggerPress | TriggerKeyDown
  | TriggerAfterDelay | TriggerMouseEnter | TriggerMouseLeave | TriggerMouseUp
  | TriggerMouseDown | TriggerMediaHit | TriggerMediaEnd

definition dec_reaction_trigger :: "json \<Rightarrow> reaction_trigger option" where
  "dec_reaction_trigger = dec_unit_enum
     [(''click'', TriggerClick), (''drag'', TriggerDrag), (''hover'', TriggerHover),
      (''press'', TriggerPress), (''keyDown'', TriggerKeyDown), (''afterDelay'', TriggerAfterDelay),
      (''mouseEnter'', TriggerMouseEnter), (''mouseLeave'', TriggerMouseLeave),
      (''mouseUp'', TriggerMouseUp), (''mouseDown'', TriggerMouseDown),
      (''mediaHit'', TriggerMediaHit), (''mediaEnd'', TriggerMediaEnd)]"

datatype reaction_action =
    ActionNavigate "string option"
  | ActionOpenOverlay "string option"
  | ActionSwapOverlay "string option"
  | ActionCloseOverlay
  | ActionBack
  | ActionChangeTo "string option"
  | ActionScrollTo "string option"
  | ActionOpenLink string
  | ActionSetVariable "string option"
  | ActionSetVariableMode "string option" "string option"
  | ActionConditional
  | ActionUpdateMediaRuntime string "string option" "f64 option" "f64 option"

datatype reaction_action_tag =
    TagNavigate | TagOpenOverlay | TagSwapOverlay | TagCloseOverlay | TagBack | TagChangeTo
  | TagScrollTo | TagOpenLink | TagSetVariable | TagSetVariableMode | TagConditional
  | TagUpdateMediaRuntime

definition dec_reaction_action_tag :: "json \<Rightarrow> reaction_action_tag option" where
  "dec_reaction_action_tag = dec_unit_enum
     [(''navigate'', TagNavigate), (''openOverlay'', TagOpenOverlay),
      (''swapOverlay'', TagSwapOverlay), (''closeOverlay'', TagCloseOverlay), (''back'', TagBack),
      (''changeTo'', TagChangeTo), (''scrollTo'', TagScrollTo), (''openLink'', TagOpenLink),
      (''setVariable'', TagSetVariable), (''setVariableMode'', TagSetVariableMode),
      (''conditional'', TagConditional), (''updateMediaRuntime'', TagUpdateMediaRuntime)]"

definition REACTION_ACTION_FIELDS :: "(string \<times> (json \<Rightarrow> bool)) list" where
  "REACTION_ACTION_FIELDS =
     [(''type'', accepts dec_reaction_action_tag), (''destinationId'', accepts (bounded_deserialize NODE_ID)),
      (''uri'', accepts dec_str), (''variableId'', accepts dec_str), (''variableCollectionId'', accepts dec_str),
      (''variableModeId'', accepts dec_str), (''mediaAction'', accepts dec_str),
      (''amountToSkip'', accepts dec_f64), (''newTimestamp'', accepts dec_f64)]"

fun reaction_variant ::
    "(string \<Rightarrow> json option) \<Rightarrow> reaction_action_tag \<Rightarrow> string option \<Rightarrow> reaction_action option" where
  "reaction_variant m TagNavigate dest = (if any_field m [''uri''] then None else Some (ActionNavigate dest))"
| "reaction_variant m TagOpenOverlay dest = (if any_field m [''uri''] then None else Some (ActionOpenOverlay dest))"
| "reaction_variant m TagSwapOverlay dest = (if any_field m [''uri''] then None else Some (ActionSwapOverlay dest))"
| "reaction_variant m TagChangeTo dest = (if any_field m [''uri''] then None else Some (ActionChangeTo dest))"
| "reaction_variant m TagScrollTo dest = (if any_field m [''uri''] then None else Some (ActionScrollTo dest))"
| "reaction_variant m TagOpenLink dest =
     (if dest \<noteq> None then None else map_option ActionOpenLink (field_req m ''uri'' dec_str))"
| "reaction_variant m TagCloseOverlay dest =
     (if dest \<noteq> None \<or> any_field m [''uri''] then None else Some ActionCloseOverlay)"
| "reaction_variant m TagBack dest =
     (if dest \<noteq> None \<or> any_field m [''uri''] then None else Some ActionBack)"
| "reaction_variant m TagSetVariable dest = map_option ActionSetVariable (field_slot m ''variableId'' dec_str)"
| "reaction_variant m TagSetVariableMode dest =
     do { variable_collection_id \<leftarrow> field_slot m ''variableCollectionId'' dec_str;
          variable_mode_id \<leftarrow> field_slot m ''variableModeId'' dec_str;
          Some (ActionSetVariableMode variable_collection_id variable_mode_id) }"
| "reaction_variant m TagConditional dest = Some ActionConditional"
| "reaction_variant m TagUpdateMediaRuntime dest =
     do { media_action \<leftarrow> field_req m ''mediaAction'' dec_str;
          amount_to_skip \<leftarrow> field_slot m ''amountToSkip'' dec_f64;
          new_timestamp \<leftarrow> field_slot m ''newTimestamp'' dec_f64;
          Some (ActionUpdateMediaRuntime media_action dest amount_to_skip new_timestamp) }"

definition dec_reaction_action :: "json \<Rightarrow> reaction_action option" where
  "dec_reaction_action j =
     do { m \<leftarrow> visit_map REACTION_ACTION_FIELDS j;
          tag \<leftarrow> field_req m ''type'' dec_reaction_action_tag;
          destination_id \<leftarrow> field_slot m ''destinationId'' (bounded_deserialize NODE_ID);
          reaction_variant m tag destination_id }"

datatype overlay_position_type =
    PositionCenter | PositionTopLeft | PositionTopCenter | PositionTopRight | PositionBottomLeft
  | PositionBottomCenter | PositionBottomRight | PositionManual

definition dec_overlay_position_type :: "json \<Rightarrow> overlay_position_type option" where
  "dec_overlay_position_type = dec_unit_enum
     [(''center'', PositionCenter), (''topLeft'', PositionTopLeft),
      (''topCenter'', PositionTopCenter), (''topRight'', PositionTopRight),
      (''bottomLeft'', PositionBottomLeft), (''bottomCenter'', PositionBottomCenter),
      (''bottomRight'', PositionBottomRight), (''manual'', PositionManual)]"

datatype overlay_background_interaction =
    InteractionNone | InteractionCloseOnClickOutside

definition dec_overlay_background_interaction :: "json \<Rightarrow> overlay_background_interaction option" where
  "dec_overlay_background_interaction = dec_unit_enum
     [(''none'', InteractionNone), (''closeOnClickOutside'', InteractionCloseOnClickOutside)]"

datatype overlay_background = BackgroundNone | BackgroundSolidColor color

datatype overlay_background_tag = TagBackgroundNone | TagSolidColor

fun overlay_background_variant :: "overlay_background_tag \<Rightarrow> json \<Rightarrow> overlay_background option" where
  "overlay_background_variant TagBackgroundNone j =
     (case body j of JArr (x # xs) \<Rightarrow> None | _ \<Rightarrow> Some BackgroundNone)"
| "overlay_background_variant TagSolidColor j =
     do { m \<leftarrow> struct_fields [(''color'', False)] j;
          map_option BackgroundSolidColor (field_req m ''color'' dec_color) }"

definition dec_overlay_background :: "json \<Rightarrow> overlay_background option" where
  "dec_overlay_background = dec_internally_tagged ''type''
     [(''none'', TagBackgroundNone), (''solidColor'', TagSolidColor)] overlay_background_variant"

record vector2 =
  ve2_x :: f64
  ve2_y :: f64

definition dec_vector2 :: "json \<Rightarrow> vector2 option" where
  "dec_vector2 j =
     do { m \<leftarrow> struct_fields
            [(''x'', False), (''y'', False)] j;
          x \<leftarrow> field_req m ''x'' dec_f64;
          y \<leftarrow> field_req m ''y'' dec_f64;
          Some \<lparr>ve2_x = x, ve2_y = y\<rparr> }"

record reaction_overlay =
  rov_relative_position :: "vector2 option"
  rov_position_type :: "overlay_position_type option"
  rov_background :: "overlay_background option"
  rov_background_interaction :: "overlay_background_interaction option"

definition dec_reaction_overlay :: "json \<Rightarrow> reaction_overlay option" where
  "dec_reaction_overlay j =
     do { m \<leftarrow> struct_fields
            [(''relativePosition'', True), (''positionType'', True), (''background'', True),
             (''backgroundInteraction'', True)] j;
          relative_position \<leftarrow> field_opt m ''relativePosition'' dec_vector2;
          position_type \<leftarrow> field_opt m ''positionType'' dec_overlay_position_type;
          background \<leftarrow> field_opt m ''background'' dec_overlay_background;
          background_interaction \<leftarrow> field_opt m ''backgroundInteraction'' dec_overlay_background_interaction;
          Some \<lparr>rov_relative_position = relative_position, rov_position_type = position_type,
                rov_background = background, rov_background_interaction = background_interaction\<rparr> }"

record reaction =
  rea_trigger :: reaction_trigger
  rea_action :: reaction_action
  rea_transition_id :: "string option"
  rea_transition_duration :: "f64 option"
  rea_destination_accessible :: bool
  rea_overlay :: "reaction_overlay option"
  rea_timeout :: "f64 option"
  rea_delay :: "f64 option"
  rea_key_codes :: "u32 list option"
  rea_device :: "string option"
  rea_media_hit_time :: "f64 option"

definition dec_reaction :: "json \<Rightarrow> reaction option" where
  "dec_reaction j =
     do { m \<leftarrow> struct_fields
            [(''trigger'', False), (''action'', False), (''transitionId'', True),
             (''transitionDuration'', True), (''destinationAccessible'', False),
             (''overlay'', True), (''timeout'', True), (''delay'', True), (''keyCodes'', True),
             (''device'', True), (''mediaHitTime'', True)] j;
          trg \<leftarrow> field_req m ''trigger'' dec_reaction_trigger;
          act \<leftarrow> field_req m ''action'' dec_reaction_action;
          transition_id \<leftarrow> field_opt m ''transitionId'' dec_str;
          transition_duration \<leftarrow> field_opt m ''transitionDuration'' dec_f64;
          destination_accessible \<leftarrow> field_req m ''destinationAccessible'' dec_bool;
          overlay \<leftarrow> field_opt m ''overlay'' dec_reaction_overlay;
          timeout \<leftarrow> field_opt m ''timeout'' dec_f64;
          delay \<leftarrow> field_opt m ''delay'' dec_f64;
          key_codes \<leftarrow> field_opt m ''keyCodes'' (dec_vec dec_u32);
          device \<leftarrow> field_opt m ''device'' dec_str;
          media_hit_time \<leftarrow> field_opt m ''mediaHitTime'' dec_f64;
          Some \<lparr>rea_trigger = trg, rea_action = act, rea_transition_id = transition_id,
                rea_transition_duration = transition_duration,
                rea_destination_accessible = destination_accessible, rea_overlay = overlay,
                rea_timeout = timeout, rea_delay = delay, rea_key_codes = key_codes,
                rea_device = device, rea_media_hit_time = media_hit_time\<rparr> }"

record node_reactions =
  nre_node_id :: string
  nre_reactions :: "reaction list"

definition dec_node_reactions :: "json \<Rightarrow> node_reactions option" where
  "dec_node_reactions j =
     do { m \<leftarrow> struct_fields
            [(''nodeId'', False), (''reactions'', False)] j;
          node_id \<leftarrow> field_req m ''nodeId'' (bounded_deserialize NODE_ID);
          reactions \<leftarrow> field_req m ''reactions'' (dec_returned_list dec_reaction);
          Some \<lparr>nre_node_id = node_id, nre_reactions = reactions\<rparr> }"

record get_reactions_result =
  grr_items :: "node_reactions item_result list"
  grr_visited_nodes :: u64
  grr_truncated :: bool
  grr_truncation :: "truncation option"
  grr_observation :: observation_window

definition dec_get_reactions_result :: "json \<Rightarrow> get_reactions_result option" where
  "dec_get_reactions_result j =
     do { m \<leftarrow> struct_fields
            [(''items'', False), (''visitedNodes'', False), (''truncated'', False),
             (''truncation'', True), (''observation'', False)] j;
          items \<leftarrow> field_req m ''items'' (dec_returned_list (dec_item_result dec_node_reactions));
          visited_nodes \<leftarrow> field_req m ''visitedNodes'' dec_usize;
          truncated \<leftarrow> field_req m ''truncated'' dec_bool;
          truncation \<leftarrow> field_opt m ''truncation'' dec_truncation;
          observation \<leftarrow> field_req m ''observation'' dec_observation_window;
          Some \<lparr>grr_items = items, grr_visited_nodes = visited_nodes, grr_truncated = truncated,
                grr_truncation = truncation, grr_observation = observation\<rparr> }"

section \<open>Motion\<close>

record get_motion_input =
  gmo_connection_id :: "string option"
  gmo_selector :: "selector option"
  gmo_include_available_styles :: bool

definition dec_get_motion_input :: "(string \<Rightarrow> string option) \<Rightarrow> json \<Rightarrow> get_motion_input option" where
  "dec_get_motion_input hyphenated j =
     do { m \<leftarrow> struct_fields
            [(''connectionId'', True), (''selector'', True), (''includeAvailableStyles'', True)] j;
          connection_id \<leftarrow> field_opt m ''connectionId'' (dec_connection_id hyphenated);
          selector \<leftarrow> field_opt m ''selector'' dec_selector;
          include_available_styles \<leftarrow> field_default m ''includeAvailableStyles'' False dec_bool;
          Some \<lparr>gmo_connection_id = connection_id, gmo_selector = selector,
                gmo_include_available_styles = include_available_styles\<rparr> }"

datatype motion_easing_type =
    EasingLinear | EasingEaseIn | EasingEaseOut | EasingEaseInAndOut | EasingEaseInBack
  | EasingEaseOutBack | EasingEaseInAndOutBack | EasingCustomCubicBezier | EasingGentle
  | EasingQuick | EasingBouncy | EasingSlow | EasingCustomSpring | EasingHold
  | EasingVariableAlias

definition dec_motion_easing_type :: "json \<Rightarrow> motion_easing_type option" where
  "dec_motion_easing_type = dec_unit_enum
     [(''LINEAR'', EasingLinear), (''EASE_IN'', EasingEaseIn), (''EASE_OUT'', EasingEaseOut),
      (''EASE_IN_AND_OUT'', EasingEaseInAndOut), (''EASE_IN_BACK'', EasingEaseInBack),
      (''EASE_OUT_BACK'', EasingEaseOutBack), (''EASE_IN_AND_OUT_BACK'', EasingEaseInAndOutBack),
      (''CUSTOM_CUBIC_BEZIER'', EasingCustomCubicBezier), (''GENTLE'', EasingGentle),
      (''QUICK'', EasingQuick), (''BOUNCY'', EasingBouncy), (''SLOW'', EasingSlow),
      (''CUSTOM_SPRING'', EasingCustomSpring), (''HOLD'', EasingHold),
      (''VARIABLE_ALIAS'', EasingVariableAlias)]"

record cubic_bezier =
  cbz_x1 :: f64
  cbz_y1 :: f64
  cbz_x2 :: f64
  cbz_y2 :: f64

definition dec_cubic_bezier :: "json \<Rightarrow> cubic_bezier option" where
  "dec_cubic_bezier j =
     do { m \<leftarrow> struct_fields
            [(''x1'', False), (''y1'', False), (''x2'', False), (''y2'', False)] j;
          x1 \<leftarrow> field_req m ''x1'' dec_f64;
          y1 \<leftarrow> field_req m ''y1'' dec_f64;
          x2 \<leftarrow> field_req m ''x2'' dec_f64;
          y2 \<leftarrow> field_req m ''y2'' dec_f64;
          Some \<lparr>cbz_x1 = x1, cbz_y1 = y1, cbz_x2 = x2, cbz_y2 = y2\<rparr> }"

record normalized_spring =
  nsp_bounce :: f64

definition dec_normalized_spring :: "json \<Rightarrow> normalized_spring option" where
  "dec_normalized_spring j =
     do { m \<leftarrow> struct_fields
            [(''bounce'', False)] j;
          bounce \<leftarrow> field_req m ''bounce'' dec_f64;
          Some \<lparr>nsp_bounce = bounce\<rparr> }"

record motion_easing =
  mea_easing_type :: motion_easing_type
  mea_easing_function_cubic_bezier :: "cubic_bezier option"
  mea_easing_function_spring :: "normalized_spring option"
  mea_id :: "string option"

definition dec_motion_easing :: "json \<Rightarrow> motion_easing option" where
  "dec_motion_easing j =
     do { m \<leftarrow> struct_fields
            [(''type'', False), (''easingFunctionCubicBezier'', True),
             (''easingFunctionSpring'', True), (''id'', True)] j;
          easing_type \<leftarrow> field_req m ''type'' dec_motion_easing_type;
          easing_function_cubic_bezier \<leftarrow> field_opt m ''easingFunctionCubicBezier'' dec_cubic_bezier;
          easing_function_spring \<leftarrow> field_opt m ''easingFunctionSpring'' dec_normalized_spring;
          i \<leftarrow> field_opt m ''id'' dec_str;
          Some \<lparr>mea_easing_type = easing_type,
                mea_easing_function_cubic_bezier = easing_function_cubic_bezier,
                mea_easing_function_spring = easing_function_spring, mea_id = i\<rparr> }"

record circle_value =
  cva_x :: f64
  cva_y :: f64
  cva_radius :: f64

definition dec_circle_value :: "json \<Rightarrow> circle_value option" where
  "dec_circle_value j =
     do { m \<leftarrow> struct_fields
            [(''x'', False), (''y'', False), (''radius'', False)] j;
          x \<leftarrow> field_req m ''x'' dec_f64;
          y \<leftarrow> field_req m ''y'' dec_f64;
          radius \<leftarrow> field_req m ''radius'' dec_f64;
          Some \<lparr>cva_x = x, cva_y = y, cva_radius = radius\<rparr> }"

record line_value =
  lva_x :: f64
  lva_y :: f64
  lva_x2 :: f64
  lva_y2 :: f64

definition dec_line_value :: "json \<Rightarrow> line_value option" where
  "dec_line_value j =
     do { m \<leftarrow> struct_fields
            [(''x'', False), (''y'', False), (''x2'', False), (''y2'', False)] j;
          x \<leftarrow> field_req m ''x'' dec_f64;
          y \<leftarrow> field_req m ''y'' dec_f64;
          x2 \<leftarrow> field_req m ''x2'' dec_f64;
          y2 \<leftarrow> field_req m ''y2'' dec_f64;
          Some \<lparr>lva_x = x, lva_y = y, lva_x2 = x2, lva_y2 = y2\<rparr> }"

record circle_point_value =
  cpv_x :: f64
  cpv_y :: f64
  cpv_radius :: f64
  cpv_angle :: f64

definition dec_circle_point_value :: "json \<Rightarrow> circle_point_value option" where
  "dec_circle_point_value j =
     do { m \<leftarrow> struct_fields
            [(''x'', False), (''y'', False), (''radius'', False), (''angle'', False)] j;
          x \<leftarrow> field_req m ''x'' dec_f64;
          y \<leftarrow> field_req m ''y'' dec_f64;
          radius \<leftarrow> field_req m ''radius'' dec_f64;
          angle \<leftarrow> field_req m ''angle'' dec_f64;
          Some \<lparr>cpv_x = x, cpv_y = y, cpv_radius = radius, cpv_angle = angle\<rparr> }"

record color_point_value =
  cop_x :: f64
  cop_y :: f64
  cop_color :: color

definition dec_color_point_value :: "json \<Rightarrow> color_point_value option" where
  "dec_color_point_value j =
     do { m \<leftarrow> struct_fields
            [(''x'', False), (''y'', False), (''color'', False)] j;
          x \<leftarrow> field_req m ''x'' dec_f64;
          y \<leftarrow> field_req m ''y'' dec_f64;
          color \<leftarrow> field_req m ''color'' dec_color;
          Some \<lparr>cop_x = x, cop_y = y, cop_color = color\<rparr> }"

datatype motion_keyframe_value =
    KeyframeFloat f64
  | KeyframeColor color
  | KeyframeTextData string
  | KeyframeVector vector2
  | KeyframeBool bool
  | KeyframeCircle circle_value
  | KeyframeLine line_value
  | KeyframeCirclePoint circle_point_value
  | KeyframeColorPoint color_point_value
  | KeyframeUnsupported string

datatype motion_keyframe_tag =
    TagKeyframeFloat | TagKeyframeColor | TagKeyframeTextData | TagKeyframeVector
  | TagKeyframeBool | TagKeyframeCircle | TagKeyframeLine | TagKeyframeCirclePoint
  | TagKeyframeColorPoint | TagKeyframeUnsupported

definition one_field :: "string \<Rightarrow> (json \<Rightarrow> 'a option) \<Rightarrow> json \<Rightarrow> 'a option" where
  "one_field f d j = do { m \<leftarrow> struct_fields [(f, False)] j; field_req m f d }"

fun motion_keyframe_variant :: "motion_keyframe_tag \<Rightarrow> json \<Rightarrow> motion_keyframe_value option" where
  "motion_keyframe_variant TagKeyframeFloat j = map_option KeyframeFloat (one_field ''value'' dec_f64 j)"
| "motion_keyframe_variant TagKeyframeColor j = map_option KeyframeColor (one_field ''value'' dec_color j)"
| "motion_keyframe_variant TagKeyframeTextData j = map_option KeyframeTextData (one_field ''value'' dec_str j)"
| "motion_keyframe_variant TagKeyframeVector j = map_option KeyframeVector (one_field ''value'' dec_vector2 j)"
| "motion_keyframe_variant TagKeyframeBool j = map_option KeyframeBool (one_field ''value'' dec_bool j)"
| "motion_keyframe_variant TagKeyframeCircle j = map_option KeyframeCircle (one_field ''value'' dec_circle_value j)"
| "motion_keyframe_variant TagKeyframeLine j = map_option KeyframeLine (one_field ''value'' dec_line_value j)"
| "motion_keyframe_variant TagKeyframeCirclePoint j = map_option KeyframeCirclePoint (one_field ''value'' dec_circle_point_value j)"
| "motion_keyframe_variant TagKeyframeColorPoint j = map_option KeyframeColorPoint (one_field ''value'' dec_color_point_value j)"
| "motion_keyframe_variant TagKeyframeUnsupported j = map_option KeyframeUnsupported (one_field ''tag'' dec_str j)"

definition dec_motion_keyframe_value :: "json \<Rightarrow> motion_keyframe_value option" where
  "dec_motion_keyframe_value = dec_internally_tagged ''type''
     [(''FLOAT'', TagKeyframeFloat), (''COLOR'', TagKeyframeColor),
      (''TEXT_DATA'', TagKeyframeTextData), (''VECTOR'', TagKeyframeVector),
      (''BOOL'', TagKeyframeBool), (''CIRCLE'', TagKeyframeCircle), (''LINE'', TagKeyframeLine),
      (''CIRCLE_POINT'', TagKeyframeCirclePoint), (''COLOR_POINT'', TagKeyframeColorPoint),
      (''unsupported'', TagKeyframeUnsupported)]
     motion_keyframe_variant"

datatype applied_style_prop_value =
    PropString string | PropBoolean bool | PropNumber f64 | PropEasing motion_easing

definition dec_applied_style_prop_value :: "json \<Rightarrow> applied_style_prop_value option" where
  "dec_applied_style_prop_value = dec_untagged
     [map_option PropString \<circ> dec_str, map_option PropBoolean \<circ> dec_bool,
      map_option PropNumber \<circ> dec_f64, map_option PropEasing \<circ> dec_motion_easing]"

record applied_style_prop =
  asp_name :: string
  asp_value :: applied_style_prop_value

definition dec_applied_style_prop :: "json \<Rightarrow> applied_style_prop option" where
  "dec_applied_style_prop j =
     do { m \<leftarrow> struct_fields
            [(''name'', False), (''value'', False)] j;
          name \<leftarrow> field_req m ''name'' dec_str;
          v \<leftarrow> field_req m ''value'' dec_applied_style_prop_value;
          Some \<lparr>asp_name = name, asp_value = v\<rparr> }"

record available_style_prop =
  avp_name :: string
  avp_value :: string

definition dec_available_style_prop :: "json \<Rightarrow> available_style_prop option" where
  "dec_available_style_prop j =
     do { m \<leftarrow> struct_fields
            [(''name'', False), (''value'', False)] j;
          name \<leftarrow> field_req m ''name'' dec_str;
          v \<leftarrow> field_req m ''value'' dec_str;
          Some \<lparr>avp_name = name, avp_value = v\<rparr> }"

record applied_animation_style =
  aas_id :: string
  aas_style_id :: string
  aas_name :: string
  aas_duration :: "f64 option"
  aas_timeline_offset :: "f64 option"
  aas_props :: "applied_style_prop list option"

definition dec_applied_animation_style :: "json \<Rightarrow> applied_animation_style option" where
  "dec_applied_animation_style j =
     do { m \<leftarrow> struct_fields
            [(''id'', False), (''styleId'', False), (''name'', False), (''duration'', True),
             (''timelineOffset'', True), (''props'', True)] j;
          i \<leftarrow> field_req m ''id'' dec_str;
          style_id \<leftarrow> field_req m ''styleId'' dec_str;
          name \<leftarrow> field_req m ''name'' dec_str;
          duration \<leftarrow> field_opt m ''duration'' dec_f64;
          timeline_offset \<leftarrow> field_opt m ''timelineOffset'' dec_f64;
          props \<leftarrow> field_opt m ''props'' (dec_returned_list dec_applied_style_prop);
          Some \<lparr>aas_id = i, aas_style_id = style_id, aas_name = name, aas_duration = duration,
                aas_timeline_offset = timeline_offset, aas_props = props\<rparr> }"

record available_animation_style =
  avs_style_id :: string
  avs_name :: string
  avs_description :: "string option"
  avs_props :: "available_style_prop list option"

definition dec_available_animation_style :: "json \<Rightarrow> available_animation_style option" where
  "dec_available_animation_style j =
     do { m \<leftarrow> struct_fields
            [(''styleId'', False), (''name'', False), (''description'', True), (''props'', True)] j;
          style_id \<leftarrow> field_req m ''styleId'' dec_str;
          name \<leftarrow> field_req m ''name'' dec_str;
          description \<leftarrow> field_opt m ''description'' dec_str;
          props \<leftarrow> field_opt m ''props'' (dec_returned_list dec_available_style_prop);
          Some \<lparr>avs_style_id = style_id, avs_name = name, avs_description = description,
                avs_props = props\<rparr> }"

datatype indexed_collection =
    CollectionFills | CollectionStrokes | CollectionEffects

definition dec_indexed_collection :: "json \<Rightarrow> indexed_collection option" where
  "dec_indexed_collection = dec_unit_enum
     [(''fills'', CollectionFills), (''strokes'', CollectionStrokes),
      (''effects'', CollectionEffects)]"

datatype keyframe_field =
    FieldProperty string
  | FieldIndexedItem indexed_collection u32 "string option" "string option"

datatype keyframe_field_tag = TagProperty | TagIndexedItem

fun keyframe_field_variant :: "keyframe_field_tag \<Rightarrow> json \<Rightarrow> keyframe_field option" where
  "keyframe_field_variant TagProperty j = map_option FieldProperty (one_field ''name'' dec_str j)"
| "keyframe_field_variant TagIndexedItem j =
     do { m \<leftarrow> struct_fields
            [(''collection'', False), (''index'', False), (''field'', True), (''property_id'', True)] j;
          collection \<leftarrow> field_req m ''collection'' dec_indexed_collection;
          index \<leftarrow> field_req m ''index'' dec_u32;
          fld \<leftarrow> field_opt m ''field'' dec_str;
          property_id \<leftarrow> field_opt m ''property_id'' dec_str;
          Some (FieldIndexedItem collection index fld property_id) }"

definition dec_keyframe_field :: "json \<Rightarrow> keyframe_field option" where
  "dec_keyframe_field = dec_internally_tagged ''type''
     [(''property'', TagProperty), (''indexedItem'', TagIndexedItem)] keyframe_field_variant"

datatype keyframe_operation =
    KeyframeSet | KeyframeOffset | KeyframeScale

definition dec_keyframe_operation :: "json \<Rightarrow> keyframe_operation option" where
  "dec_keyframe_operation = dec_unit_enum
     [(''SET'', KeyframeSet), (''OFFSET'', KeyframeOffset), (''SCALE'', KeyframeScale)]"

record motion_keyframe =
  mkf_id :: string
  mkf_timeline_position :: f64
  mkf_value :: motion_keyframe_value
  mkf_easing :: motion_easing

definition dec_motion_keyframe :: "json \<Rightarrow> motion_keyframe option" where
  "dec_motion_keyframe j =
     do { m \<leftarrow> struct_fields
            [(''id'', False), (''timelinePosition'', False), (''value'', False), (''easing'', False)] j;
          i \<leftarrow> field_req m ''id'' dec_str;
          timeline_position \<leftarrow> field_req m ''timelinePosition'' dec_f64;
          v \<leftarrow> field_req m ''value'' dec_motion_keyframe_value;
          easing \<leftarrow> field_req m ''easing'' dec_motion_easing;
          Some \<lparr>mkf_id = i, mkf_timeline_position = timeline_position, mkf_value = v,
                mkf_easing = easing\<rparr> }"

record animation_track =
  atr_id :: string
  atr_keyframe_operation :: keyframe_operation
  atr_keyframes :: "motion_keyframe list"

definition dec_animation_track :: "json \<Rightarrow> animation_track option" where
  "dec_animation_track j =
     do { m \<leftarrow> struct_fields
            [(''id'', False), (''keyframeOperation'', False), (''keyframes'', False)] j;
          i \<leftarrow> field_req m ''id'' dec_str;
          keyframe_operation \<leftarrow> field_req m ''keyframeOperation'' dec_keyframe_operation;
          keyframes \<leftarrow> field_req m ''keyframes'' (dec_returned_list dec_motion_keyframe);
          Some \<lparr>atr_id = i, atr_keyframe_operation = keyframe_operation, atr_keyframes = keyframes\<rparr> }"

record animation_binding =
  abi_field :: keyframe_field
  abi_base_value :: motion_keyframe_value
  abi_timeline_duration :: f64
  abi_tracks :: "animation_track list"

definition dec_animation_binding :: "json \<Rightarrow> animation_binding option" where
  "dec_animation_binding j =
     do { m \<leftarrow> struct_fields
            [(''field'', False), (''baseValue'', False), (''timelineDuration'', False),
             (''tracks'', False)] j;
          fld \<leftarrow> field_req m ''field'' dec_keyframe_field;
          base_value \<leftarrow> field_req m ''baseValue'' dec_motion_keyframe_value;
          timeline_duration \<leftarrow> field_req m ''timelineDuration'' dec_f64;
          tracks \<leftarrow> field_req m ''tracks'' (dec_returned_list dec_animation_track);
          Some \<lparr>abi_field = fld, abi_base_value = base_value,
                abi_timeline_duration = timeline_duration, abi_tracks = tracks\<rparr> }"

record manual_track_binding =
  mtb_field :: keyframe_field
  mtb_id :: string
  mtb_base_value :: motion_keyframe_value
  mtb_keyframes :: "motion_keyframe list"

definition dec_manual_track_binding :: "json \<Rightarrow> manual_track_binding option" where
  "dec_manual_track_binding j =
     do { m \<leftarrow> struct_fields
            [(''field'', False), (''id'', False), (''baseValue'', False), (''keyframes'', False)] j;
          fld \<leftarrow> field_req m ''field'' dec_keyframe_field;
          i \<leftarrow> field_req m ''id'' dec_str;
          base_value \<leftarrow> field_req m ''baseValue'' dec_motion_keyframe_value;
          keyframes \<leftarrow> field_req m ''keyframes'' (dec_returned_list dec_motion_keyframe);
          Some \<lparr>mtb_field = fld, mtb_id = i, mtb_base_value = base_value, mtb_keyframes = keyframes\<rparr> }"

record motion_timeline =
  mtl_id :: string
  mtl_duration :: f64

definition dec_motion_timeline :: "json \<Rightarrow> motion_timeline option" where
  "dec_motion_timeline j =
     do { m \<leftarrow> struct_fields
            [(''id'', False), (''duration'', False)] j;
          i \<leftarrow> field_req m ''id'' dec_str;
          duration \<leftarrow> field_req m ''duration'' dec_f64;
          Some \<lparr>mtl_id = i, mtl_duration = duration\<rparr> }"

record node_motion =
  nmo_node_id :: string
  nmo_animation_styles :: "applied_animation_style list"
  nmo_animations :: "animation_binding list"
  nmo_manual_keyframe_tracks :: "manual_track_binding list"
  nmo_timelines :: "motion_timeline list"

definition dec_node_motion :: "json \<Rightarrow> node_motion option" where
  "dec_node_motion j =
     do { m \<leftarrow> struct_fields
            [(''nodeId'', False), (''animationStyles'', False), (''animations'', False),
             (''manualKeyframeTracks'', False), (''timelines'', False)] j;
          node_id \<leftarrow> field_req m ''nodeId'' (bounded_deserialize NODE_ID);
          animation_styles \<leftarrow> field_req m ''animationStyles'' (dec_returned_list dec_applied_animation_style);
          animations \<leftarrow> field_req m ''animations'' (dec_returned_list dec_animation_binding);
          manual_keyframe_tracks \<leftarrow> field_req m ''manualKeyframeTracks'' (dec_returned_list dec_manual_track_binding);
          timelines \<leftarrow> field_req m ''timelines'' (dec_returned_list dec_motion_timeline);
          Some \<lparr>nmo_node_id = node_id, nmo_animation_styles = animation_styles,
                nmo_animations = animations, nmo_manual_keyframe_tracks = manual_keyframe_tracks,
                nmo_timelines = timelines\<rparr> }"

record get_motion_result =
  gmn_items :: "node_motion item_result list"
  gmn_visited_nodes :: u64
  gmn_available_styles :: "available_animation_style list"
  gmn_truncated :: bool
  gmn_truncation :: "truncation option"
  gmn_observation :: observation_window

definition dec_get_motion_result :: "json \<Rightarrow> get_motion_result option" where
  "dec_get_motion_result j =
     do { m \<leftarrow> struct_fields
            [(''items'', False), (''visitedNodes'', False), (''availableStyles'', True),
             (''truncated'', False), (''truncation'', True), (''observation'', False)] j;
          items \<leftarrow> field_req m ''items'' (dec_returned_list (dec_item_result dec_node_motion));
          visited_nodes \<leftarrow> field_req m ''visitedNodes'' dec_usize;
          available_styles \<leftarrow> field_default m ''availableStyles'' [] (dec_returned_list dec_available_animation_style);
          truncated \<leftarrow> field_req m ''truncated'' dec_bool;
          truncation \<leftarrow> field_opt m ''truncation'' dec_truncation;
          observation \<leftarrow> field_req m ''observation'' dec_observation_window;
          Some \<lparr>gmn_items = items, gmn_visited_nodes = visited_nodes,
                gmn_available_styles = available_styles, gmn_truncated = truncated,
                gmn_truncation = truncation, gmn_observation = observation\<rparr> }"

section \<open>What the decoders refuse and drop\<close>

text \<open>
  A motion result with one node and one animation, whose keyframe field is the argument, and the field of
  an animated sub-property of an item of a collection, whose identifier stands under a given key.
\<close>

definition js_zero :: json where
  "js_zero = Json 3 (JNum (Float 0))"

fun collection_name :: "indexed_collection \<Rightarrow> string" where
  "collection_name CollectionFills = ''fills''"
| "collection_name CollectionStrokes = ''strokes''"
| "collection_name CollectionEffects = ''effects''"

definition sub_property :: "string \<Rightarrow> indexed_collection \<Rightarrow> u32 \<Rightarrow> string option \<Rightarrow> string \<Rightarrow> json" where
  "sub_property key collection index fld p = js_obj ([(''type'', js_str ''indexedItem''),
     (''collection'', js_str (collection_name collection)), (''index'', js_uint (ucast index))] @
     enc_opt ''field'' js_str fld @ [(key, js_str p)])"

definition animation_on :: "json \<Rightarrow> json" where
  "animation_on fld = js_obj [(''field'', fld),
     (''baseValue'', js_obj [(''type'', js_str ''FLOAT''), (''value'', js_zero)]),
     (''timelineDuration'', js_zero), (''tracks'', js_arr [])]"

definition motion_of :: "json \<Rightarrow> json" where
  "motion_of animation = js_obj [(''nodeId'', js_str ''1:2''), (''animationStyles'', js_arr []),
     (''animations'', js_arr [animation]), (''manualKeyframeTracks'', js_arr []), (''timelines'', js_arr [])]"

definition motion_result :: "json \<Rightarrow> json" where
  "motion_result fld = js_obj
     [(''items'', js_arr [js_obj [(''status'', js_str ''success''), (''value'', motion_of (animation_on fld))]]),
      (''visitedNodes'', js_uint 1), (''truncated'', js_bool False),
      (''observation'', js_obj [(''startedAt'', js_str ''s''), (''completedAt'', js_str ''c'')])]"

lemmas field_lookup = field_req_def field_opt_def field_default_def dec_option_def

lemma dec_js_zero: "dec_f64 js_zero = Some 0"
  by (simp add: js_zero_def dec_f64_def)

lemma dec_returned_list_js: "length xs \<le> MAX_RETURNED_NODES \<Longrightarrow> dec_returned_list d (js_arr xs) = dec_all d xs"
proof -
  assume "length xs \<le> MAX_RETURNED_NODES"
  then have "dec_returned_list d (js_arr xs) = Some ys \<longleftrightarrow> dec_all d xs = Some ys" for ys
    by (simp add: dec_returned_list_def dec_bounded_list_def visit_seq_iff dec_all_iff)
  then show ?thesis by (rule option_eqI)
qed

lemma dec_u32_uint: "dec_u32 (js_uint (ucast (n :: u32))) = Some n"
proof -
  have "unat n < 2 ^ 32" using unsigned_less [of n, where ?'a = nat] by simp
  then have "(ucast n :: u64) < 2 ^ 32" by (simp add: word_less_nat_alt unsigned_ucast_eq take_bit_nat_eq_self)
  moreover have "ucast (ucast n :: u64) = n" by (rule bit_word_eqI) (simp add: bit_unsigned_iff)
  ultimately show ?thesis by (simp add: dec_u32_def)
qed

lemma dec_sub_property:
  "dec_keyframe_field (sub_property ''propertyId'' c n fld p) = None"
  "dec_keyframe_field (sub_property ''property_id'' c n fld p) = Some (FieldIndexedItem c n fld (Some p))"
  by (cases c; cases fld; simp add: dec_keyframe_field_def dec_internally_tagged_def sub_property_def struct_fields_def
      field_lookup dec_indexed_collection_def dec_u32_uint)+

lemma dec_animation_on:
  "dec_animation_binding (animation_on fld) = map_option (\<lambda>f. \<lparr>abi_field = f, abi_base_value = KeyframeFloat 0,
     abi_timeline_duration = 0, abi_tracks = []\<rparr>) (dec_keyframe_field fld)"
proof -
  have "dec_motion_keyframe_value (js_obj [(''type'', js_str ''FLOAT''), (''value'', js_zero)]) = Some (KeyframeFloat 0)"
    by (simp add: dec_motion_keyframe_value_def dec_internally_tagged_def one_field_def struct_fields_def
        field_lookup dec_js_zero)
  then show ?thesis
    by (cases "dec_keyframe_field fld")
      (simp_all add: dec_animation_binding_def animation_on_def field_lookup dec_js_zero dec_returned_list_js)
qed

lemma dec_motion_of:
  "dec_node_motion (motion_of animation) = map_option (\<lambda>a. \<lparr>nmo_node_id = ''1:2'', nmo_animation_styles = [],
     nmo_animations = [a], nmo_manual_keyframe_tracks = [], nmo_timelines = []\<rparr>) (dec_animation_binding animation)"
  by (cases "dec_animation_binding animation")
    (simp_all add: dec_node_motion_def motion_of_def field_lookup dec_returned_list_js bounded_deserialize_def
      bounded_try_from_def validate_boundary_string_def newtype_defs limit_defs)

lemma dec_success_item:
  "dec_item_result d (js_obj [(''status'', js_str ''success''), (''value'', v)]) = map_option ItemSuccess (d v)"
  by (cases "d v") (simp_all add: dec_item_result_def visit_map_def accepts_def field_req_def field_slot_def
      dec_item_result_status_def)

lemma dec_motion_result:
  "dec_get_motion_result (motion_result fld) = None \<longleftrightarrow> dec_keyframe_field fld = None"
    by (cases "dec_keyframe_field fld")
      (simp_all add: dec_get_motion_result_def motion_result_def field_lookup dec_returned_list_js dec_motion_of
        dec_animation_on dec_usize_def dec_observation_window_def bounded_deserialize_def
        bounded_try_from_def validate_boundary_string_def newtype_defs limit_defs dec_success_item)

text \<open>Every keyframe field of a result: the members and elements on the way to one, in object form.\<close>

definition object_member :: "string \<Rightarrow> json \<Rightarrow> json list" where
  "object_member key j = (case body j of JObj kvs \<Rightarrow> map snd (filter (\<lambda>kv. fst kv = key) kvs) | _ \<Rightarrow> [])"

definition array_elements :: "json \<Rightarrow> json list" where
  "array_elements j = (case body j of JArr xs \<Rightarrow> xs | _ \<Rightarrow> [])"

definition listed_members :: "string \<Rightarrow> json \<Rightarrow> json list" where
  "listed_members key j = concat (map array_elements (object_member key j))"

definition keyframe_fields :: "json \<Rightarrow> json list" where
  "keyframe_fields j = [f.
     item \<leftarrow> listed_members ''items'' j, motion \<leftarrow> object_member ''value'' item,
     binding \<leftarrow> listed_members ''animations'' motion @ listed_members ''manualKeyframeTracks'' motion,
     f \<leftarrow> object_member ''field'' binding]"

lemma struct_member:
  "struct_fields spec j = Some m \<Longrightarrow> v \<in> set (object_member k j) \<Longrightarrow> m k = Some v"
  by (auto simp: struct_fields_def object_member_def split: jbody.splits if_splits)

lemma visited_member:
  "visit_map spec j = Some m \<Longrightarrow> v \<in> set (object_member k j) \<Longrightarrow> \<exists>ok. map_of spec k = Some ok \<and> ok v"
  by (auto simp: visit_map_iff object_member_def simp del: map_of_eq_Some_iff)

lemma listed_element: "dec_returned_list d j = Some ys \<Longrightarrow> x \<in> set (array_elements j) \<Longrightarrow> d x \<noteq> None"
proof -
  assume "dec_returned_list d j = Some ys" and x: "x \<in> set (array_elements j)"
  then have "map d (array_elements j) = map Some ys"
    by (auto simp: dec_returned_list_def dec_bounded_list_def array_elements_def visit_seq_iff split: jbody.splits)
  then have "d x \<in> set (map Some ys)" using x by (metis image_eqI list.set_map)
  then show ?thesis by auto
qed

lemma struct_list:
  assumes "struct_fields spec j = Some m" and "field_req m k (dec_returned_list d) = Some ys"
    and "x \<in> set (listed_members k j)"
  shows "d x \<noteq> None"
proof -
  obtain v where v: "v \<in> set (object_member k j)" "x \<in> set (array_elements v)"
    using assms(3) by (auto simp: listed_members_def)
  then show ?thesis
    using struct_member [OF assms(1) v(1)] assms(2) listed_element [of d v ys x] by (simp add: field_req_def)
qed

lemma binding_field:
  assumes "dec_animation_binding j \<noteq> None \<or> dec_manual_track_binding j \<noteq> None" and "f \<in> set (object_member ''field'' j)"
  shows "dec_keyframe_field f \<noteq> None"
  using assms struct_member [of _ j _ f "''field''"]
  by (fastforce simp: dec_animation_binding_def dec_manual_track_binding_def bind_eq_Some_conv field_req_def)

lemma motion_binding:
  assumes "dec_node_motion j \<noteq> None"
    and "b \<in> set (listed_members ''animations'' j @ listed_members ''manualKeyframeTracks'' j)"
  shows "dec_animation_binding b \<noteq> None \<or> dec_manual_track_binding b \<noteq> None"
proof -
  obtain spec m animations tracks where "struct_fields spec j = Some m"
    "field_req m ''animations'' (dec_returned_list dec_animation_binding) = Some animations"
    "field_req m ''manualKeyframeTracks'' (dec_returned_list dec_manual_track_binding) = Some tracks"
    using assms(1) by (auto simp: dec_node_motion_def bind_eq_Some_conv)
  from struct_list [OF this(1,2), of b] struct_list [OF this(1,3), of b] assms(2) show ?thesis by auto
qed

lemma item_value: "dec_item_result d j \<noteq> None \<Longrightarrow> v \<in> set (object_member ''value'' j) \<Longrightarrow> d v \<noteq> None"
  using visited_member [of _ j _ v "''value''"]
  by (fastforce simp: dec_item_result_def bind_eq_Some_conv accepts_def)

lemma keyframe_field_decoded:
  assumes "dec_get_motion_result j \<noteq> None" and "f \<in> set (keyframe_fields j)"
  shows "dec_keyframe_field f \<noteq> None"
proof -
  obtain item motion b where f: "item \<in> set (listed_members ''items'' j)" "motion \<in> set (object_member ''value'' item)"
    "b \<in> set (listed_members ''animations'' motion @ listed_members ''manualKeyframeTracks'' motion)"
    "f \<in> set (object_member ''field'' b)"
    using assms(2) by (auto simp: keyframe_fields_def)
  obtain spec m items where "struct_fields spec j = Some m"
    "field_req m ''items'' (dec_returned_list (dec_item_result dec_node_motion)) = Some items"
    using assms(1) by (auto simp: dec_get_motion_result_def bind_eq_Some_conv)
  from item_value [OF struct_list [OF this f(1)] f(2)] have "dec_node_motion motion \<noteq> None" .
  from binding_field [OF motion_binding [OF this f(3)] f(4)] show ?thesis .
qed

lemma property_id_refused:
  assumes "object_member ''propertyId'' f \<noteq> []"
  shows "dec_keyframe_field f = None"
proof -
  obtain kvs v where f: "body f = JObj kvs" "(''propertyId'', v) \<in> set kvs"
    using assms by (auto simp: object_member_def filter_empty_conv split: jbody.splits)
  let ?rest = "Json 0 (JObj (filter (\<lambda>kv. fst kv \<noteq> ''type'') kvs))"
  have "keyframe_field_variant tag ?rest = None" for tag
    using f(2) by (cases tag) (auto simp: one_field_def struct_fields_def image_subset_iff)
  then show ?thesis
    by (auto simp: dec_keyframe_field_def dec_internally_tagged_def f(1) bind_eq_None_conv split: list.split prod.split)
qed

text \<open>
  C29. A motion result that names an animated sub-property the way the plugin writes it does not decode: one
  keyframe field with the key \<open>propertyId\<close>, in the animations or in the manual tracks of any item, makes the
  whole result undecodable, whatever else it holds. The same field with the key \<open>property_id\<close>, which the
  derived decoder asks for, decodes to the sub-property it names, for every collection, index, field and
  identifier, and so does a result that holds it.
\<close>

theorem animated_subproperty_refused:
  "((\<exists>f \<in> set (keyframe_fields j). object_member ''propertyId'' f \<noteq> []) \<longrightarrow> dec_get_motion_result j = None) \<and>
   dec_keyframe_field (sub_property ''property_id'' collection index fld p) =
     Some (FieldIndexedItem collection index fld (Some p)) \<and>
   dec_get_motion_result (motion_result (sub_property ''property_id'' collection index fld p)) \<noteq> None"
proof (intro conjI impI)
  show "dec_get_motion_result j = None" if "\<exists>f \<in> set (keyframe_fields j). object_member ''propertyId'' f \<noteq> []"
    using that keyframe_field_decoded property_id_refused by blast
qed (simp_all add: dec_motion_result dec_sub_property)

theorem animated_subproperty_refused_witness:
  "dec_get_motion_result (motion_result (sub_property ''propertyId'' CollectionFills 1 (Some ''color'') ''p'')) = None"
proof -
  let ?f = "sub_property ''propertyId'' CollectionFills 1 (Some ''color'') ''p''"
  have "?f \<in> set (keyframe_fields (motion_result ?f))"
    by (simp add: keyframe_fields_def listed_members_def array_elements_def object_member_def motion_result_def
        motion_of_def animation_on_def)
  moreover have "object_member ''propertyId'' ?f \<noteq> []" by (simp add: object_member_def sub_property_def)
  ultimately show ?thesis using animated_subproperty_refused [of "motion_result ?f"] by blast
qed

text \<open>
  The visitor of the reaction actions is not closed: an action decodes although it carries fields of
  other actions, and they are lost.
\<close>

theorem reaction_fields_dropped:
  "dec_reaction_action (js_obj [(''type'', js_str ''conditional''), (''uri'', js_str u), (''mediaAction'', js_str a)]) =
     Some ActionConditional \<and>
   dec_reaction_action (js_obj [(''type'', js_str ''setVariable''), (''variableId'', js_str v), (''uri'', js_str u)]) =
     Some (ActionSetVariable (Some v)) \<and>
   dec_reaction_action (js_obj [(''type'', js_str ''navigate''), (''mediaAction'', js_str a)]) =
     Some (ActionNavigate None) \<and>
   dec_reaction_action (js_obj [(''type'', js_str ''back''), (''uri'', js_str u)]) = None"
  by (simp add: dec_reaction_action_def REACTION_ACTION_FIELDS_def visit_map_def accepts_def any_field_def
      field_req_def field_slot_def dec_reaction_action_tag_def)

end
