(* ===== verification/Visual.thy ===== *)
theory Visual
  imports Nodes
begin

text \<open>
  Screenshots (\<open>crates/protocol/src/domain/visual.rs\<close>): what may be asked for, and the assets that
  come back with their bounds and the safety verdict of an SVG.
\<close>

section \<open>Inputs\<close>

datatype screenshot_selector = ShotSelection selection_flag | ShotNode string | ShotNodes "string list"

definition dec_screenshot_selector :: "json \<Rightarrow> screenshot_selector option" where
  "dec_screenshot_selector j = (case body j of
     JObj [(field, v)] \<Rightarrow>
       if field = ''selection'' then map_option ShotSelection (dec_selection_flag v)
       else if field = ''nodeId'' then map_option ShotNode (bounded_deserialize NODE_ID v)
       else if field = ''nodeIds'' then map_option ShotNodes (dec_node_id_list v)
       else None
   | _ \<Rightarrow> None)"

text \<open>The scale of a raster image: a double between 0.25 and 4.0, which excludes the infinite ones and NaN.\<close>

datatype raster_scale = RasterScale (raster_scale_value: f64)

definition raster_scale_try_from :: "f64 \<Rightarrow> unit + raster_scale" where
  "raster_scale_try_from v =
     (if \<not> f64_is_finite v \<or> \<not> (f64_le 0x3FD0000000000000 v \<and> f64_le v 0x4010000000000000)
      then Inl () else Inr (RasterScale v))"

definition dec_raster_scale :: "json \<Rightarrow> raster_scale option" where
  "dec_raster_scale j =
     do { v \<leftarrow> dec_f64 j; case raster_scale_try_from v of Inl e \<Rightarrow> None | Inr s \<Rightarrow> Some s }"

datatype get_screenshot_input =
    ShotPng "string option" screenshot_selector "raster_scale option"
  | ShotJpeg "string option" screenshot_selector "raster_scale option"
  | ShotSvg "string option" screenshot_selector bool bool bool

fun screenshot_connection_id :: "get_screenshot_input \<Rightarrow> string option" where
  "screenshot_connection_id (ShotPng c sel scale) = c"
| "screenshot_connection_id (ShotJpeg c sel scale) = c"
| "screenshot_connection_id (ShotSvg c sel outline ids simplify) = c"

datatype screenshot_format_tag =
    FormatPng | FormatJpeg | FormatSvg

definition dec_screenshot_format_tag :: "json \<Rightarrow> screenshot_format_tag option" where
  "dec_screenshot_format_tag = dec_unit_enum
     [(''png'', FormatPng), (''jpeg'', FormatJpeg), (''svg'', FormatSvg)]"

definition default_true :: bool where
  "default_true = True"

definition SCREENSHOT_INPUT_FIELDS ::
    "(string \<Rightarrow> string option) \<Rightarrow> (string \<times> (json \<Rightarrow> bool)) list" where
  "SCREENSHOT_INPUT_FIELDS hyphenated =
     [(''format'', accepts dec_screenshot_format_tag),
      (''connectionId'', accepts (dec_option (dec_connection_id hyphenated))),
      (''selector'', accepts dec_screenshot_selector), (''scale'', accepts (dec_option dec_raster_scale)),
      (''svgOutlineText'', accepts dec_bool), (''svgIdAttribute'', accepts dec_bool),
      (''svgSimplifyStroke'', accepts dec_bool)]"

definition reject_svg_fields :: "(string \<Rightarrow> json option) \<Rightarrow> unit option" where
  "reject_svg_fields m =
     (if any_field m [''svgOutlineText'', ''svgIdAttribute'', ''svgSimplifyStroke''] then None else Some ())"

fun screenshot_input_variant ::
    "(string \<Rightarrow> json option) \<Rightarrow> string option \<Rightarrow> screenshot_selector \<Rightarrow> screenshot_format_tag
      \<Rightarrow> get_screenshot_input option" where
  "screenshot_input_variant m c sel FormatPng =
     do { _ \<leftarrow> reject_svg_fields m;
          map_option (ShotPng c sel) (field_opt m ''scale'' dec_raster_scale) }"
| "screenshot_input_variant m c sel FormatJpeg =
     do { _ \<leftarrow> reject_svg_fields m;
          map_option (ShotJpeg c sel) (field_opt m ''scale'' dec_raster_scale) }"
| "screenshot_input_variant m c sel FormatSvg =
     (if any_field m [''scale''] then None
      else do { svg_outline_text \<leftarrow> field_default m ''svgOutlineText'' default_true dec_bool;
                svg_id_attribute \<leftarrow> field_default m ''svgIdAttribute'' False dec_bool;
                svg_simplify_stroke \<leftarrow> field_default m ''svgSimplifyStroke'' default_true dec_bool;
                Some (ShotSvg c sel svg_outline_text svg_id_attribute svg_simplify_stroke) })"

definition dec_get_screenshot_input ::
    "(string \<Rightarrow> string option) \<Rightarrow> json \<Rightarrow> get_screenshot_input option" where
  "dec_get_screenshot_input hyphenated j =
     do { m \<leftarrow> visit_map (SCREENSHOT_INPUT_FIELDS hyphenated) j;
          sel \<leftarrow> field_req m ''selector'' dec_screenshot_selector;
          format \<leftarrow> field_req m ''format'' dec_screenshot_format_tag;
          connection_id \<leftarrow> field_opt m ''connectionId'' (dec_connection_id hyphenated);
          screenshot_input_variant m connection_id sel format }"

section \<open>Assets\<close>

datatype raster_side = RasterSide (raster_side_value: u32)

definition raster_side_try_from :: "u32 \<Rightarrow> unit + raster_side" where
  "raster_side_try_from v = (if unat v > MAX_RASTER_SIDE then Inl () else Inr (RasterSide v))"

definition dec_raster_side :: "json \<Rightarrow> raster_side option" where
  "dec_raster_side j =
     do { v \<leftarrow> dec_u32 j; case raster_side_try_from v of Inl e \<Rightarrow> None | Inr s \<Rightarrow> Some s }"

text \<open>The product is taken in 64 bits.\<close>

definition validate_raster_pixels :: "raster_side \<Rightarrow> raster_side \<Rightarrow> unit option" where
  "validate_raster_pixels width height =
     (let pixels = (ucast (raster_side_value width) :: u64) * ucast (raster_side_value height) in
      if unat pixels > MAX_RASTER_PIXELS then None else Some ())"

datatype svg_rejection_kind =
    SvgParserError | SvgUnsafeElement | SvgUnsafeAttribute | SvgUnsafeCss
  | SvgUnsafeProcessingInstruction

definition dec_svg_rejection_kind :: "json \<Rightarrow> svg_rejection_kind option" where
  "dec_svg_rejection_kind = dec_unit_enum
     [(''parserError'', SvgParserError), (''unsafeElement'', SvgUnsafeElement),
      (''unsafeAttribute'', SvgUnsafeAttribute), (''unsafeCss'', SvgUnsafeCss),
      (''unsafeProcessingInstruction'', SvgUnsafeProcessingInstruction)]"

record svg_rejection =
  svr_kind :: svg_rejection_kind
  svr_name :: "string option"

definition dec_svg_rejection :: "json \<Rightarrow> svg_rejection option" where
  "dec_svg_rejection j =
     do { m \<leftarrow> struct_fields
            [(''kind'', False), (''name'', True)] j;
          kind \<leftarrow> field_req m ''kind'' dec_svg_rejection_kind;
          name \<leftarrow> field_opt m ''name'' (bounded_deserialize SVG_REJECTION_NAME);
          Some \<lparr>svr_kind = kind, svr_name = name\<rparr> }"

datatype screenshot_asset =
    AssetPng string string raster_side raster_side
  | AssetJpeg string string raster_side raster_side
  | AssetSvg string string bool "svg_rejection option"

definition SCREENSHOT_ASSET_FIELDS :: "(string \<times> (json \<Rightarrow> bool)) list" where
  "SCREENSHOT_ASSET_FIELDS =
     [(''format'', accepts dec_screenshot_format_tag), (''nodeId'', accepts (bounded_deserialize NODE_ID)),
      (''dataBase64'', accepts (bounded_deserialize RASTER_BASE64)), (''width'', accepts dec_raster_side),
      (''height'', accepts dec_raster_side), (''source'', accepts (bounded_deserialize SVG_SOURCE)),
      (''safe'', accepts dec_bool), (''rejection'', accepts dec_svg_rejection)]"

definition raster_asset ::
    "(string \<Rightarrow> string \<Rightarrow> raster_side \<Rightarrow> raster_side \<Rightarrow> screenshot_asset) \<Rightarrow> (string \<Rightarrow> json option)
      \<Rightarrow> string \<Rightarrow> screenshot_asset option" where
  "raster_asset mk m node_id =
     (if any_field m [''source'', ''safe'', ''rejection''] then None
      else do { width \<leftarrow> field_req m ''width'' dec_raster_side;
                height \<leftarrow> field_req m ''height'' dec_raster_side;
                _ \<leftarrow> validate_raster_pixels width height;
                data_base64 \<leftarrow> field_req m ''dataBase64'' (bounded_deserialize RASTER_BASE64);
                Some (mk node_id data_base64 width height) })"

fun screenshot_asset_variant ::
    "(string \<Rightarrow> json option) \<Rightarrow> string \<Rightarrow> screenshot_format_tag \<Rightarrow> screenshot_asset option" where
  "screenshot_asset_variant m node_id FormatPng = raster_asset AssetPng m node_id"
| "screenshot_asset_variant m node_id FormatJpeg = raster_asset AssetJpeg m node_id"
| "screenshot_asset_variant m node_id FormatSvg =
     (if any_field m [''dataBase64'', ''width'', ''height''] then None
      else do { safe \<leftarrow> field_req m ''safe'' dec_bool;
                rejection \<leftarrow> field_slot m ''rejection'' dec_svg_rejection;
                if safe = (rejection \<noteq> None) then None
                else do { source \<leftarrow> field_req m ''source'' (bounded_deserialize SVG_SOURCE);
                          Some (AssetSvg node_id source safe rejection) } })"

definition dec_screenshot_asset :: "json \<Rightarrow> screenshot_asset option" where
  "dec_screenshot_asset j =
     do { m \<leftarrow> visit_map SCREENSHOT_ASSET_FIELDS j;
          node_id \<leftarrow> field_req m ''nodeId'' (bounded_deserialize NODE_ID);
          format \<leftarrow> field_req m ''format'' dec_screenshot_format_tag;
          screenshot_asset_variant m node_id format }"

record get_screenshot_result =
  gsh_assets :: "screenshot_asset item_result list"
  gsh_truncated :: bool
  gsh_truncation :: "truncation option"
  gsh_observation :: observation_window

definition dec_get_screenshot_result :: "json \<Rightarrow> get_screenshot_result option" where
  "dec_get_screenshot_result j =
     do { m \<leftarrow> struct_fields
            [(''assets'', False), (''truncated'', False), (''truncation'', True),
             (''observation'', False)] j;
          assets \<leftarrow> field_req m ''assets'' (dec_returned_list (dec_item_result dec_screenshot_asset));
          truncated \<leftarrow> field_req m ''truncated'' dec_bool;
          truncation \<leftarrow> field_opt m ''truncation'' dec_truncation;
          observation \<leftarrow> field_req m ''observation'' dec_observation_window;
          Some \<lparr>gsh_assets = assets, gsh_truncated = truncated, gsh_truncation = truncation,
                gsh_observation = observation\<rparr> }"

section \<open>What an asset can be\<close>

text \<open>
  What the types of an asset promise: bounded payloads, sides and area, and a verdict that is stated
  together with its reason.
\<close>

fun screenshot_asset_ok :: "screenshot_asset \<Rightarrow> bool" where
  "screenshot_asset_ok (AssetPng i d w h) \<longleftrightarrow> bounded_ok NODE_ID i \<and> length d \<le> MAX_RASTER_BASE64_BYTES \<and>
     unat (raster_side_value w) \<le> MAX_RASTER_SIDE \<and> unat (raster_side_value h) \<le> MAX_RASTER_SIDE \<and>
     unat (raster_side_value w) * unat (raster_side_value h) \<le> MAX_RASTER_PIXELS"
| "screenshot_asset_ok (AssetJpeg i d w h) \<longleftrightarrow> bounded_ok NODE_ID i \<and> length d \<le> MAX_RASTER_BASE64_BYTES \<and>
     unat (raster_side_value w) \<le> MAX_RASTER_SIDE \<and> unat (raster_side_value h) \<le> MAX_RASTER_SIDE \<and>
     unat (raster_side_value w) * unat (raster_side_value h) \<le> MAX_RASTER_PIXELS"
| "screenshot_asset_ok (AssetSvg i s safe rejection) \<longleftrightarrow> bounded_ok NODE_ID i \<and> length s \<le> MAX_SVG_BYTES \<and>
     (safe \<longleftrightarrow> rejection = None)"

fun screenshot_asset_fields :: "screenshot_asset \<Rightarrow> string list" where
  "screenshot_asset_fields (AssetPng i d w h) = [''format'', ''nodeId'', ''dataBase64'', ''width'', ''height'']"
| "screenshot_asset_fields (AssetJpeg i d w h) = [''format'', ''nodeId'', ''dataBase64'', ''width'', ''height'']"
| "screenshot_asset_fields (AssetSvg i s safe rejection) =
     [''format'', ''nodeId'', ''source'', ''safe''] @ (if safe then [] else [''rejection''])"

text \<open>The pixel count cannot wrap: each side fits 32 bits.\<close>

lemma raster_pixels:
  "unat ((ucast (w :: u32) :: u64) * ucast (h :: u32)) = unat w * unat h"
proof -
  have "unat w < 2 ^ 32" "unat h < 2 ^ 32" using unsigned_less [of w, where ?'a = nat] unsigned_less [of h, where ?'a = nat] by simp_all
  then have "unat w * unat h < 2 ^ 32 * 2 ^ 32" by (intro mult_strict_mono) simp_all
  moreover have "unat (ucast v :: u64) = unat v" for v :: u32
  proof -
    have "unat v < 2 ^ 64" using unsigned_less [of v, where ?'a = nat] by simp
    then show ?thesis by (simp add: unsigned_ucast_eq take_bit_nat_eq_self)
  qed
  ultimately show ?thesis by (simp add: unat_word_ariths)
qed

lemma validate_raster_pixels_iff:
  "validate_raster_pixels w h = Some u \<longleftrightarrow>
     unat (raster_side_value w) * unat (raster_side_value h) \<le> MAX_RASTER_PIXELS"
  by (simp add: validate_raster_pixels_def Let_def raster_pixels)

lemma dec_raster_side_bound:
  "dec_raster_side j = Some s \<Longrightarrow> unat (raster_side_value s) \<le> MAX_RASTER_SIDE"
  by (auto simp: dec_raster_side_def raster_side_try_from_def bind_eq_Some_conv split: if_splits)

lemma bounded_length: "bounded_deserialize t j = Some s \<Longrightarrow> length s \<le> st_maximum t"
  by (simp add: bounded_deserialize_iff bounded_ok_def)

lemma raster_asset_ok:
  assumes "raster_asset mk m i = Some a"
  obtains d w h where "a = mk i d w h" "length d \<le> MAX_RASTER_BASE64_BYTES"
    "unat (raster_side_value w) \<le> MAX_RASTER_SIDE" "unat (raster_side_value h) \<le> MAX_RASTER_SIDE"
    "unat (raster_side_value w) * unat (raster_side_value h) \<le> MAX_RASTER_PIXELS"
    "m ''dataBase64'' \<noteq> None" "m ''width'' \<noteq> None" "m ''height'' \<noteq> None"
    "\<not> any_field m [''source'', ''safe'', ''rejection'']"
  using assms
  by (auto simp: raster_asset_def bind_eq_Some_conv validate_raster_pixels_iff field_req_def RASTER_BASE64_def
      dest!: bounded_length dec_raster_side_bound split: if_splits)

lemma asset_slots:
  assumes "dec_screenshot_asset j = Some a"
  obtains m i format where "visit_map SCREENSHOT_ASSET_FIELDS j = Some m"
    "field_req m ''nodeId'' (bounded_deserialize NODE_ID) = Some i"
    "field_req m ''format'' dec_screenshot_format_tag = Some format" "screenshot_asset_variant m i format = Some a"
  using assms by (auto simp: dec_screenshot_asset_def bind_eq_Some_conv)

lemma asset_bounds: "dec_screenshot_asset j = Some a \<Longrightarrow> screenshot_asset_ok a"
proof -
  assume "dec_screenshot_asset j = Some a"
  then obtain m i format where m: "field_req m ''nodeId'' (bounded_deserialize NODE_ID) = Some i"
    "screenshot_asset_variant m i format = Some a"
    by (rule asset_slots)
  have i: "bounded_ok NODE_ID i" using m(1) by (auto simp: field_req_def bind_eq_Some_conv bounded_deserialize_iff)
  show "screenshot_asset_ok a"
  proof (cases format)
    case FormatSvg
    then show ?thesis
      using m(2) i
      by (auto simp: bind_eq_Some_conv field_req_def SVG_SOURCE_def dest!: bounded_length split: if_splits)
  qed (use m(2) i in \<open>auto elim!: raster_asset_ok\<close>)
qed

lemma asset_fields: "dec_screenshot_asset j = Some a \<Longrightarrow> has_fields j (screenshot_asset_fields a)"
proof -
  assume "dec_screenshot_asset j = Some a"
  then obtain m i format where m: "visit_map SCREENSHOT_ASSET_FIELDS j = Some m"
    "field_req m ''nodeId'' (bounded_deserialize NODE_ID) = Some i"
    "field_req m ''format'' dec_screenshot_format_tag = Some format" "screenshot_asset_variant m i format = Some a"
    by (rule asset_slots)
  show "has_fields j (screenshot_asset_fields a)"
  proof (cases format)
    case FormatSvg
    then show ?thesis
      using visit_map_present [OF m(1)] m(2-4)
      by (auto simp: SCREENSHOT_ASSET_FIELDS_def visitor_simps split: if_splits option.splits)
  qed (use visit_map_present [OF m(1)] m(2-4) in
      \<open>auto simp: SCREENSHOT_ASSET_FIELDS_def visitor_simps elim!: raster_asset_ok\<close>)
qed

text \<open>
  C24. An asset that decodes keeps what its types promise: the payload within its limit, sides and area of a
  raster image within theirs, and for an SVG a verdict that was stated, with a rejection exactly when the
  verdict is unsafe. It came from an object with exactly the fields of its format.
\<close>

theorem screenshot_asset_sound:
  assumes "dec_screenshot_asset j = Some a"
  shows "screenshot_asset_ok a \<and> has_fields j (screenshot_asset_fields a)"
  using asset_bounds [OF assms] asset_fields [OF assms] ..

definition unsafe_svg :: json where
  "unsafe_svg = js_obj [(''safe'', js_bool False), (''format'', js_str ''svg''), (''source'', js_str ''<svg/>''),
     (''rejection'', js_obj [(''kind'', js_str ''unsafeCss'')]), (''nodeId'', js_str ''1:2'')]"

theorem screenshot_asset_sound_witness:
  "has_fields unsafe_svg [''format'', ''nodeId'', ''source'', ''safe'', ''rejection'']"
proof -
  have "dec_screenshot_asset unsafe_svg =
      Some (AssetSvg ''1:2'' ''<svg/>'' False (Some \<lparr>svr_kind = SvgUnsafeCss, svr_name = None\<rparr>))"
    by (simp add: unsafe_svg_def dec_screenshot_asset_def SCREENSHOT_ASSET_FIELDS_def visit_simps
        dec_screenshot_format_tag_def dec_svg_rejection_def dec_svg_rejection_kind_def field_opt_def field_default_def
        struct_fields_def bounded_deserialize_def bounded_try_from_def validate_boundary_string_def newtype_defs limit_defs)
  then show ?thesis using screenshot_asset_sound [of unsafe_svg] by simp
qed

end
