(* ===== verification/Operations.thy ===== *)
theory Operations
  imports Navigation Prototype Visual Frames
begin

text \<open>
  The thirteen read operations with the inputs and results they really carry (\<open>ReadOperation\<close> and
  \<open>ReadResult\<close> of \<open>crates/protocol/src/wire.rs\<close>), which are the payload parameters of the messages
  in the theories Wire and Frames, and the serializer of the inputs.
\<close>

section \<open>Operations and results\<close>

datatype read_operation =
    OpGetMetadata get_metadata_input
  | OpGetSelection get_selection_input
  | OpGetNodes get_nodes_input
  | OpSearchNodes search_nodes_input
  | OpGetDesignContext get_design_context_input
  | OpGetStyles get_styles_input
  | OpGetVariables get_variables_input
  | OpGetComponents get_components_input
  | OpGetFonts get_fonts_input
  | OpGetDevModeData get_dev_mode_data_input
  | OpGetReactions get_reactions_input
  | OpGetMotion get_motion_input
  | OpGetScreenshot get_screenshot_input

fun dec_input :: "(string \<Rightarrow> string option) \<Rightarrow> read_tag \<Rightarrow> json \<Rightarrow> read_operation option" where
  "dec_input hyphenated GetMetadata j = map_option OpGetMetadata (dec_get_metadata_input hyphenated j)"
| "dec_input hyphenated GetSelection j = map_option OpGetSelection (dec_get_selection_input hyphenated j)"
| "dec_input hyphenated GetNodes j = map_option OpGetNodes (dec_get_nodes_input hyphenated j)"
| "dec_input hyphenated SearchNodes j = map_option OpSearchNodes (dec_search_nodes_input hyphenated j)"
| "dec_input hyphenated GetDesignContext j =
     map_option OpGetDesignContext (dec_get_design_context_input hyphenated j)"
| "dec_input hyphenated GetStyles j = map_option OpGetStyles (dec_get_styles_input hyphenated j)"
| "dec_input hyphenated GetVariables j = map_option OpGetVariables (dec_get_variables_input hyphenated j)"
| "dec_input hyphenated GetComponents j = map_option OpGetComponents (dec_get_components_input hyphenated j)"
| "dec_input hyphenated GetFonts j = map_option OpGetFonts (dec_get_fonts_input hyphenated j)"
| "dec_input hyphenated GetDevModeData j =
     map_option OpGetDevModeData (dec_get_dev_mode_data_input hyphenated j)"
| "dec_input hyphenated GetReactions j = map_option OpGetReactions (dec_get_reactions_input hyphenated j)"
| "dec_input hyphenated GetMotion j = map_option OpGetMotion (dec_get_motion_input hyphenated j)"
| "dec_input hyphenated GetScreenshot j = map_option OpGetScreenshot (dec_get_screenshot_input hyphenated j)"

definition dec_operation :: "(string \<Rightarrow> string option) \<Rightarrow> json \<Rightarrow> read_operation option" where
  "dec_operation hyphenated j = map_option snd (dec_read_operation (dec_input hyphenated) j)"

datatype read_result =
    ResGetMetadata get_metadata_result
  | ResGetSelection get_selection_result
  | ResGetNodes get_nodes_result
  | ResSearchNodes search_nodes_result
  | ResGetDesignContext get_design_context_result
  | ResGetStyles get_styles_result
  | ResGetVariables get_variables_result
  | ResGetComponents get_components_result
  | ResGetFonts get_fonts_result
  | ResGetDevModeData get_dev_mode_data_result
  | ResGetReactions get_reactions_result
  | ResGetMotion get_motion_result
  | ResGetScreenshot get_screenshot_result

fun dec_output :: "read_tag \<Rightarrow> json \<Rightarrow> read_result option" where
  "dec_output GetMetadata j = map_option ResGetMetadata (dec_get_metadata_result j)"
| "dec_output GetSelection j = map_option ResGetSelection (dec_get_selection_result j)"
| "dec_output GetNodes j = map_option ResGetNodes (dec_get_nodes_result j)"
| "dec_output SearchNodes j = map_option ResSearchNodes (dec_search_nodes_result j)"
| "dec_output GetDesignContext j = map_option ResGetDesignContext (dec_get_design_context_result j)"
| "dec_output GetStyles j = map_option ResGetStyles (dec_get_styles_result j)"
| "dec_output GetVariables j = map_option ResGetVariables (dec_get_variables_result j)"
| "dec_output GetComponents j = map_option ResGetComponents (dec_get_components_result j)"
| "dec_output GetFonts j = map_option ResGetFonts (dec_get_fonts_result j)"
| "dec_output GetDevModeData j = map_option ResGetDevModeData (dec_get_dev_mode_data_result j)"
| "dec_output GetReactions j = map_option ResGetReactions (dec_get_reactions_result j)"
| "dec_output GetMotion j = map_option ResGetMotion (dec_get_motion_result j)"
| "dec_output GetScreenshot j = map_option ResGetScreenshot (dec_get_screenshot_result j)"

definition dec_result :: "json \<Rightarrow> read_result option" where
  "dec_result j = map_option snd (dec_read_result dec_output j)"

section \<open>Writing the inputs\<close>

text \<open>
  The derived serializers. A double is printed by the \<open>ryu\<close> crate: \<open>print_f64\<close> is the value its text
  parses to.
\<close>

fun detail_name :: "detail_level \<Rightarrow> string" where
  "detail_name DetailMinimal = ''minimal''"
| "detail_name DetailCompact = ''compact''"
| "detail_name DetailFull = ''full''"

fun match_name :: "search_match_mode \<Rightarrow> string" where
  "match_name MatchContains = ''contains''"
| "match_name MatchExact = ''exact''"

fun style_source_name :: "style_source \<Rightarrow> string" where
  "style_source_name SourceLocal = ''local''"
| "style_source_name SourceReferenced = ''referenced''"
| "style_source_name SourceBoth = ''both''"

definition enc_u8 :: "u8 \<Rightarrow> json" where "enc_u8 d = js_uint (ucast d)"

definition enc_strings :: "string list \<Rightarrow> json" where "enc_strings xs = js_arr (map js_str xs)"

definition enc_get_metadata_input :: "get_metadata_input \<Rightarrow> json" where
  "enc_get_metadata_input i = js_obj (enc_opt ''connectionId'' js_str (gmi_connection_id i))"

definition enc_get_selection_input :: "get_selection_input \<Rightarrow> json" where
  "enc_get_selection_input i = js_obj
     (enc_opt ''connectionId'' js_str (gsi_connection_id i) @
      enc_opt ''detail'' (js_str \<circ> detail_name) (gsi_detail i) @ enc_opt ''depth'' enc_u8 (gsi_depth i))"

definition enc_get_nodes_input :: "get_nodes_input \<Rightarrow> json" where
  "enc_get_nodes_input i = js_obj
     (enc_opt ''connectionId'' js_str (gni_connection_id i) @
      (''nodeIds'', enc_strings (gni_node_ids i)) #
      enc_opt ''detail'' (js_str \<circ> detail_name) (gni_detail i) @ enc_opt ''depth'' enc_u8 (gni_depth i))"

fun enc_search_scope :: "search_scope \<Rightarrow> json" where
  "enc_search_scope (ScopePage p) = js_obj [(''pageId'', js_str p)]"
| "enc_search_scope (ScopeNode n) = js_obj [(''nodeId'', js_str n)]"

definition enc_search_nodes_input :: "search_nodes_input \<Rightarrow> json" where
  "enc_search_nodes_input i = js_obj
     (enc_opt ''connectionId'' js_str (sni_connection_id i) @
      (''scope'', enc_search_scope (sni_scope i)) #
      enc_opt ''query'' js_str (sni_query i) @
      (if sni_types i = [] then [] else [(''types'', enc_strings (sni_types i))]) @
      [(''match'', js_str (match_name (sni_match i))), (''limit'', js_uint (ucast (sni_limit i)))] @
      enc_opt ''cursor'' js_str (sni_cursor i))"

definition enc_get_design_context_input :: "get_design_context_input \<Rightarrow> json" where
  "enc_get_design_context_input i = js_obj
     (enc_opt ''connectionId'' js_str (gdi_connection_id i) @
      enc_opt ''selector'' enc_selector (gdi_selector i) @ enc_opt ''depth'' enc_u8 (gdi_depth i) @
      enc_opt ''detail'' (js_str \<circ> detail_name) (gdi_detail i) @
      [(''dedupeComponents'', js_bool (gdi_dedupe_components i))])"

definition enc_scoped_input :: "scoped_input \<Rightarrow> json" where
  "enc_scoped_input i = js_obj
     (enc_opt ''connectionId'' js_str (sci_connection_id i) @ enc_opt ''selector'' enc_selector (sci_selector i))"

definition enc_get_styles_input :: "get_styles_input \<Rightarrow> json" where
  "enc_get_styles_input i = js_obj
     (enc_opt ''connectionId'' js_str (gty_connection_id i) @ enc_opt ''selector'' enc_selector (gty_selector i) @
      [(''source'', js_str (style_source_name (gty_source i)))])"

definition enc_get_variables_input :: "get_variables_input \<Rightarrow> json" where
  "enc_get_variables_input i = js_obj
     (enc_opt ''connectionId'' js_str (gvi_connection_id i) @ enc_opt ''selector'' enc_selector (gvi_selector i) @
      [(''resolveAliases'', js_bool (gvi_resolve_aliases i))])"

definition enc_get_motion_input :: "get_motion_input \<Rightarrow> json" where
  "enc_get_motion_input i = js_obj
     (enc_opt ''connectionId'' js_str (gmo_connection_id i) @ enc_opt ''selector'' enc_selector (gmo_selector i) @
      [(''includeAvailableStyles'', js_bool (gmo_include_available_styles i))])"

fun enc_screenshot_selector :: "screenshot_selector \<Rightarrow> json" where
  "enc_screenshot_selector (ShotSelection f) = js_obj [(''selection'', js_bool True)]"
| "enc_screenshot_selector (ShotNode n) = js_obj [(''nodeId'', js_str n)]"
| "enc_screenshot_selector (ShotNodes ns) = js_obj [(''nodeIds'', enc_strings ns)]"

definition enc_raster_scale :: "(f64 \<Rightarrow> json) \<Rightarrow> raster_scale \<Rightarrow> json" where
  "enc_raster_scale print_f64 s = print_f64 (raster_scale_value s)"

fun enc_get_screenshot_input :: "(f64 \<Rightarrow> json) \<Rightarrow> get_screenshot_input \<Rightarrow> json" where
  "enc_get_screenshot_input print_f64 (ShotPng c sel scale) = js_obj
     ((''format'', js_str ''png'') # enc_opt ''connectionId'' js_str c @
      (''selector'', enc_screenshot_selector sel) # enc_opt ''scale'' (enc_raster_scale print_f64) scale)"
| "enc_get_screenshot_input print_f64 (ShotJpeg c sel scale) = js_obj
     ((''format'', js_str ''jpeg'') # enc_opt ''connectionId'' js_str c @
      (''selector'', enc_screenshot_selector sel) # enc_opt ''scale'' (enc_raster_scale print_f64) scale)"
| "enc_get_screenshot_input print_f64 (ShotSvg c sel outline ids simplify) = js_obj
     ((''format'', js_str ''svg'') # enc_opt ''connectionId'' js_str c @
      [(''selector'', enc_screenshot_selector sel), (''svgOutlineText'', js_bool outline),
       (''svgIdAttribute'', js_bool ids), (''svgSimplifyStroke'', js_bool simplify)])"

fun operation_name :: "read_operation \<Rightarrow> string" where
  "operation_name (OpGetMetadata i) = ''get_metadata''"
| "operation_name (OpGetSelection i) = ''get_selection''"
| "operation_name (OpGetNodes i) = ''get_nodes''"
| "operation_name (OpSearchNodes i) = ''search_nodes''"
| "operation_name (OpGetDesignContext i) = ''get_design_context''"
| "operation_name (OpGetStyles i) = ''get_styles''"
| "operation_name (OpGetVariables i) = ''get_variables''"
| "operation_name (OpGetComponents i) = ''get_components''"
| "operation_name (OpGetFonts i) = ''get_fonts''"
| "operation_name (OpGetDevModeData i) = ''get_dev_mode_data''"
| "operation_name (OpGetReactions i) = ''get_reactions''"
| "operation_name (OpGetMotion i) = ''get_motion''"
| "operation_name (OpGetScreenshot i) = ''get_screenshot''"

fun enc_input :: "(f64 \<Rightarrow> json) \<Rightarrow> read_operation \<Rightarrow> json" where
  "enc_input pf (OpGetMetadata i) = enc_get_metadata_input i"
| "enc_input pf (OpGetSelection i) = enc_get_selection_input i"
| "enc_input pf (OpGetNodes i) = enc_get_nodes_input i"
| "enc_input pf (OpSearchNodes i) = enc_search_nodes_input i"
| "enc_input pf (OpGetDesignContext i) = enc_get_design_context_input i"
| "enc_input pf (OpGetStyles i) = enc_get_styles_input i"
| "enc_input pf (OpGetVariables i) = enc_get_variables_input i"
| "enc_input pf (OpGetComponents i) = enc_scoped_input i"
| "enc_input pf (OpGetFonts i) = enc_scoped_input i"
| "enc_input pf (OpGetDevModeData i) = enc_scoped_input i"
| "enc_input pf (OpGetReactions i) = enc_scoped_input i"
| "enc_input pf (OpGetMotion i) = enc_get_motion_input i"
| "enc_input pf (OpGetScreenshot i) = enc_get_screenshot_input pf i"

definition enc_operation :: "(f64 \<Rightarrow> json) \<Rightarrow> read_operation \<Rightarrow> json" where
  "enc_operation pf op = js_obj [(''operation'', js_str (operation_name op)), (''input'', enc_input pf op)]"

section \<open>The values the types can hold\<close>

abbreviation "connection_ok hyphenated c \<equiv> \<forall>u \<in> set_option c. dec_connection_id hyphenated (js_str u) = Some u"

definition strings_ok :: "string_newtype \<Rightarrow> string list \<Rightarrow> bool" where
  "strings_ok t xs \<longleftrightarrow> length xs \<le> MAX_INPUT_IDS \<and> list_all (bounded_ok t) xs"

abbreviation "depth_ok d \<equiv> \<forall>n \<in> set_option d. unat n \<le> MAX_DEPTH"

abbreviation "selector_opt_ok s \<equiv> \<forall>x \<in> set_option s. selector_ok x"

fun scope_ok :: "search_scope \<Rightarrow> bool" where
  "scope_ok (ScopePage p) = bounded_ok PAGE_ID p"
| "scope_ok (ScopeNode n) = bounded_ok NODE_ID n"

fun shot_selector_ok :: "screenshot_selector \<Rightarrow> bool" where
  "shot_selector_ok (ShotSelection f) = True"
| "shot_selector_ok (ShotNode n) = bounded_ok NODE_ID n"
| "shot_selector_ok (ShotNodes ns) = strings_ok NODE_ID ns"

text \<open>A scale in range, which the printer and the parser of numbers keep.\<close>

definition scale_ok :: "(f64 \<Rightarrow> json) \<Rightarrow> raster_scale option \<Rightarrow> bool" where
  "scale_ok pf scale \<longleftrightarrow> (\<forall>s \<in> set_option scale. raster_scale_try_from (raster_scale_value s) = Inr s \<and>
     dec_f64 (pf (raster_scale_value s)) = Some (raster_scale_value s))"

fun screenshot_ok :: "(string \<Rightarrow> string option) \<Rightarrow> (f64 \<Rightarrow> json) \<Rightarrow> get_screenshot_input \<Rightarrow> bool" where
  "screenshot_ok hy pf (ShotPng c sel scale) \<longleftrightarrow> connection_ok hy c \<and> shot_selector_ok sel \<and> scale_ok pf scale"
| "screenshot_ok hy pf (ShotJpeg c sel scale) \<longleftrightarrow> connection_ok hy c \<and> shot_selector_ok sel \<and> scale_ok pf scale"
| "screenshot_ok hy pf (ShotSvg c sel outline ids simplify) \<longleftrightarrow> connection_ok hy c \<and> shot_selector_ok sel"

definition search_ok :: "(string \<Rightarrow> string option) \<Rightarrow> search_nodes_input \<Rightarrow> bool" where
  "search_ok hy i \<longleftrightarrow> connection_ok hy (sni_connection_id i) \<and> scope_ok (sni_scope i) \<and>
     (\<forall>q \<in> set_option (sni_query i). bounded_ok QUERY_TEXT q) \<and> strings_ok NODE_TYPE_NAME (sni_types i) \<and>
     sni_limit i \<noteq> 0 \<and> unat (sni_limit i) \<le> MAX_RETURNED_NODES \<and>
     (\<forall>c \<in> set_option (sni_cursor i). bounded_ok SEARCH_CURSOR c)"

definition scoped_ok :: "(string \<Rightarrow> string option) \<Rightarrow> scoped_input \<Rightarrow> bool" where
  "scoped_ok hy i \<longleftrightarrow> connection_ok hy (sci_connection_id i) \<and> selector_opt_ok (sci_selector i)"

fun operation_ok :: "(string \<Rightarrow> string option) \<Rightarrow> (f64 \<Rightarrow> json) \<Rightarrow> read_operation \<Rightarrow> bool" where
  "operation_ok hy pf (OpGetMetadata i) \<longleftrightarrow> connection_ok hy (gmi_connection_id i)"
| "operation_ok hy pf (OpGetSelection i) \<longleftrightarrow> connection_ok hy (gsi_connection_id i) \<and> depth_ok (gsi_depth i)"
| "operation_ok hy pf (OpGetNodes i) \<longleftrightarrow>
     connection_ok hy (gni_connection_id i) \<and> strings_ok NODE_ID (gni_node_ids i) \<and> depth_ok (gni_depth i)"
| "operation_ok hy pf (OpSearchNodes i) \<longleftrightarrow> search_ok hy i"
| "operation_ok hy pf (OpGetDesignContext i) \<longleftrightarrow>
     connection_ok hy (gdi_connection_id i) \<and> selector_opt_ok (gdi_selector i) \<and> depth_ok (gdi_depth i)"
| "operation_ok hy pf (OpGetStyles i) \<longleftrightarrow> connection_ok hy (gty_connection_id i) \<and> selector_opt_ok (gty_selector i)"
| "operation_ok hy pf (OpGetVariables i) \<longleftrightarrow> connection_ok hy (gvi_connection_id i) \<and> selector_opt_ok (gvi_selector i)"
| "operation_ok hy pf (OpGetComponents i) \<longleftrightarrow> scoped_ok hy i"
| "operation_ok hy pf (OpGetFonts i) \<longleftrightarrow> scoped_ok hy i"
| "operation_ok hy pf (OpGetDevModeData i) \<longleftrightarrow> scoped_ok hy i"
| "operation_ok hy pf (OpGetReactions i) \<longleftrightarrow> scoped_ok hy i"
| "operation_ok hy pf (OpGetMotion i) \<longleftrightarrow> connection_ok hy (gmo_connection_id i) \<and> selector_opt_ok (gmo_selector i)"
| "operation_ok hy pf (OpGetScreenshot i) \<longleftrightarrow> screenshot_ok hy pf i"

section \<open>Reading the inputs back\<close>

lemma dec_enc_u8: "dec_u8 (enc_u8 d) = Some d"
proof -
  have "unat d < 2 ^ 8" using unsigned_less [of d, where ?'a = nat] by simp
  then have "(ucast d :: u64) < 2 ^ 8" by (simp add: word_less_nat_alt unsigned_ucast_eq take_bit_nat_eq_self)
  moreover have "ucast (ucast d :: u64) = d" by (rule bit_word_eqI) (simp add: bit_unsigned_iff)
  ultimately show ?thesis by (simp add: dec_u8_def enc_u8_def)
qed

lemma dec_enc_u16: "dec_u16 (js_uint (ucast d)) = Some d"
proof -
  have "unat d < 2 ^ 16" using unsigned_less [of d, where ?'a = nat] by simp
  then have "(ucast d :: u64) < 2 ^ 16" by (simp add: word_less_nat_alt unsigned_ucast_eq take_bit_nat_eq_self)
  moreover have "ucast (ucast d :: u64) = d" by (rule bit_word_eqI) (simp add: bit_unsigned_iff)
  ultimately show ?thesis by (simp add: dec_u16_def)
qed

lemma dec_strings: "strings_ok t xs \<Longrightarrow> dec_bounded_list MAX_INPUT_IDS (bounded_deserialize t) (enc_strings xs) = Some xs"
  by (simp add: dec_bounded_list_def enc_strings_def strings_ok_def list_all_iff)

lemma dec_names:
  "dec_detail_level (js_str (detail_name d)) = Some d"
  "dec_search_match_mode (js_str (match_name k)) = Some k"
  "dec_style_source (js_str (style_source_name s)) = Some s"
proof -
  show "dec_detail_level (js_str (detail_name d)) = Some d" by (cases d) (simp_all add: dec_detail_level_def)
  show "dec_search_match_mode (js_str (match_name k)) = Some k"
    by (cases k) (simp_all add: dec_search_match_mode_def)
  show "dec_style_source (js_str (style_source_name s)) = Some s"
    by (cases s) (simp_all add: dec_style_source_def)
qed

lemma dec_depth: "unat d \<le> MAX_DEPTH \<Longrightarrow> deserialize_optional_depth (enc_u8 d) = Some (Some d)"
  by (simp add: deserialize_optional_depth_def dec_option_def dec_enc_u8 enc_u8_def) (simp flip: enc_u8_def add: dec_enc_u8)

lemma body_enc: "body (enc_selector s) \<noteq> JNull" "body (enc_u8 d) \<noteq> JNull"
  by (cases s) (simp_all add: enc_u8_def)

lemmas input_simps = struct_fields_js_obj field_req_def field_opt_def field_default_def dec_option_def
  dec_names dec_enc_selector dec_depth body_enc dec_strings dec_enc_u16

lemma metadata_roundtrip:
  "connection_ok hy (gmi_connection_id i) \<Longrightarrow> dec_get_metadata_input hy (enc_get_metadata_input i) = Some i"
  by (cases i; cases "gmi_connection_id i")
    (simp_all add: dec_get_metadata_input_def enc_get_metadata_input_def input_simps)

lemma selection_roundtrip:
  "connection_ok hy (gsi_connection_id i) \<Longrightarrow> depth_ok (gsi_depth i) \<Longrightarrow>
     dec_get_selection_input hy (enc_get_selection_input i) = Some i"
  by (cases i; cases "gsi_connection_id i"; cases "gsi_detail i"; cases "gsi_depth i")
    (simp_all add: dec_get_selection_input_def enc_get_selection_input_def input_simps)

lemma nodes_roundtrip:
  "connection_ok hy (gni_connection_id i) \<Longrightarrow> strings_ok NODE_ID (gni_node_ids i) \<Longrightarrow> depth_ok (gni_depth i) \<Longrightarrow>
     dec_get_nodes_input hy (enc_get_nodes_input i) = Some i"
  by (cases i; cases "gni_connection_id i"; cases "gni_detail i"; cases "gni_depth i")
    (simp_all add: dec_get_nodes_input_def enc_get_nodes_input_def dec_node_id_list_def input_simps)

lemma context_roundtrip:
  "connection_ok hy (gdi_connection_id i) \<Longrightarrow> selector_opt_ok (gdi_selector i) \<Longrightarrow> depth_ok (gdi_depth i) \<Longrightarrow>
     dec_get_design_context_input hy (enc_get_design_context_input i) = Some i"
  by (cases i; cases "gdi_connection_id i"; cases "gdi_selector i"; cases "gdi_detail i"; cases "gdi_depth i")
    (simp_all add: dec_get_design_context_input_def enc_get_design_context_input_def input_simps)

lemma scoped_roundtrip:
  "scoped_ok hy i \<Longrightarrow> dec_scoped_input hy (enc_scoped_input i) = Some i"
  by (cases i; cases "sci_connection_id i"; cases "sci_selector i")
    (simp_all add: dec_scoped_input_def enc_scoped_input_def scoped_ok_def input_simps)

lemma styles_roundtrip:
  "connection_ok hy (gty_connection_id i) \<Longrightarrow> selector_opt_ok (gty_selector i) \<Longrightarrow>
     dec_get_styles_input hy (enc_get_styles_input i) = Some i"
  by (cases i; cases "gty_connection_id i"; cases "gty_selector i")
    (simp_all add: dec_get_styles_input_def enc_get_styles_input_def input_simps)

lemma variables_roundtrip:
  "connection_ok hy (gvi_connection_id i) \<Longrightarrow> selector_opt_ok (gvi_selector i) \<Longrightarrow>
     dec_get_variables_input hy (enc_get_variables_input i) = Some i"
  by (cases i; cases "gvi_connection_id i"; cases "gvi_selector i")
    (simp_all add: dec_get_variables_input_def enc_get_variables_input_def input_simps)

lemma motion_roundtrip:
  "connection_ok hy (gmo_connection_id i) \<Longrightarrow> selector_opt_ok (gmo_selector i) \<Longrightarrow>
     dec_get_motion_input hy (enc_get_motion_input i) = Some i"
  by (cases i; cases "gmo_connection_id i"; cases "gmo_selector i")
    (simp_all add: dec_get_motion_input_def enc_get_motion_input_def input_simps)

lemma scope_roundtrip: "scope_ok s \<Longrightarrow> dec_search_scope (enc_search_scope s) = Some s"
  by (cases s) (simp_all add: dec_search_scope_def)

lemma search_roundtrip: "search_ok hy i \<Longrightarrow> dec_search_nodes_input hy (enc_search_nodes_input i) = Some i"
  by (cases i; cases "sni_connection_id i"; cases "sni_query i"; cases "sni_cursor i"; cases "sni_types i = []")
    (simp_all add: dec_search_nodes_input_def enc_search_nodes_input_def search_ok_def dec_node_type_list_def
      scope_roundtrip deserialize_search_limit_def input_simps)

lemma shot_selector_roundtrip: "shot_selector_ok s \<Longrightarrow> dec_screenshot_selector (enc_screenshot_selector s) = Some s"
proof (cases s)
  case (ShotSelection f)
  then show ?thesis by (cases f) (simp add: dec_screenshot_selector_def dec_selection_flag_def)
qed (simp_all add: dec_screenshot_selector_def dec_node_id_list_def dec_strings)

lemma scale_roundtrip:
  assumes "scale_ok pf (Some s)"
  shows "dec_raster_scale (enc_raster_scale pf s) = Some s" and "body (enc_raster_scale pf s) \<noteq> JNull"
proof -
  have s: "raster_scale_try_from (raster_scale_value s) = Inr s"
    "dec_f64 (pf (raster_scale_value s)) = Some (raster_scale_value s)"
    using assms by (simp_all add: scale_ok_def)
  then show "dec_raster_scale (enc_raster_scale pf s) = Some s"
    by (simp add: dec_raster_scale_def enc_raster_scale_def)
  show "body (enc_raster_scale pf s) \<noteq> JNull"
    using s(2) by (auto simp: enc_raster_scale_def dec_f64_def)
qed

lemma screenshot_roundtrip:
  assumes "screenshot_ok hy pf i"
  shows "dec_get_screenshot_input hy (enc_get_screenshot_input pf i) = Some i"
proof (cases i)
  case (ShotPng c sel scale)
  then show ?thesis
    using assms by (cases c; cases scale)
      (auto simp: dec_get_screenshot_input_def SCREENSHOT_INPUT_FIELDS_def visit_map_def accepts_def any_field_def
        reject_svg_fields_def dec_screenshot_format_tag_def shot_selector_roundtrip scale_roundtrip input_simps)
next
  case (ShotJpeg c sel scale)
  then show ?thesis
    using assms by (cases c; cases scale)
      (auto simp: dec_get_screenshot_input_def SCREENSHOT_INPUT_FIELDS_def visit_map_def accepts_def any_field_def
        reject_svg_fields_def dec_screenshot_format_tag_def shot_selector_roundtrip scale_roundtrip input_simps)
next
  case (ShotSvg c sel outline ids simplify)
  then show ?thesis
    using assms by (cases c)
      (auto simp: dec_get_screenshot_input_def SCREENSHOT_INPUT_FIELDS_def visit_map_def accepts_def any_field_def
        dec_screenshot_format_tag_def shot_selector_roundtrip input_simps)
qed

fun operation_tag :: "read_operation \<Rightarrow> read_tag" where
  "operation_tag (OpGetMetadata i) = GetMetadata"
| "operation_tag (OpGetSelection i) = GetSelection"
| "operation_tag (OpGetNodes i) = GetNodes"
| "operation_tag (OpSearchNodes i) = SearchNodes"
| "operation_tag (OpGetDesignContext i) = GetDesignContext"
| "operation_tag (OpGetStyles i) = GetStyles"
| "operation_tag (OpGetVariables i) = GetVariables"
| "operation_tag (OpGetComponents i) = GetComponents"
| "operation_tag (OpGetFonts i) = GetFonts"
| "operation_tag (OpGetDevModeData i) = GetDevModeData"
| "operation_tag (OpGetReactions i) = GetReactions"
| "operation_tag (OpGetMotion i) = GetMotion"
| "operation_tag (OpGetScreenshot i) = GetScreenshot"

lemma dec_operation_name: "dec_read_tag (js_str (operation_name op)) = Some (operation_tag op)"
  by (cases op) (simp_all add: dec_read_tag_def)

lemmas input_roundtrips = metadata_roundtrip selection_roundtrip nodes_roundtrip search_roundtrip context_roundtrip
  styles_roundtrip variables_roundtrip scoped_roundtrip motion_roundtrip screenshot_roundtrip

lemma input_roundtrip: "operation_ok hy pf op \<Longrightarrow> dec_input hy (operation_tag op) (enc_input pf op) = Some op"
  by (cases op) (simp_all add: input_roundtrips dec_get_components_input_def dec_get_fonts_input_def
      dec_get_dev_mode_data_input_def dec_get_reactions_input_def)

lemma dec_enc_operation:
  assumes "operation_ok hy pf op" and "src_len (enc_input pf op) \<le> MAX_ENVELOPE_BYTES"
  shows "dec_operation hy (enc_operation pf op) = Some op"
  using assms by (simp add: dec_operation_def dec_read_operation_def dec_tag_payload_def enc_operation_def
      dec_operation_name decode_raw_def input_roundtrip)

text \<open>A part of an object is shorter than the object.\<close>

lemma js_obj_part: "(k, v) \<in> set kvs \<Longrightarrow> src_len v \<le> src_len (js_obj kvs)"
proof -
  assume "(k, v) \<in> set kvs"
  then have "src_len v \<le> sum_list (map (\<lambda>(k, v). quoted_len k + 1 + src_len v) kvs)"
    by (induction kvs) auto
  then show ?thesis by (simp add: js_obj_def)
qed

lemma operation_within_request:
  assumes "enc_broker_to_plugin (Some \<circ> enc_operation pf) (BRequest r) = Some j"
  shows "src_len (enc_input pf (rq_operation r)) \<le> src_len j"
proof -
  have "src_len (enc_input pf (rq_operation r)) \<le> src_len (enc_operation pf (rq_operation r))"
    unfolding enc_operation_def by (rule js_obj_part [of "''input''"]) simp
  also have "\<dots> \<le> src_len j"
    using assms by (auto intro!: js_obj_part [of "''operation''"])
  finally show ?thesis .
qed

interpretation operation_codec: message_codec
  "\<lambda>op. operation_ok hy pf op \<and> src_len (enc_input pf op) \<le> MAX_ENVELOPE_BYTES"
  "Some \<circ> enc_operation pf" "dec_operation hy" for hy pf
  by unfold_locales (auto simp: dec_enc_operation)

section \<open>Properties\<close>

text \<open>
  C13. Each of the thirteen operations, with an input the types allow, is read back by the plugin's side of
  the protocol as the very operation that the broker was asked for, alone and inside the request frame, as
  long as the frame fits the envelope. The only hypothesis on other code is that the text of a screenshot's
  scale parses to the double it was printed from.
\<close>

theorem operation_roundtrip:
  assumes "operation_ok hyphenated print_f64 op"
    and "bounded_ok REQUEST_ID i" and "\<forall>k \<in> set_option target. bounded_ok FILE_KEY k"
    and "enc_broker_to_plugin (Some \<circ> enc_operation print_f64)
      (BRequest \<lparr>rq_request_id = i, rq_deadline_ms = ms, rq_target = target, rq_operation = op\<rparr>) = Some j"
    and "src_len j \<le> MAX_ENVELOPE_BYTES"
  shows "dec_operation hyphenated (enc_operation print_f64 op) = Some op \<and>
    dec_broker_to_plugin (dec_operation hyphenated) j =
      Some (BRequest \<lparr>rq_request_id = i, rq_deadline_ms = ms, rq_target = target, rq_operation = op\<rparr>)"
proof -
  have "src_len (enc_input print_f64 op) \<le> MAX_ENVELOPE_BYTES"
    using operation_within_request [OF assms(4)] assms(5) by simp
  then have op: "dec_operation hyphenated (enc_operation print_f64 op) = Some op"
    by (rule dec_enc_operation [OF assms(1)])
  moreover have "dec_broker_to_plugin (dec_operation hyphenated) j =
      Some (BRequest \<lparr>rq_request_id = i, rq_deadline_ms = ms, rq_target = target, rq_operation = op\<rparr>)"
    by (rule dec_enc_broker_message [OF _ assms(4,5)]) (use assms(2,3) op in auto)
  ultimately show ?thesis ..
qed

definition sample_shot :: read_operation where
  "sample_shot = OpGetScreenshot (ShotPng None (ShotNode ''1:2'') (Some (RasterScale 0x4000000000000000)))"

definition print_sample :: "f64 \<Rightarrow> json" where
  "print_sample b = Json 3 (JNum (Float b))"

theorem operation_roundtrip_witness:
  "dec_operation Some (enc_operation print_sample sample_shot) = Some sample_shot"
proof -
  let ?r = "\<lparr>rq_request_id = ''r'', rq_deadline_ms = 9, rq_target = None, rq_operation = sample_shot\<rparr>"
  have ok: "operation_ok Some print_sample sample_shot"
    by (simp add: sample_shot_def scale_ok_def print_sample_def dec_f64_def raster_scale_try_from_def
        f64_is_finite_def f64_exponent_def f64_le_def f64_is_nan_def f64_rank_def bounded_ok_def newtype_defs limit_defs)
  obtain j where j: "enc_broker_to_plugin (Some \<circ> enc_operation print_sample) (BRequest ?r) = Some j" by simp
  then have "src_len j \<le> MAX_ENVELOPE_BYTES"
    by (auto simp: sample_shot_def enc_operation_def enc_raster_scale_def print_sample_def js_defs enc_target_def
        quoted_len_def escape_len_def digits_len.simps commas_def limit_defs)
  then show ?thesis
    using operation_roundtrip [OF ok _ _ j] by (simp add: bounded_ok_def newtype_defs limit_defs)
qed

end
