(* ===== verification/Content.thy ===== *)
theory Content
  imports Operations
begin

text \<open>
  The content of a tool result (\<open>crates/tools/src/content.rs\<close> and the screenshot contract of
  \<open>crates/tools/src/contracts/visual.rs\<close>): base64, the accounting of a result against the text and
  envelope limits, and the batches of images, where an image that no longer fits becomes an error of its
  item. The types of the \<open>rmcp\<close> crate that carry a result are written out; its constructors and its
  serializer are the parameter \<open>rmcp\<close>.
\<close>

section \<open>Results of the rmcp crate\<close>

datatype content_block = TextBlock string | ImageBlock string string | AudioBlock | OtherBlock nat

record call_tool_result =
  ct_content :: "content_block list"
  ct_structured_content :: "json option"
  ct_is_error :: "bool option"

record envelope_context =
  ec_request_id :: string
  ec_protocol_version :: string

text \<open>
  \<open>CallToolResult::structured\<close>, \<open>CallToolResult::structured_error\<close>, and the length of the serialized
  response, which keeps or strips the result type; serializing may fail.
\<close>

record rmcp =
  rm_structured :: "json \<Rightarrow> call_tool_result"
  rm_structured_error :: "json \<Rightarrow> call_tool_result"
  rm_response_len :: "bool \<Rightarrow> string \<Rightarrow> call_tool_result \<Rightarrow> nat option"

text \<open>What the crate documents of the two constructors: the value, and its text as the one text block.\<close>

definition rmcp_structures :: "rmcp \<Rightarrow> bool" where
  "rmcp_structures rm \<longleftrightarrow> (\<forall>v. ct_structured_content (rm_structured rm v) = Some v \<and>
     ct_structured_content (rm_structured_error rm v) = Some v \<and>
     (\<exists>t. length t = src_len v \<and> ct_content (rm_structured rm v) = [TextBlock t]) \<and>
     (\<exists>t. length t = src_len v \<and> ct_content (rm_structured_error rm v) = [TextBlock t]))"

definition includes_result_type :: "envelope_context \<Rightarrow> bool" where
  "includes_result_type context \<longleftrightarrow> ''2026-07-28'' \<le> ec_protocol_version context"

section \<open>Base64\<close>

definition TABLE :: string where
  "TABLE = ''ABCDEFGHIJKLMNOPQRSTUVWXYZabcdefghijklmnopqrstuvwxyz0123456789+/''"

text \<open>One turn of the loop consumes three bytes, or what is left of them.\<close>

function encode_base64 :: "u8 list \<Rightarrow> string" where
  "encode_base64 bytes =
     (if bytes = [] then []
      else
        let remaining = length bytes;
            b0 = bytes ! 0;
            b1 = (if remaining > 1 then bytes ! 1 else 0);
            b2 = (if remaining > 2 then bytes ! 2 else 0) in
        [TABLE ! unat (drop_bit 2 b0),
         TABLE ! unat (or (push_bit 4 (and b0 3)) (drop_bit 4 b1)),
         if remaining > 1 then TABLE ! unat (or (push_bit 2 (and b1 15)) (drop_bit 6 b2)) else CHR ''='',
         if remaining > 2 then TABLE ! unat (and b2 63) else CHR ''=''] @
        encode_base64 (drop 3 bytes))"
  by auto
termination by (relation "measure length") auto

declare encode_base64.simps [simp del]

definition decoded_len :: "string \<Rightarrow> u32" where
  "decoded_len base64 =
     (let padding = length (takeWhile (\<lambda>c. c = CHR ''='') (rev base64));
          n = length base64 * 3 div 4 - padding in
      if n < 2 ^ 32 then of_nat n else - 1)"

text \<open>The reference: RFC 4648 decoding, in groups of four characters with padding only at the end.\<close>

definition base64_value :: "char \<Rightarrow> nat option" where
  "base64_value c = position (\<lambda>d. d = c) TABLE"

definition base64_group :: "nat \<Rightarrow> nat \<Rightarrow> nat \<Rightarrow> nat \<Rightarrow> u8 list" where
  "base64_group v0 v1 v2 v3 =
     [of_nat (v0 * 4 + v1 div 16), of_nat (v1 mod 16 * 16 + v2 div 4), of_nat (v2 mod 4 * 64 + v3)]"

fun decode_base64 :: "string \<Rightarrow> u8 list option" where
  "decode_base64 [] = Some []"
| "decode_base64 (c0 # c1 # c2 # c3 # rest) =
     (if rest = [] \<and> c3 = CHR ''='' then
        if c2 = CHR ''='' then
          do { v0 \<leftarrow> base64_value c0; v1 \<leftarrow> base64_value c1;
               if v1 mod 16 \<noteq> 0 then None else Some (take 1 (base64_group v0 v1 0 0)) }
        else
          do { v0 \<leftarrow> base64_value c0; v1 \<leftarrow> base64_value c1; v2 \<leftarrow> base64_value c2;
               if v2 mod 4 \<noteq> 0 then None else Some (take 2 (base64_group v0 v1 v2 0)) }
      else
        do { v0 \<leftarrow> base64_value c0; v1 \<leftarrow> base64_value c1; v2 \<leftarrow> base64_value c2; v3 \<leftarrow> base64_value c3;
             bytes \<leftarrow> decode_base64 rest;
             Some (base64_group v0 v1 v2 v3 @ bytes) })"
| "decode_base64 _ = None"

lemma table_values:
  assumes "n < 64"
  shows "base64_value (TABLE ! n) = Some n" and "TABLE ! n \<noteq> CHR ''=''"
proof -
  have "list_all (\<lambda>n. base64_value (TABLE ! n) = Some n \<and> TABLE ! n \<noteq> CHR ''='') [0..<64]" by code_simp
  with assms show "base64_value (TABLE ! n) = Some n" "TABLE ! n \<noteq> CHR ''=''"
    by (auto simp: list_all_iff)
qed

text \<open>The bit operations as arithmetic on bytes.\<close>

lemma or_high_low: "(y :: nat) < 2 ^ n \<Longrightarrow> or (push_bit n x) y = x * 2 ^ n + y"
proof -
  assume "y < 2 ^ n"
  then have y: "take_bit n y = y" by (simp add: take_bit_nat_eq_self_iff)
  have "and (push_bit n x) (take_bit n y) = 0" by (rule bit_eqI) (auto simp: bit_simps)
  then have "or (push_bit n x) (take_bit n y) = push_bit n x + take_bit n y"
    by (simp add: disjunctive_add_eq_or)
  then show ?thesis by (simp add: y push_bit_eq_mult)
qed

lemma byte_less: "unat (b :: u8) < 256"
  using unsigned_less [of b, where ?'a = nat] by simp

lemma byte_masks:
  "and (b :: u8) 3 = take_bit 2 b" "and b 15 = take_bit 4 b" "and b 63 = take_bit 6 b"
  by (simp_all add: take_bit_eq_mask mask_eq_exp_minus_1)

lemma mixed_byte:
  assumes "k + n \<le> 8"
  shows "unat (or (push_bit n (take_bit k (a :: u8))) (drop_bit (8 - n) (b :: u8))) =
    unat a mod 2 ^ k * 2 ^ n + unat b div 2 ^ (8 - n)"
proof -
  have "unat b div 2 ^ (8 - n) < 2 ^ n"
    using byte_less [of b] assms by (simp add: div_less_iff_less_mult flip: power_add)
  moreover have "unat a mod 2 ^ k * 2 ^ n < 256"
  proof -
    have "unat a mod 2 ^ k * 2 ^ n < 2 ^ k * 2 ^ n" by simp
    also have "\<dots> \<le> 2 ^ 8" unfolding power_add [symmetric] using assms by (intro power_increasing) auto
    finally show ?thesis by simp
  qed
  moreover have "unat (push_bit n (take_bit k a)) = push_bit n (unat a mod 2 ^ k)"
    if "unat a mod 2 ^ k * 2 ^ n < 256"
    using that unfolding unsigned_push_bit_eq unsigned_take_bit_eq
    by (simp add: take_bit_nat_eq_self_iff take_bit_eq_mod push_bit_eq_mult)
  moreover have "unat (drop_bit (8 - n) b) = unat b div 2 ^ (8 - n)"
    using byte_less [of b] unfolding unsigned_drop_bit_eq
    by (simp add: drop_bit_eq_div take_bit_nat_eq_self)
  ultimately show ?thesis by (simp add: unsigned_or_eq or_high_low)
qed

lemma high_byte: "unat (drop_bit 2 (b :: u8)) = unat b div 4" and low_byte: "unat (take_bit 6 b) = unat b mod 64"
  using byte_less [of b] unfolding unsigned_drop_bit_eq unsigned_take_bit_eq
  by (simp_all add: drop_bit_eq_div take_bit_nat_eq_self take_bit_eq_mod)

lemma shifted_byte:
  "k + n \<le> 8 \<Longrightarrow> unat (push_bit n (take_bit k (a :: u8))) = unat a mod 2 ^ k * 2 ^ n"
  using mixed_byte [of k n a 0] by simp

lemmas encode_bytes = shifted_byte byte_masks high_byte low_byte mixed_byte [of 2 4, simplified] mixed_byte [of 4 2, simplified]

text \<open>The four characters of each group, by arithmetic.\<close>

lemma encode_base64_groups:
  "encode_base64 [] = []"
  "encode_base64 [a] = [TABLE ! (unat a div 4), TABLE ! (unat a mod 4 * 16), CHR ''='', CHR ''='']"
  "encode_base64 [a, b] = [TABLE ! (unat a div 4), TABLE ! (unat a mod 4 * 16 + unat b div 16),
     TABLE ! (unat b mod 16 * 4), CHR ''='']"
  "encode_base64 (a # b # c # rest) = [TABLE ! (unat a div 4), TABLE ! (unat a mod 4 * 16 + unat b div 16),
     TABLE ! (unat b mod 16 * 4 + unat c div 64), TABLE ! (unat c mod 64)] @ encode_base64 rest"
  by (subst encode_base64.simps; simp add: encode_bytes Let_def encode_base64.simps [of "[]"])+

lemma group_values:
  "unat (a :: u8) div 4 < 64" "unat a mod 4 * 16 < 64" "unat a mod 4 * 16 + unat (b :: u8) div 16 < 64"
  "unat b mod 16 * 4 < 64" "unat b mod 16 * 4 + unat (c :: u8) div 64 < 64" "unat c mod 64 < 64"
  using byte_less [of a] byte_less [of b] byte_less [of c] by linarith+

lemma base64_group_bytes:
  "base64_group (unat a div 4) (unat a mod 4 * 16 + unat b div 16) (unat b mod 16 * 4 + unat c div 64) (unat c mod 64) =
     [a, b, c]"
proof -
  have parts: "(x * 16 + unat b div 16) div 16 = x" "(x * 16 + unat b div 16) mod 16 = unat b div 16"
    "(x * 4 + unat c div 64) div 4 = x" "(x * 4 + unat c div 64) mod 4 = unat c div 64" for x
  proof -
    have "unat b div 16 < 16" "unat c div 64 < 4" using byte_less [of b] byte_less [of c] by simp_all
    then show "(x * 16 + unat b div 16) div 16 = x" "(x * 16 + unat b div 16) mod 16 = unat b div 16"
      "(x * 4 + unat c div 64) div 4 = x" "(x * 4 + unat c div 64) mod 4 = unat c div 64" by simp_all
  qed
  have "unat a div 4 * 4 + (unat a mod 4 * 16 + unat b div 16) div 16 = unat a"
    "(unat a mod 4 * 16 + unat b div 16) mod 16 * 16 + (unat b mod 16 * 4 + unat c div 64) div 4 = unat b"
    "(unat b mod 16 * 4 + unat c div 64) mod 4 * 64 + unat c mod 64 = unat c"
    unfolding parts by simp_all
  then show ?thesis by (simp add: base64_group_def)
qed

lemma bytes_cases:
  obtains "bytes = []" | a where "bytes = [a]" | a b where "bytes = [a, b]"
    | a b c rest where "bytes = a # b # c # rest"
  by (cases bytes rule: remdups_adj.cases) (metis list.exhaust)+

lemma decode_encode_base64: "decode_base64 (encode_base64 bytes) = Some bytes"
proof (induction bytes rule: measure_induct_rule [where f = length])
  case (less bytes)
  show ?case
  proof (cases bytes rule: bytes_cases)
    case (2 a)
    then show ?thesis
      using base64_group_bytes [of a 0 0]
      by (simp add: encode_base64_groups table_values group_values)
  next
    case (3 a b)
    then show ?thesis
      using base64_group_bytes [of a b 0]
      by (simp add: encode_base64_groups table_values group_values)
  next
    case (4 a b c rest)
    then have "decode_base64 (encode_base64 rest) = Some rest" using less by simp
    then show ?thesis
      unfolding 4 using base64_group_bytes [of a b c]
      by (simp add: encode_base64_groups table_values group_values)
  qed (simp add: encode_base64_groups)
qed

lemma length_encode_base64: "length (encode_base64 bytes) = (length bytes + 2) div 3 * 4"
proof (induction bytes rule: measure_induct_rule [where f = length])
  case (less bytes)
  have "(5 + n) div 3 = Suc ((n + 2) div 3)" for n :: nat by presburger
  with less show ?case
    by (cases bytes rule: bytes_cases) (simp_all add: encode_base64_groups)
qed

abbreviation "padding_of s \<equiv> length (takeWhile (\<lambda>c. c = CHR ''='') (rev s))"

lemma encode_base64_padding: "padding_of (encode_base64 bytes) = (3 - length bytes mod 3) mod 3"
proof (induction bytes rule: measure_induct_rule [where f = length])
  case (less bytes)
  show ?case
  proof (cases bytes rule: bytes_cases)
    case (4 a b c rest)
    then have IH: "padding_of (encode_base64 rest) = (3 - length rest mod 3) mod 3" using less by simp
    have m: "length bytes mod 3 = length rest mod 3" using 4 by simp
    show ?thesis
    proof (cases rest)
      case Nil
      then show ?thesis unfolding 4 by (simp add: encode_base64_groups table_values group_values)
    next
      case (Cons x xs)
      have "\<exists>c \<in> set (rev (encode_base64 rest)). c \<noteq> CHR ''=''"
        using Cons table_values(2) [OF group_values(1) [of x]]
        by (subst encode_base64.simps) (simp add: encode_bytes Let_def)
      then obtain c' where "c' \<in> set (rev (encode_base64 rest))" "\<not> c' = CHR ''=''" by blast
      then have "takeWhile (\<lambda>c. c = CHR ''='') (rev (encode_base64 rest) @ ys) =
          takeWhile (\<lambda>c. c = CHR ''='') (rev (encode_base64 rest))" for ys
        by (rule takeWhile_append1)
      then show ?thesis unfolding m IH [symmetric] unfolding 4 encode_base64_groups rev_append by simp
    qed
  qed (simp_all add: encode_base64_groups table_values group_values)
qed

lemma decoded_len_encode:
  assumes "length bytes < 2 ^ 32"
  shows "unat (decoded_len (encode_base64 bytes)) = length bytes"
proof -
  have "(n + 2) div 3 * 4 * 3 div 4 - (3 - n mod 3) mod 3 = n" for n :: nat
  proof -
    have "(n + 2) div 3 * 4 * 3 div 4 = (n + 2) div 3 * 3" by simp
    moreover have "(n + 2) div 3 * 3 - (3 - n mod 3) mod 3 = n"
    proof -
      have n: "n = 3 * (n div 3) + n mod 3" by simp
      have "n mod 3 < 3" by simp
      then consider "n mod 3 = 0" | "n mod 3 = 1" | "n mod 3 = 2" by linarith
      then show ?thesis
      proof cases
        case 1
        then have "(n + 2) div 3 = n div 3" using n by presburger
        then show ?thesis using 1 n by simp
      next
        case 2
        then have "(n + 2) div 3 = n div 3 + 1" using n by presburger
        then show ?thesis using 2 n by simp
      next
        case 3
        then have "(n + 2) div 3 = n div 3 + 1" using n by presburger
        then show ?thesis using 3 n by simp
      qed
    qed
    ultimately show ?thesis by (simp only:)
  qed
  then have "length (encode_base64 bytes) * 3 div 4 - padding_of (encode_base64 bytes) = length bytes"
    unfolding length_encode_base64 encode_base64_padding .
  then show ?thesis
    unfolding decoded_len_def Let_def using assms by (simp add: unsigned_of_nat take_bit_nat_eq_self)
qed

section \<open>Public assets\<close>

text \<open>What the tool says of an asset: the raster data itself goes into an image block.\<close>

datatype public_screenshot_asset =
    PublicPng string raster_side raster_side u32 u32
  | PublicJpeg string raster_side raster_side u32 u32
  | PublicSvg string string bool "svg_rejection option"

definition u32_try_from :: "nat \<Rightarrow> u32" where
  "u32_try_from n = (if n < 2 ^ 32 then of_nat n else - 1)"

fun public_asset :: "screenshot_asset \<Rightarrow> public_screenshot_asset" where
  "public_asset (AssetPng node_id data_base64 width height) =
     PublicPng node_id width height (decoded_len data_base64) (u32_try_from (length data_base64))"
| "public_asset (AssetJpeg node_id data_base64 width height) =
     PublicJpeg node_id width height (decoded_len data_base64) (u32_try_from (length data_base64))"
| "public_asset (AssetSvg node_id source safe rejection) = PublicSvg node_id source safe rejection"

fun rejection_kind_name :: "svg_rejection_kind \<Rightarrow> string" where
  "rejection_kind_name SvgParserError = ''parserError''"
| "rejection_kind_name SvgUnsafeElement = ''unsafeElement''"
| "rejection_kind_name SvgUnsafeAttribute = ''unsafeAttribute''"
| "rejection_kind_name SvgUnsafeCss = ''unsafeCss''"
| "rejection_kind_name SvgUnsafeProcessingInstruction = ''unsafeProcessingInstruction''"

definition enc_svg_rejection :: "svg_rejection \<Rightarrow> json" where
  "enc_svg_rejection r = js_obj
     ((''kind'', js_str (rejection_kind_name (svr_kind r))) # enc_opt ''name'' js_str (svr_name r))"

fun enc_public_asset :: "public_screenshot_asset \<Rightarrow> json" where
  "enc_public_asset (PublicPng node_id width height decoded_bytes base64_bytes) = js_obj
     [(''format'', js_str ''png''), (''nodeId'', js_str node_id), (''width'', js_u32 (raster_side_value width)),
      (''height'', js_u32 (raster_side_value height)), (''decodedBytes'', js_u32 decoded_bytes),
      (''base64Bytes'', js_u32 base64_bytes)]"
| "enc_public_asset (PublicJpeg node_id width height decoded_bytes base64_bytes) = js_obj
     [(''format'', js_str ''jpeg''), (''nodeId'', js_str node_id), (''width'', js_u32 (raster_side_value width)),
      (''height'', js_u32 (raster_side_value height)), (''decodedBytes'', js_u32 decoded_bytes),
      (''base64Bytes'', js_u32 base64_bytes)]"
| "enc_public_asset (PublicSvg node_id source safe rejection) = js_obj
     ([(''format'', js_str ''svg''), (''nodeId'', js_str node_id), (''source'', js_str source),
       (''safe'', js_bool safe)] @ enc_opt ''rejection'' enc_svg_rejection rejection)"

section \<open>Accounting\<close>

record accounted =
  ac_result :: call_tool_result
  ac_text_bytes :: nat
  ac_envelope_bytes :: nat
  ac_item_count :: nat

text \<open>\<open>Value::get\<close> on an object.\<close>

definition js_get :: "json \<Rightarrow> string \<Rightarrow> json option" where
  "js_get j key = (case body j of JObj kvs \<Rightarrow> map_of kvs key | _ \<Rightarrow> None)"

definition js_array :: "json \<Rightarrow> json list option" where
  "js_array j = (case body j of JArr xs \<Rightarrow> Some xs | _ \<Rightarrow> None)"

fun block_text_bytes :: "content_block \<Rightarrow> nat" where
  "block_text_bytes (TextBlock t) = length t"
| "block_text_bytes (ImageBlock d m) = 0"
| "block_text_bytes AudioBlock = 0"
| "block_text_bytes (OtherBlock n) = n"

definition non_image_text_bytes :: "call_tool_result \<Rightarrow> nat" where
  "non_image_text_bytes result =
     (case ct_structured_content result of None \<Rightarrow> 0 | Some v \<Rightarrow> src_len v) +
     sum_list (map block_text_bytes (ct_content result))"

definition source_bytes :: "json \<Rightarrow> nat option" where
  "source_bytes asset =
     do { v \<leftarrow> js_get asset ''value''; s \<leftarrow> js_get v ''source''; t \<leftarrow> dec_str s; Some (length t) }"

definition duplicated_svg_source_bytes :: "call_tool_result \<Rightarrow> nat" where
  "duplicated_svg_source_bytes result = (case ct_structured_content result of
     None \<Rightarrow> 0
   | Some v \<Rightarrow> (case Option.bind (js_get v ''assets'') js_array of
       None \<Rightarrow> 0
     | Some assets \<Rightarrow> sum_list (List.map_filter source_bytes assets)))"

fun first_array :: "json \<Rightarrow> string list \<Rightarrow> nat" where
  "first_array v [] = 1"
| "first_array v (key # keys) = (case Option.bind (js_get v key) js_array of
     Some items \<Rightarrow> length items
   | None \<Rightarrow> first_array v keys)"

definition item_count :: "call_tool_result \<Rightarrow> nat" where
  "item_count result = (case ct_structured_content result of
     None \<Rightarrow> max (length (ct_content result)) 1
   | Some v \<Rightarrow> first_array v [''items'', ''assets'', ''matches'', ''nodes'', ''roots'', ''files'', ''pages''])"

definition serialize_mcp_envelope :: "rmcp \<Rightarrow> call_tool_result \<Rightarrow> envelope_context \<Rightarrow> tool_error + nat" where
  "serialize_mcp_envelope rm result context =
     ok_or (tool_error_new InternalError False)
       (rm_response_len rm (includes_result_type context) (ec_request_id context) result)"

definition account_call_tool_result ::
    "rmcp \<Rightarrow> call_tool_result \<Rightarrow> envelope_context \<Rightarrow> tool_error + accounted" where
  "account_call_tool_result rm result context =
     (let text_bytes = non_image_text_bytes result in
      if text_bytes > MAX_TEXT_BYTES then Inl (tool_error_new LimitExceeded False)
      else and_then (serialize_mcp_envelope rm result context) (\<lambda>envelope.
        if envelope > MAX_ENVELOPE_BYTES then Inl (tool_error_new LimitExceeded False)
        else Inr \<lparr>ac_result = result, ac_text_bytes = text_bytes, ac_envelope_bytes = envelope,
                  ac_item_count = item_count result\<rparr>))"

text \<open>For screenshots the source of an SVG, which stands in the value and in its text, counts once.\<close>

definition account_screenshot_call_tool_result ::
    "rmcp \<Rightarrow> call_tool_result \<Rightarrow> envelope_context \<Rightarrow> tool_error + accounted" where
  "account_screenshot_call_tool_result rm result context =
     (let text_bytes = non_image_text_bytes result - duplicated_svg_source_bytes result in
      if text_bytes > MAX_TEXT_BYTES then Inl (tool_error_new LimitExceeded False)
      else and_then (serialize_mcp_envelope rm result context) (\<lambda>envelope.
        if envelope > MAX_ENVELOPE_BYTES then Inl (tool_error_new LimitExceeded False)
        else Inr \<lparr>ac_result = result, ac_text_bytes = text_bytes, ac_envelope_bytes = envelope,
                  ac_item_count = item_count result\<rparr>))"

definition reject_oversize_frame :: "json option \<Rightarrow> tool_error + nat" where
  "reject_oversize_frame encoded =
     and_then (ok_or (tool_error_new InternalError False) encoded) (\<lambda>v.
       if src_len v > MAX_ENVELOPE_BYTES then Inl (tool_error_new LimitExceeded False) else Inr (src_len v))"

definition push_images :: "call_tool_result \<Rightarrow> (string \<times> string) list \<Rightarrow> call_tool_result" where
  "push_images result images =
     result\<lparr>ct_content := ct_content result @ map (\<lambda>(dat, mime). ImageBlock dat mime) images\<rparr>"

definition structured_with_image ::
    "rmcp \<Rightarrow> json \<Rightarrow> string \<Rightarrow> string \<Rightarrow> envelope_context \<Rightarrow> tool_error + call_tool_result" where
  "structured_with_image rm v base64_data mime_type context =
     map_sum id ac_result
       (account_call_tool_result rm (push_images (rm_structured rm v) [(base64_data, mime_type)]) context)"

section \<open>Batches of images\<close>

record accounted_image =
  im_id :: "string option"
  im_structured_item :: json
  im_image_base64 :: string
  im_mime_type :: string

datatype screenshot_pending = PendingImage accounted_image | PendingError json

definition item_success_value :: "json \<Rightarrow> json" where
  "item_success_value v = js_obj [(''status'', js_str ''success''), (''value'', v)]"

definition item_error_value :: "string option \<Rightarrow> json" where
  "item_error_value i = js_obj [(''status'', js_str ''error''),
     (''error'', js_obj
       ([(''code'', js_str ''LIMIT_EXCEEDED''), (''message'', js_str ''The operation exceeded a safety limit.''),
         (''retryable'', js_bool False)] @ enc_opt ''id'' js_str i))]"

definition screenshot_item_allowed :: "accounted_image \<Rightarrow> bool" where
  "screenshot_item_allowed item =
     (if im_mime_type item = ''image/svg+xml'' then
        (case Option.bind (js_get (im_structured_item item) ''source'') dec_str of
           Some s \<Rightarrow> length s | None \<Rightarrow> length (im_image_base64 item)) \<le> MAX_SVG_BYTES
      else length (im_image_base64 item) \<le> MAX_RASTER_BASE64_BYTES)"

definition per_item_allowed :: "accounted_image \<Rightarrow> bool" where
  "per_item_allowed item =
     (if im_mime_type item = ''image/svg+xml'' then length (im_image_base64 item) \<le> MAX_SVG_BYTES
      else length (im_image_base64 item) \<le> MAX_RASTER_BASE64_BYTES)"

text \<open>
  The body of the loop, which the two batches share: what has been kept so far, the images pushed and
  whether one has overflowed; \<open>account\<close> is the accounting of a tentative result.
\<close>

type_synonym batch_state = "json list \<times> (string \<times> string) list \<times> bool"

fun batch_item ::
    "(accounted_image \<Rightarrow> bool) \<Rightarrow> (json list \<Rightarrow> (string \<times> string) list \<Rightarrow> tool_error + accounted)
      \<Rightarrow> batch_state \<Rightarrow> screenshot_pending \<Rightarrow> batch_state" where
  "batch_item allowed account (kept, images, overflow) (PendingError error) = (kept @ [error], images, overflow)"
| "batch_item allowed account (kept, images, overflow) (PendingImage item) =
     (if overflow then (kept @ [item_error_value (im_id item)], images, overflow)
      else if \<not> allowed item then (kept @ [item_error_value (im_id item)], images, overflow)
      else
        let tentative_items = kept @ [item_success_value (im_structured_item item)];
            tentative_images = images @ [(im_image_base64 item, im_mime_type item)] in
        case account tentative_items tentative_images of
          Inr _ \<Rightarrow> (tentative_items, tentative_images, overflow)
        | Inl _ \<Rightarrow> (kept @ [item_error_value (im_id item)], images, True))"

definition account_mixed_images ::
    "rmcp \<Rightarrow> envelope_context \<Rightarrow> screenshot_pending list \<Rightarrow> (json list \<Rightarrow> json) \<Rightarrow> tool_error + accounted" where
  "account_mixed_images rm context items wrapped =
     (let account = (\<lambda>kept images. account_screenshot_call_tool_result rm
            (push_images (rm_structured rm (wrapped kept)) images) context);
          (kept, images, overflow) = foldl (batch_item screenshot_item_allowed account) ([], [], False) items in
      account kept images)"

definition account_batch_images ::
    "rmcp \<Rightarrow> envelope_context \<Rightarrow> accounted_image list \<Rightarrow> (json list \<Rightarrow> json) \<Rightarrow> tool_error + accounted" where
  "account_batch_images rm context items wrapped =
     (let account = (\<lambda>kept images. account_call_tool_result rm
            (push_images (rm_structured rm (wrapped kept)) images) context);
          (kept, images, overflow) =
            foldl (batch_item per_item_allowed account) ([], [], False) (map PendingImage items) in
      account kept images)"

section \<open>Screenshots\<close>

fun screenshot_image :: "screenshot_asset \<Rightarrow> accounted_image" where
  "screenshot_image (AssetPng node_id data_base64 width height) =
     \<lparr>im_id = Some node_id,
      im_structured_item = enc_public_asset (public_asset (AssetPng node_id data_base64 width height)),
      im_image_base64 = data_base64, im_mime_type = ''image/png''\<rparr>"
| "screenshot_image (AssetJpeg node_id data_base64 width height) =
     \<lparr>im_id = Some node_id,
      im_structured_item = enc_public_asset (public_asset (AssetJpeg node_id data_base64 width height)),
      im_image_base64 = data_base64, im_mime_type = ''image/jpeg''\<rparr>"
| "screenshot_image (AssetSvg node_id source safe rejection) =
     \<lparr>im_id = Some node_id,
      im_structured_item = enc_public_asset (public_asset (AssetSvg node_id source safe rejection)),
      im_image_base64 = encode_base64 (map of_char source), im_mime_type = ''image/svg+xml''\<rparr>"

fun truncation_reason_name :: "truncation_reason \<Rightarrow> string" where
  "truncation_reason_name DepthLimit = ''depthLimit''"
| "truncation_reason_name NodeLimit = ''nodeLimit''"
| "truncation_reason_name ByteLimit = ''byteLimit''"

definition enc_truncation :: "truncation \<Rightarrow> json" where
  "enc_truncation t = js_obj
     ((''reason'', js_str (truncation_reason_name (tn_reason t))) #
      enc_opt ''appliedDepth'' enc_u8 (tn_applied_depth t) @ enc_opt ''visitedNodes'' js_uint (tn_visited_nodes t) @
      enc_opt ''encodedBytes'' js_uint (tn_encoded_bytes t))"

definition enc_observation_window :: "observation_window \<Rightarrow> json" where
  "enc_observation_window w = js_obj
     [(''startedAt'', js_str (ow_started_at w)), (''completedAt'', js_str (ow_completed_at w))]"

definition wrap_screenshots :: "get_screenshot_result \<Rightarrow> json list \<Rightarrow> json" where
  "wrap_screenshots result items = js_obj
     ([(''assets'', js_arr items), (''truncated'', js_bool (gsh_truncated result)),
       (''observation'', enc_observation_window (gsh_observation result))] @
      enc_opt ''truncation'' enc_truncation (gsh_truncation result))"

fun screenshot_pending_of :: "screenshot_asset item_result \<Rightarrow> screenshot_pending" where
  "screenshot_pending_of (ItemFailure error) =
     PendingError (js_obj [(''status'', js_str ''error''), (''error'', enc_tool_error error)])"
| "screenshot_pending_of (ItemSuccess v) = PendingImage (screenshot_image v)"

definition account_screenshot_result ::
    "rmcp \<Rightarrow> envelope_context \<Rightarrow> get_screenshot_result \<Rightarrow> tool_error + accounted" where
  "account_screenshot_result rm context result =
     account_mixed_images rm context (map screenshot_pending_of (gsh_assets result)) (wrap_screenshots result)"

section \<open>Batches in closed form\<close>

text \<open>
  The reference of the loop: every image before the cutoff that is allowed on its own is shown, every image
  from the cutoff on is refused. The cutoff is the first allowed image with which the result would no longer
  fit; errors stand in their place throughout.
\<close>

fun shown :: "(accounted_image \<Rightarrow> bool) \<Rightarrow> screenshot_pending \<Rightarrow> json" where
  "shown allowed (PendingError error) = error"
| "shown allowed (PendingImage item) =
     (if allowed item then item_success_value (im_structured_item item) else item_error_value (im_id item))"

fun refused :: "screenshot_pending \<Rightarrow> json" where
  "refused (PendingError error) = error"
| "refused (PendingImage item) = item_error_value (im_id item)"

fun shown_image :: "(accounted_image \<Rightarrow> bool) \<Rightarrow> screenshot_pending \<Rightarrow> (string \<times> string) option" where
  "shown_image allowed (PendingError error) = None"
| "shown_image allowed (PendingImage item) =
     (if allowed item then Some (im_image_base64 item, im_mime_type item) else None)"

definition shown_items :: "(accounted_image \<Rightarrow> bool) \<Rightarrow> screenshot_pending list \<Rightarrow> nat \<Rightarrow> json list" where
  "shown_items allowed items k = map (shown allowed) (take k items) @ map refused (drop k items)"

definition shown_images :: "(accounted_image \<Rightarrow> bool) \<Rightarrow> screenshot_pending list \<Rightarrow> nat \<Rightarrow> (string \<times> string) list" where
  "shown_images allowed items k = List.map_filter (shown_image allowed) (take k items)"

definition image_fits ::
    "(accounted_image \<Rightarrow> bool) \<Rightarrow> (json list \<Rightarrow> (string \<times> string) list \<Rightarrow> tool_error + accounted)
      \<Rightarrow> screenshot_pending list \<Rightarrow> nat \<Rightarrow> bool" where
  "image_fits allowed account items i \<longleftrightarrow> shown_image allowed (items ! i) = None \<or>
     \<not> isl (account (map (shown allowed) (take (Suc i) items)) (shown_images allowed items (Suc i)))"

definition batch_cutoff ::
    "(accounted_image \<Rightarrow> bool) \<Rightarrow> (json list \<Rightarrow> (string \<times> string) list \<Rightarrow> tool_error + accounted)
      \<Rightarrow> screenshot_pending list \<Rightarrow> nat" where
  "batch_cutoff allowed account items =
     length (takeWhile (image_fits allowed account items) [0..<length items])"

lemma shown_images_append:
  "k \<le> length items \<Longrightarrow> shown_images allowed (items @ later) k = shown_images allowed items k"
  by (simp add: shown_images_def)

lemma image_fits_append:
  "i < length items \<Longrightarrow> image_fits allowed account (items @ later) i = image_fits allowed account items i"
  by (simp add: image_fits_def nth_append shown_images_append)

lemma cutoff_le: "batch_cutoff allowed account items \<le> length items"
  unfolding batch_cutoff_def using length_takeWhile_le [of _ "[0..<length items]"] by simp

lemma cutoff_fits: "i < batch_cutoff allowed account items \<Longrightarrow> image_fits allowed account items i"
  unfolding batch_cutoff_def
  by (metis add_0 cutoff_le batch_cutoff_def nth_mem nth_upt order_less_le_trans set_takeWhileD takeWhile_nth)

lemma cutoff_overflows:
  "batch_cutoff allowed account items < length items \<Longrightarrow>
     \<not> image_fits allowed account items (batch_cutoff allowed account items)"
  unfolding batch_cutoff_def
  using nth_length_takeWhile [of "image_fits allowed account items" "[0..<length items]"] by simp

lemma cutoff_snoc:
  "batch_cutoff allowed account (items @ [item]) =
     (if batch_cutoff allowed account items < length items \<or> \<not> image_fits allowed account (items @ [item]) (length items)
      then batch_cutoff allowed account items else Suc (length items))"
proof -
  have same: "takeWhile (image_fits allowed account (items @ [item])) [0..<length items] =
      takeWhile (image_fits allowed account items) [0..<length items]"
    by (rule takeWhile_cong) (simp_all add: image_fits_append)
  have all: "(\<forall>i \<in> set [0..<length items]. image_fits allowed account (items @ [item]) i) \<longleftrightarrow>
      \<not> batch_cutoff allowed account items < length items"
    using cutoff_fits [of _ allowed account items] cutoff_overflows [of allowed account items]
    by (auto simp: image_fits_append)
  show ?thesis
    unfolding batch_cutoff_def [of allowed account "items @ [item]"] length_append
    using cutoff_le [of allowed account items]
    by (simp add: takeWhile_append same all [simplified] flip: batch_cutoff_def)
qed

lemma batch_loop:
  "foldl (batch_item allowed account) ([], [], False) items =
     (let k = batch_cutoff allowed account items in
      (shown_items allowed items k, shown_images allowed items k, k < length items))"
proof (induction items rule: rev_induct)
  case Nil
  then show ?case by (simp add: shown_items_def shown_images_def batch_cutoff_def)
next
  case (snoc item items)
  let ?k = "batch_cutoff allowed account items"
  show ?case
  proof (cases "?k < length items")
    case True
    have "shown_items allowed (items @ [item]) ?k = shown_items allowed items ?k @ [refused item]"
      using True by (simp add: shown_items_def)
    then show ?thesis
      using True snoc by (cases item) (simp_all add: Let_def cutoff_snoc shown_images_append)
  next
    case False
    then have k: "?k = length items" using cutoff_le [of allowed account items] by simp
    have all: "shown_items allowed (items @ [item]) (Suc (length items)) = map (shown allowed) items @ [shown allowed item]"
      "shown_items allowed items (length items) = map (shown allowed) items"
      "shown_items allowed (items @ [item]) (length items) = map (shown allowed) items @ [refused item]"
      by (simp_all add: shown_items_def)
    have images: "shown_images allowed (items @ [item]) (Suc (length items)) =
        shown_images allowed items (length items) @ (case shown_image allowed item of None \<Rightarrow> [] | Some i \<Rightarrow> [i])"
      by (simp add: shown_images_def List.map_filter_def split: option.split)
    show ?thesis
    proof (cases item)
      case (PendingError error)
      then have "image_fits allowed account (items @ [item]) (length items)" by (simp add: image_fits_def)
      then show ?thesis
        using snoc k all images unfolding PendingError by (simp add: Let_def cutoff_snoc)
    next
      case (PendingImage im)
      then have "image_fits allowed account (items @ [item]) (length items) \<longleftrightarrow> \<not> allowed im \<or>
          \<not> isl (account (map (shown allowed) items @ [item_success_value (im_structured_item im)])
            (shown_images allowed items (length items) @ [(im_image_base64 im, im_mime_type im)]))"
        using images [unfolded PendingImage] by (simp add: image_fits_def)
      then show ?thesis
        using snoc k all images [unfolded PendingImage] unfolding PendingImage
        by (auto simp: Let_def cutoff_snoc shown_images_append images split: sum.split)
    qed
  qed
qed

text \<open>What accounting a result says of it.\<close>

lemma accounted_screenshot:
  assumes "account_screenshot_call_tool_result rm result context = Inr a"
  shows "ac_result a = result" "ac_text_bytes a \<le> MAX_TEXT_BYTES" "ac_envelope_bytes a \<le> MAX_ENVELOPE_BYTES"
    "rm_response_len rm (includes_result_type context) (ec_request_id context) result = Some (ac_envelope_bytes a)"
    "ac_item_count a = item_count result"
  using assms
  by (auto simp: account_screenshot_call_tool_result_def serialize_mcp_envelope_def Let_def and_then_Inr_iff
      split: if_splits)

lemma accounted_result:
  assumes "account_call_tool_result rm result context = Inr a"
  shows "ac_result a = result" "ac_text_bytes a = non_image_text_bytes result" "ac_text_bytes a \<le> MAX_TEXT_BYTES"
    "ac_envelope_bytes a \<le> MAX_ENVELOPE_BYTES"
    "rm_response_len rm (includes_result_type context) (ec_request_id context) result = Some (ac_envelope_bytes a)"
  using assms
  by (auto simp: account_call_tool_result_def serialize_mcp_envelope_def Let_def and_then_Inr_iff split: if_splits)

lemma mixed_images_closed:
  "account_mixed_images rm context items wrapped =
     (let account = (\<lambda>kept images. account_screenshot_call_tool_result rm
            (push_images (rm_structured rm (wrapped kept)) images) context);
          k = batch_cutoff screenshot_item_allowed account items in
      account (shown_items screenshot_item_allowed items k) (shown_images screenshot_item_allowed items k))"
  by (simp add: account_mixed_images_def batch_loop Let_def)

lemma batch_images_closed:
  "account_batch_images rm context items wrapped =
     (let account = (\<lambda>kept images. account_call_tool_result rm
            (push_images (rm_structured rm (wrapped kept)) images) context);
          pending = map PendingImage items;
          k = batch_cutoff per_item_allowed account pending in
      account (shown_items per_item_allowed pending k) (shown_images per_item_allowed pending k))"
  by (simp add: account_batch_images_def batch_loop Let_def)

lemma length_shown_items: "length (shown_items allowed items k) = length items"
  by (simp add: shown_items_def)

lemma length_shown_images: "length (shown_images allowed items k) \<le> length items"
  unfolding shown_images_def List.map_filter_def
  by (metis (no_types, lifting) length_filter_le length_map length_take min.bounded_iff)

lemma item_count_wrapped:
  "ct_structured_content r = Some (wrap_screenshots result items) \<Longrightarrow> item_count r = length items"
  by (cases "gsh_truncation result") (simp_all add: item_count_def wrap_screenshots_def js_get_def js_array_def)

section \<open>Properties\<close>

text \<open>
  C30. Base64 loses nothing: what \<open>encode_base64\<close> writes is decoded by the reference back to the same bytes,
  it takes four characters for three bytes begun, and \<open>decoded_len\<close> reads the number of bytes off it.
\<close>

theorem base64_roundtrip:
  assumes "length bytes < 2 ^ 32"
  shows "decode_base64 (encode_base64 bytes) = Some bytes \<and>
    length (encode_base64 bytes) = (length bytes + 2) div 3 * 4 \<and>
    unat (decoded_len (encode_base64 bytes)) = length bytes"
  using decode_encode_base64 length_encode_base64 decoded_len_encode [OF assms] by simp

theorem base64_roundtrip_witness:
  "decode_base64 (encode_base64 [60, 115, 118, 103, 62]) = Some [60, 115, 118, 103, 62] \<and>
   encode_base64 [60, 115, 118, 103, 62] = ''PHN2Zz4=''"
proof -
  have "encode_base64 [60, 115, 118, 103, 62] = ''PHN2Zz4=''" by (simp add: encode_base64_groups TABLE_def)
  then show ?thesis using base64_roundtrip [of "[60, 115, 118, 103, 62]"] by simp
qed

text \<open>
  C10. The screenshots of a call are the greatest prefix that fits: the images before the cutoff that are
  allowed on their own are sent, the first allowed image with which the result would pass a limit and every
  image after it become limit errors in their place, and the errors the plugin reported stay. Nothing else
  of the loop is visible in the result.
\<close>

theorem screenshot_batch_cutoff:
  "account_screenshot_result rm context result =
     (let items = map screenshot_pending_of (gsh_assets result);
          account = (\<lambda>kept images. account_screenshot_call_tool_result rm
            (push_images (rm_structured rm (wrap_screenshots result kept)) images) context);
          k = batch_cutoff screenshot_item_allowed account items in
      account (map (shown screenshot_item_allowed) (take k items) @ map refused (drop k items))
        (List.map_filter (shown_image screenshot_item_allowed) (take k items)))"
  by (simp add: account_screenshot_result_def mixed_images_closed Let_def shown_items_def shown_images_def)

text \<open>
  C26. A screenshot result that is returned is within the text and the envelope limit, says of exactly as
  many items as the plugin answered, and has one text block followed by no more images than those.
\<close>

theorem screenshot_result_fits:
  assumes "rmcp_structures rm" and "account_screenshot_result rm context result = Inr a"
  shows "ac_text_bytes a \<le> MAX_TEXT_BYTES \<and> ac_envelope_bytes a \<le> MAX_ENVELOPE_BYTES \<and>
    ac_item_count a = length (gsh_assets result) \<and>
    (\<exists>t images. ct_content (ac_result a) = TextBlock t # map (\<lambda>(dat, mime). ImageBlock dat mime) images \<and>
       length images \<le> length (gsh_assets result))"
proof -
  define items where "items = map screenshot_pending_of (gsh_assets result)"
  obtain k where a: "account_screenshot_call_tool_result rm
      (push_images (rm_structured rm (wrap_screenshots result (shown_items screenshot_item_allowed items k)))
        (shown_images screenshot_item_allowed items k)) context = Inr a"
    using assms(2) unfolding account_screenshot_result_def mixed_images_closed items_def Let_def by blast
  note limits = accounted_screenshot [OF a]
  have count': "ac_item_count a = length (gsh_assets result)"
    unfolding limits(5)
    using assms(1) by (subst item_count_wrapped)
      (auto simp: rmcp_structures_def push_images_def length_shown_items items_def)
  have "length (shown_images screenshot_item_allowed items k) \<le> length items"
    by (rule length_shown_images)
  moreover obtain t where "ct_content (ac_result a) =
      TextBlock t # map (\<lambda>(dat, mime). ImageBlock dat mime) (shown_images screenshot_item_allowed items k)"
    using assms(1) unfolding limits(1) by (fastforce simp: rmcp_structures_def push_images_def)
  ultimately show ?thesis using limits(2,3) count' by (auto simp: items_def)
qed

definition sample_rmcp :: rmcp where
  "sample_rmcp = \<lparr>
     rm_structured = (\<lambda>v. \<lparr>ct_content = [TextBlock (replicate (src_len v) CHR ''x'')],
       ct_structured_content = Some v, ct_is_error = Some False\<rparr>),
     rm_structured_error = (\<lambda>v. \<lparr>ct_content = [TextBlock (replicate (src_len v) CHR ''x'')],
       ct_structured_content = Some v, ct_is_error = Some True\<rparr>),
     rm_response_len = (\<lambda>keep i result. Some (100 + length i + 40 * length (ct_content result)))\<rparr>"

definition sample_screenshots :: get_screenshot_result where
  "sample_screenshots = \<lparr>
     gsh_assets = [ItemSuccess (AssetPng ''1:2'' ''AAAA'' (RasterSide 1) (RasterSide 1)),
       ItemFailure (tool_error_new NodeNotFound False)],
     gsh_truncated = False, gsh_truncation = None,
     gsh_observation = \<lparr>ow_started_at = ''2026-01-01T00:00:00Z'', ow_completed_at = ''2026-01-01T00:00:01Z''\<rparr>\<rparr>"

lemma sample_accounts:
  assumes "2 * src_len v \<le> MAX_TEXT_BYTES" and "length images \<le> 10"
  shows "\<not> isl (account_screenshot_call_tool_result sample_rmcp (push_images (rm_structured sample_rmcp v) images)
    \<lparr>ec_request_id = ''1'', ec_protocol_version = ''2026-07-28''\<rparr>)"
proof -
  have none: "sum_list (map (block_text_bytes \<circ> (\<lambda>(x, y). ImageBlock x y)) images) = 0"
    by (auto simp: sum_list_eq_0_iff)
  show ?thesis
    using assms
    by (simp add: account_screenshot_call_tool_result_def serialize_mcp_envelope_def Let_def sample_rmcp_def
        push_images_def non_image_text_bytes_def MAX_ENVELOPE_BYTES_def MAX_TEXT_BYTES_def none)
qed

text \<open>A string is written with at most six bytes for each of its own.\<close>

lemma quoted_len_le: "quoted_len s \<le> 2 + 6 * length s"
proof -
  have "escape_len c \<le> 6" for c by (simp add: escape_len_def Let_def)
  then have "sum_list (map escape_len s) \<le> 6 * length s" by (induction s) (simp_all add: add_mono)
  then show ?thesis by (simp add: quoted_len_def)
qed

lemmas sample_size = wrap_screenshots_def enc_observation_window_def sample_screenshots_def js_obj_def js_arr_def
  js_str_def js_u32_def js_uint_def js_bool_def item_success_value_def enc_tool_error_def MAX_TEXT_BYTES_def
  commas_def quoted_len_def escape_len_def digits_len.simps enc_code_def tool_error_new_def

theorem screenshot_result_fits_witness:
  "map_sum id ac_item_count (account_screenshot_result sample_rmcp
     \<lparr>ec_request_id = ''1'', ec_protocol_version = ''2026-07-28''\<rparr> sample_screenshots) = Inr 2"
proof -
  have rm: "rmcp_structures sample_rmcp" by (simp add: rmcp_structures_def sample_rmcp_def)
  have "\<not> isl (account_screenshot_result sample_rmcp
     \<lparr>ec_request_id = ''1'', ec_protocol_version = ''2026-07-28''\<rparr> sample_screenshots)"
    unfolding account_screenshot_result_def mixed_images_closed Let_def
  proof (rule sample_accounts)
    let ?items = "map screenshot_pending_of (gsh_assets sample_screenshots)"
    show "2 * src_len (wrap_screenshots sample_screenshots (shown_items screenshot_item_allowed ?items k)) \<le> MAX_TEXT_BYTES"
      for k
    proof -
      consider "k = 0" | "k = 1" | k' where "k = Suc (Suc k')" by (metis One_nat_def not0_implies_Suc)
      then show ?thesis
        by cases (simp_all add: sample_size shown_items_def screenshot_item_allowed_def item_error_value_def
            MAX_RASTER_BASE64_BYTES_def decoded_len_def u32_try_from_def)
    qed
    show "length (shown_images screenshot_item_allowed ?items k) \<le> 10" for k
      by (rule order_trans [OF length_shown_images]) (simp add: sample_screenshots_def)
  qed
  then obtain a where a: "account_screenshot_result sample_rmcp
     \<lparr>ec_request_id = ''1'', ec_protocol_version = ''2026-07-28''\<rparr> sample_screenshots = Inr a"
    by (cases "account_screenshot_result sample_rmcp
     \<lparr>ec_request_id = ''1'', ec_protocol_version = ''2026-07-28''\<rparr> sample_screenshots") auto
  have "length (gsh_assets sample_screenshots) = 2" by (simp add: sample_screenshots_def)
  then show ?thesis using screenshot_result_fits [OF rm a] by (simp add: a)
qed

end
