(* ===== verification/Contracts.thy ===== *)
theory Contracts
  imports Content "HOL-Library.Sublist"
begin

text \<open>
  The public side of the tools: their names (\<open>crates/tools/src/names.rs\<close>) and the inputs they accept
  (\<open>crates/tools/src/contracts\<close>). Every contract is a transparent wrapper of the protocol type, except the
  search, which trims its texts and demands a criterion.
\<close>

section \<open>Tool names\<close>

datatype tool_name =
    ToolGetComponents | ToolGetDesignContext | ToolGetDevModeData | ToolGetFonts | ToolGetMetadata | ToolGetMotion
  | ToolGetNodes | ToolGetReactions | ToolGetScreenshot | ToolGetSelection | ToolGetStyles | ToolGetVariables
  | ToolListFiles | ToolSearchNodes

definition ALL_TOOLS :: "tool_name list" where
  "ALL_TOOLS = [ToolGetComponents, ToolGetDesignContext, ToolGetDevModeData, ToolGetFonts, ToolGetMetadata,
     ToolGetMotion, ToolGetNodes, ToolGetReactions, ToolGetScreenshot, ToolGetSelection, ToolGetStyles,
     ToolGetVariables, ToolListFiles, ToolSearchNodes]"

fun tool_as_str :: "tool_name \<Rightarrow> string" where
  "tool_as_str ToolGetComponents = ''get_components''"
| "tool_as_str ToolGetDesignContext = ''get_design_context''"
| "tool_as_str ToolGetDevModeData = ''get_dev_mode_data''"
| "tool_as_str ToolGetFonts = ''get_fonts''"
| "tool_as_str ToolGetMetadata = ''get_metadata''"
| "tool_as_str ToolGetMotion = ''get_motion''"
| "tool_as_str ToolGetNodes = ''get_nodes''"
| "tool_as_str ToolGetReactions = ''get_reactions''"
| "tool_as_str ToolGetScreenshot = ''get_screenshot''"
| "tool_as_str ToolGetSelection = ''get_selection''"
| "tool_as_str ToolGetStyles = ''get_styles''"
| "tool_as_str ToolGetVariables = ''get_variables''"
| "tool_as_str ToolListFiles = ''list_files''"
| "tool_as_str ToolSearchNodes = ''search_nodes''"

definition tool_try_from :: "string \<Rightarrow> tool_name option" where
  "tool_try_from v = find (\<lambda>name. tool_as_str name = v) ALL_TOOLS"

lemma tool_try_from_iff: "tool_try_from v = Some tool \<longleftrightarrow> tool_as_str tool = v"
proof
  show "tool_try_from v = Some tool \<Longrightarrow> tool_as_str tool = v"
    by (auto simp: tool_try_from_def find_Some_iff)
  have "tool_try_from (tool_as_str tool) = Some tool"
    by (cases tool) (simp_all add: tool_try_from_def ALL_TOOLS_def)
  then show "tool_as_str tool = v \<Longrightarrow> tool_try_from v = Some tool" by blast
qed

section \<open>Trimming\<close>

text \<open>
  \<open>str::trim\<close>: the twenty-five characters with the Unicode property White_Space, by their UTF-8 bytes. Each
  begins with a byte that begins no other place of a valid text, so a character at the end of a text is
  found by its bytes there.
\<close>

definition white_space :: "string list" where
  "white_space =
     map (\<lambda>c. [c]) [CHR 0x09, CHR 0x0A, CHR 0x0B, CHR 0x0C, CHR 0x0D, CHR 0x20] @
     [[CHR 0xC2, CHR 0x85], [CHR 0xC2, CHR 0xA0], [CHR 0xE1, CHR 0x9A, CHR 0x80]] @
     map (\<lambda>c. [CHR 0xE2, CHR 0x80, c])
       [CHR 0x80, CHR 0x81, CHR 0x82, CHR 0x83, CHR 0x84, CHR 0x85, CHR 0x86, CHR 0x87, CHR 0x88, CHR 0x89, CHR 0x8A,
        CHR 0xA8, CHR 0xA9, CHR 0xAF] @
     [[CHR 0xE2, CHR 0x81, CHR 0x9F], [CHR 0xE3, CHR 0x80, CHR 0x80]]"

text \<open>Takes the given pieces off the front of a text as long as one is there.\<close>

function strip :: "string list \<Rightarrow> string \<Rightarrow> string" where
  "strip pieces s = (case find (\<lambda>w. w \<noteq> [] \<and> prefix w s) pieces of
     None \<Rightarrow> s
   | Some w \<Rightarrow> strip pieces (drop (length w) s))"
  by auto
termination
  by (relation "measure (\<lambda>(pieces, s). length s)") (auto simp: find_Some_iff prefix_def)

declare strip.simps [simp del]

definition trim_start :: "string \<Rightarrow> string" where "trim_start s = strip white_space s"
definition trim_end :: "string \<Rightarrow> string" where "trim_end s = rev (strip (map rev white_space) (rev s))"
definition trim :: "string \<Rightarrow> string" where "trim s = trim_end (trim_start s)"

definition no_front :: "string list \<Rightarrow> string \<Rightarrow> bool" where
  "no_front pieces s \<longleftrightarrow> list_all (\<lambda>w. w \<noteq> [] \<longrightarrow> \<not> prefix w s) pieces"

text \<open>Neither begins nor ends with white space.\<close>

definition trimmed :: "string \<Rightarrow> bool" where
  "trimmed s \<longleftrightarrow> no_front white_space s \<and> no_front (map rev white_space) (rev s)"

lemma no_front_iff: "no_front pieces s \<longleftrightarrow> find (\<lambda>w. w \<noteq> [] \<and> prefix w s) pieces = None"
  by (auto simp: no_front_def list_all_iff find_None_iff)

lemma strip_no_front: "no_front pieces (strip pieces s)"
proof (induction pieces s rule: strip.induct)
  case (1 pieces s)
  then show ?case
    by (subst strip.simps) (auto simp: no_front_iff split: option.split)
qed

lemma strip_same: "no_front pieces s \<Longrightarrow> strip pieces s = s"
  by (subst strip.simps) (simp add: no_front_iff)

lemma strip_suffix: "suffix (strip pieces s) s"
proof (induction pieces s rule: strip.induct)
  case (1 pieces s)
  then show ?case
    by (subst strip.simps) (auto split: option.split intro: suffix_order.trans suffix_drop)
qed

lemma no_front_prefix: "no_front pieces s \<Longrightarrow> prefix t s \<Longrightarrow> no_front pieces t"
  by (auto simp: no_front_def list_all_iff dest: prefix_order.trans)

lemma trim_trimmed: "trimmed (trim s)"
proof -
  have "prefix (trim s) (trim_start s)"
    using strip_suffix [of "map rev white_space" "rev (trim_start s)"]
    by (simp add: trim_def trim_end_def suffix_to_prefix)
  then have "no_front white_space (trim s)"
    using strip_no_front [of white_space s] by (auto simp: trim_start_def intro: no_front_prefix)
  moreover have "no_front (map rev white_space) (rev (trim s))"
    using strip_no_front by (simp add: trim_def trim_end_def)
  ultimately show ?thesis by (simp add: trimmed_def)
qed

lemma trim_same: "trimmed s \<Longrightarrow> trim s = s"
  by (simp add: trimmed_def trim_def trim_start_def trim_end_def strip_same)

lemma trim_sublist: "sublist (trim s) s"
proof -
  have "suffix (strip (map rev white_space) (rev (trim_start s))) (rev (trim_start s))" by (rule strip_suffix)
  then have "prefix (trim s) (trim_start s)" by (simp add: trim_def trim_end_def suffix_to_prefix)
  moreover have "suffix (trim_start s) s" unfolding trim_start_def by (rule strip_suffix)
  ultimately show ?thesis
    by (meson prefix_imp_sublist sublist_order.order.trans suffix_imp_sublist)
qed

lemma trim_length: "length (trim s) \<le> length s"
  using trim_sublist by (rule sublist_length_le)

section \<open>Inputs\<close>

text \<open>\<open>types.is_empty()\<close> leaves an empty list alone; otherwise every name is trimmed.\<close>

definition bounded_option :: "string_newtype \<Rightarrow> string \<Rightarrow> string option" where
  "bounded_option t v = (case bounded_try_from t v of Inl e \<Rightarrow> None | Inr s \<Rightarrow> Some s)"

definition normalize_type :: "string \<Rightarrow> string option" where
  "normalize_type type_name = (if trim type_name = [] then None else bounded_option NODE_TYPE_NAME (trim type_name))"

definition normalize_query :: "string option \<Rightarrow> string option option" where
  "normalize_query query = (case query of
     None \<Rightarrow> Some None
   | Some q \<Rightarrow> if trim q = [] then None else map_option Some (bounded_option QUERY_TEXT (trim q)))"

definition normalize_types :: "string list \<Rightarrow> string list option" where
  "normalize_types types =
     (if types = [] then Some []
      else do { types \<leftarrow> those (map normalize_type types);
                if length types \<le> MAX_INPUT_IDS then Some types else None })"

definition normalize_cursor :: "string option \<Rightarrow> string option option" where
  "normalize_cursor cursor = (case cursor of
     None \<Rightarrow> Some None
   | Some c \<Rightarrow> map_option Some (bounded_option SEARCH_CURSOR (trim c)))"

definition dec_search_tool_input :: "(string \<Rightarrow> string option) \<Rightarrow> json \<Rightarrow> search_nodes_input option" where
  "dec_search_tool_input hyphenated j =
     do { input \<leftarrow> dec_search_nodes_input hyphenated j;
          query \<leftarrow> normalize_query (sni_query input);
          types \<leftarrow> normalize_types (sni_types input);
          if query = None \<and> types = [] then None
          else do { cursor \<leftarrow> normalize_cursor (sni_cursor input);
                    Some (input\<lparr>sni_query := query, sni_types := types, sni_cursor := cursor\<rparr>) } }"

fun dec_tool_input :: "(string \<Rightarrow> string option) \<Rightarrow> read_tag \<Rightarrow> json \<Rightarrow> read_operation option" where
  "dec_tool_input hyphenated tag j =
     (if tag = SearchNodes then map_option OpSearchNodes (dec_search_tool_input hyphenated j)
      else dec_input hyphenated tag j)"

section \<open>What the decoders let through\<close>

text \<open>
  The serializer's printer of doubles is a parameter. serde_json reads the text of a double back as that very
  double for most of them only, so a statement that rests on it asks it of the one scale that is printed.
\<close>

fun operation_scale :: "read_operation \<Rightarrow> f64 option" where
  "operation_scale (OpGetScreenshot (ShotPng c sel scale)) = map_option raster_scale_value scale"
| "operation_scale (OpGetScreenshot (ShotJpeg c sel scale)) = map_option raster_scale_value scale"
| "operation_scale _ = None"

definition prints_scale :: "(f64 \<Rightarrow> json) \<Rightarrow> read_operation \<Rightarrow> bool" where
  "prints_scale pf op \<longleftrightarrow> (\<forall>v \<in> set_option (operation_scale op). dec_f64 (pf v) = Some v)"

lemma decoded_connection:
  assumes "uuid_lowercases hy" and "dec_connection_id hy j = Some u"
  shows "dec_connection_id hy (js_str u) = Some u"
proof -
  obtain v where v: "connection_id_try_from hy v = Inr u"
    using assms(2) by (cases "dec_str j")
      (auto simp: dec_connection_id_def split: sum.split_asm)
  then have "is_canonical_rfc4122_uuid v" "hy v = Some u" by (simp_all add: connection_id_try_from_iff)
  then obtain s where s: "is_canonical_rfc4122_uuid s" "u = map ascii_lower s"
    using assms(1) by (auto simp: uuid_lowercases_def)
  then have "is_canonical_rfc4122_uuid u" "hy u = Some u"
    using assms(1) canonical_uuid_lower [OF s(1)] ascii_lower_idem [OF s(1)]
    by (simp_all only: s uuid_lowercases_def)
  then have "connection_id_try_from hy u = Inr u" by (simp add: connection_id_try_from_iff)
  then show ?thesis by (simp add: dec_connection_id_def)
qed

lemma decoded_option:
  "field_opt m f d = Some x \<Longrightarrow> x = None \<or> (\<exists>j a. x = Some a \<and> d j = Some a)"
  by (auto simp: field_opt_def field_default_def dec_option_def split: option.splits if_splits)

lemma decoded_connection_option:
  "uuid_lowercases hy \<Longrightarrow> field_opt m f (dec_connection_id hy) = Some c \<Longrightarrow> connection_ok hy c"
  by (auto dest!: decoded_option intro: decoded_connection)

lemma decoded_selector_option: "field_opt m f dec_selector = Some s \<Longrightarrow> selector_opt_ok s"
  by (auto dest!: decoded_option dec_selector_ok)

lemma decoded_depth: "field_default m f None deserialize_optional_depth = Some d \<Longrightarrow> depth_ok d"
  by (auto simp: field_default_def deserialize_optional_depth_def bind_eq_Some_conv split: option.splits if_splits)

lemma decoded_strings: "dec_bounded_list MAX_INPUT_IDS (bounded_deserialize t) j = Some xs \<Longrightarrow> strings_ok t xs"
  unfolding strings_ok_def by (rule bounded_list_items)

text \<open>An enum that is written as an object has one entry.\<close>

lemma one_entry_cases:
  assumes "(case body j of JObj [(field, v)] \<Rightarrow> f field v | _ \<Rightarrow> None) = Some x"
  obtains field v where "body j = JObj [(field, v)]" "f field v = Some x"
proof -
  obtain kvs where kvs: "body j = JObj kvs" using assms by (cases "body j") auto
  then obtain field v kvs' where "kvs = (field, v) # kvs'" using assms by (cases kvs) auto
  then show thesis using assms kvs that by (cases kvs') auto
qed

lemma decoded_text: "bounded_deserialize t j = Some s \<Longrightarrow> bounded_ok t s"
  by (simp add: bounded_deserialize_iff)

lemma decoded_scope: "dec_search_scope j = Some s \<Longrightarrow> scope_ok s"
  unfolding dec_search_scope_def by (erule one_entry_cases) (auto simp: decoded_text split: if_splits)

lemma decoded_shot_selector: "dec_screenshot_selector j = Some s \<Longrightarrow> shot_selector_ok s"
  unfolding dec_screenshot_selector_def
  by (erule one_entry_cases) (auto simp: decoded_text dec_node_id_list_def decoded_strings split: if_splits)

lemma decoded_slots:
  "uuid_lowercases hy \<Longrightarrow> field_opt m f (dec_connection_id hy) = Some (Some u) \<Longrightarrow> dec_connection_id hy (js_str u) = Some u"
  "field_opt m f dec_selector = Some (Some s) \<Longrightarrow> selector_ok s"
  "field_default m f None deserialize_optional_depth = Some (Some n) \<Longrightarrow> unat n \<le> MAX_DEPTH"
  using decoded_connection_option decoded_selector_option decoded_depth by fastforce+


lemma decoded_screenshot:
  assumes "uuid_lowercases hy" and "dec_get_screenshot_input hy j = Some i" and "prints_scale pf (OpGetScreenshot i)"
  shows "screenshot_ok hy pf i"
proof -
  obtain m sel format c where m: "field_req m ''selector'' dec_screenshot_selector = Some sel"
    "field_opt m ''connectionId'' (dec_connection_id hy) = Some c" "screenshot_input_variant m c sel format = Some i"
    using assms(2) by (auto simp: dec_get_screenshot_input_def bind_eq_Some_conv)
  have c: "connection_ok hy c" using assms(1) m(2) by (rule decoded_connection_option)
  have sel: "shot_selector_ok sel"
    using m(1) by (auto simp: field_req_def bind_eq_Some_conv decoded_shot_selector)
  have scale: "scale_ok pf scale"
    if "field_opt m ''scale'' dec_raster_scale = Some scale"
      "\<forall>s \<in> set_option scale. dec_f64 (pf (raster_scale_value s)) = Some (raster_scale_value s)" for scale
    using decoded_option [OF that(1)] that(2)
    by (auto simp: scale_ok_def dec_raster_scale_def bind_eq_Some_conv raster_scale_try_from_def
        split: sum.splits if_splits)
  show ?thesis
    using m(3) c sel assms(3)
    by (cases format) (auto simp: bind_eq_Some_conv scale prints_scale_def option.set_map split: if_splits)
qed

lemma decoded_search: "uuid_lowercases hy \<Longrightarrow> dec_search_nodes_input hy j = Some i \<Longrightarrow> search_ok hy i"
proof -
  assume hy: "uuid_lowercases hy" and "dec_search_nodes_input hy j = Some i"
  then obtain m where m: "field_opt m ''connectionId'' (dec_connection_id hy) = Some (sni_connection_id i)"
    "field_req m ''scope'' dec_search_scope = Some (sni_scope i)"
    "field_opt m ''query'' (bounded_deserialize QUERY_TEXT) = Some (sni_query i)"
    "field_default m ''types'' [] dec_node_type_list = Some (sni_types i)"
    "field_default m ''limit'' default_search_limit deserialize_search_limit = Some (sni_limit i)"
    "field_opt m ''cursor'' (bounded_deserialize SEARCH_CURSOR) = Some (sni_cursor i)"
    by (auto simp: dec_search_nodes_input_def bind_eq_Some_conv)
  have "scope_ok (sni_scope i)"
    using m(2) by (auto simp: field_req_def bind_eq_Some_conv decoded_scope)
  moreover have "strings_ok NODE_TYPE_NAME (sni_types i)"
    using m(4) decoded_strings
    by (auto simp: field_default_def dec_node_type_list_def strings_ok_def split: option.splits)
  moreover have "sni_limit i \<noteq> 0 \<and> unat (sni_limit i) \<le> MAX_RETURNED_NODES"
    using m(5) by (auto simp: field_default_def deserialize_search_limit_def bind_eq_Some_conv default_search_limit_def
        MAX_RETURNED_NODES_def split: option.splits if_splits)
  ultimately show ?thesis
    using decoded_connection_option [OF hy m(1)] decoded_option [OF m(3)] decoded_option [OF m(6)]
    by (auto simp: search_ok_def decoded_text)
qed

lemma decoded_nodes:
  "uuid_lowercases hy \<Longrightarrow> dec_get_nodes_input hy j = Some i \<Longrightarrow>
     connection_ok hy (gni_connection_id i) \<and> strings_ok NODE_ID (gni_node_ids i) \<and> depth_ok (gni_depth i)"
  by (auto simp: dec_get_nodes_input_def bind_eq_Some_conv field_req_def dec_node_id_list_def
      intro: decoded_slots decoded_strings)

lemmas decoded_defs = dec_get_metadata_input_def dec_get_selection_input_def dec_get_design_context_input_def
  dec_get_styles_input_def dec_get_variables_input_def dec_get_components_input_def dec_get_fonts_input_def
  dec_get_dev_mode_data_input_def dec_get_reactions_input_def dec_get_motion_input_def dec_scoped_input_def
  scoped_ok_def bind_eq_Some_conv

lemma decoded_input_tag: "dec_input hy tag j = Some op \<Longrightarrow> operation_tag op = tag"
  by (cases tag) auto

lemma decoded_input_ok:
  assumes "uuid_lowercases hy" and "prints_scale pf op" and "dec_input hy tag j = Some op"
  shows "operation_ok hy pf op"
  using assms(2,3) decoded_nodes [OF assms(1)] decoded_search [OF assms(1)] decoded_screenshot [OF assms(1)]
  by (cases tag) (auto simp: decoded_defs intro: decoded_slots(1) [OF assms(1)] decoded_slots(2,3))

section \<open>What the search lets through\<close>

lemma bounded_option_iff: "bounded_option t v = Some s \<longleftrightarrow> s = v \<and> bounded_ok t v"
  by (auto simp: bounded_option_def bounded_try_from_def and_then_Inr_iff and_then_Inl_iff validate_boundary_string_def
      bounded_ok_def split: sum.splits if_splits)

lemma normalize_type_Some:
  "normalize_type v = Some s \<Longrightarrow> s = trim v \<and> s \<noteq> [] \<and> trimmed s \<and> bounded_ok NODE_TYPE_NAME s"
  by (auto simp: normalize_type_def bounded_option_iff trim_trimmed split: if_splits)

lemma those_map: "those (map f xs) = Some ys \<Longrightarrow> map f xs = map Some ys"
  by (induction xs arbitrary: ys) (auto split: option.splits)

lemma normalize_types_Some:
  assumes "normalize_types types = Some types'"
  shows "types' = map trim types" "strings_ok NODE_TYPE_NAME types'" "list_all (\<lambda>s. s \<noteq> [] \<and> trimmed s) types'"
proof -
  have "types' = map trim types \<and> strings_ok NODE_TYPE_NAME types' \<and> list_all (\<lambda>s. s \<noteq> [] \<and> trimmed s) types'"
  proof (cases "types = []")
    case True
    then show ?thesis using assms by (simp add: normalize_types_def strings_ok_def)
  next
    case False
    then have those: "map normalize_type types = map Some types'" and short: "length types' \<le> MAX_INPUT_IDS"
      using assms by (auto simp: normalize_types_def bind_eq_Some_conv split: if_splits dest: those_map)
    then have "list_all2 (\<lambda>v s. normalize_type v = Some s) types types'"
      by (simp add: list_all2_conv_all_nth) (metis length_map nth_map)
    then have "list_all2 (\<lambda>v s. s = trim v \<and> s \<noteq> [] \<and> trimmed s \<and> bounded_ok NODE_TYPE_NAME s) types types'"
      by (rule list_all2_mono) (rule normalize_type_Some)
    then show ?thesis
      using short by (induction types types' rule: list_all2_induct) (auto simp: strings_ok_def)
  qed
  then show "types' = map trim types" "strings_ok NODE_TYPE_NAME types'" "list_all (\<lambda>s. s \<noteq> [] \<and> trimmed s) types'"
    by blast+
qed

text \<open>The input a search sends, out of the one it was given.\<close>

definition trimmed_search :: "search_nodes_input \<Rightarrow> search_nodes_input" where
  "trimmed_search i = i\<lparr>sni_query := map_option trim (sni_query i), sni_types := map trim (sni_types i),
     sni_cursor := map_option trim (sni_cursor i)\<rparr>"

definition search_trimmed :: "search_nodes_input \<Rightarrow> bool" where
  "search_trimmed i \<longleftrightarrow> (sni_query i \<noteq> None \<or> sni_types i \<noteq> []) \<and>
     pred_option (\<lambda>q. q \<noteq> [] \<and> trimmed q) (sni_query i) \<and> list_all (\<lambda>s. s \<noteq> [] \<and> trimmed s) (sni_types i) \<and>
     pred_option (\<lambda>c. c \<noteq> [] \<and> trimmed c) (sni_cursor i)"

lemma normalized_search:
  assumes "dec_search_tool_input hy j = Some i"
  obtains input where "dec_search_nodes_input hy j = Some input" "i = trimmed_search input" "search_trimmed i"
    "search_ok hy input \<longrightarrow> search_ok hy i"
proof -
  obtain input query types cursor where input: "dec_search_nodes_input hy j = Some input"
    and query: "normalize_query (sni_query input) = Some query"
    and types: "normalize_types (sni_types input) = Some types"
    and some: "query \<noteq> None \<or> types \<noteq> []"
    and cursor: "normalize_cursor (sni_cursor input) = Some cursor"
    and i: "i = input\<lparr>sni_query := query, sni_types := types, sni_cursor := cursor\<rparr>"
    using assms by (auto simp: dec_search_tool_input_def bind_eq_Some_conv split: if_splits)
  have q: "query = map_option trim (sni_query input)"
    "pred_option (\<lambda>q. q \<noteq> [] \<and> trimmed q \<and> bounded_ok QUERY_TEXT q) query"
    using query by (auto simp: normalize_query_def bounded_option_iff trim_trimmed split: option.splits if_splits)
  have c: "cursor = map_option trim (sni_cursor input)"
    "pred_option (\<lambda>c. c \<noteq> [] \<and> trimmed c \<and> bounded_ok SEARCH_CURSOR c) cursor"
    using cursor by (auto simp: normalize_cursor_def bounded_option_iff trim_trimmed bounded_ok_def newtype_defs
        split: option.splits)
  show thesis
  proof (rule that [OF input])
    show "i = trimmed_search input"
      by (simp add: i trimmed_search_def q(1) c(1) normalize_types_Some(1) [OF types])
    show "search_trimmed i"
      using some q(2) c(2) normalize_types_Some(3) [OF types]
      by (auto simp: i search_trimmed_def elim: option.pred_mono_strong)
    show "search_ok hy input \<longrightarrow> search_ok hy i"
      using q(2) c(2) normalize_types_Some(2) [OF types]
      by (cases query; cases cursor) (auto simp: i search_ok_def)
  qed
qed

lemma tool_input_tag: "dec_tool_input hy tag j = Some op \<Longrightarrow> operation_tag op = tag"
  using decoded_input_tag by (auto split: if_splits)

lemma tool_input_ok:
  assumes "uuid_lowercases hy" and "prints_scale pf op" and "dec_tool_input hy tag j = Some op"
  shows "operation_ok hy pf op"
proof (cases "tag = SearchNodes")
  case True
  then obtain i where i: "dec_search_tool_input hy j = Some i" "op = OpSearchNodes i" using assms(3) by auto
  obtain input where "dec_search_nodes_input hy j = Some input" "search_ok hy input \<longrightarrow> search_ok hy i"
    using i(1) by (rule normalized_search)
  then show ?thesis using i(2) decoded_search [OF assms(1)] by simp
next
  case False
  then show ?thesis using assms(3) decoded_input_ok [OF assms(1,2)] by simp
qed

section \<open>Properties\<close>

text \<open>
  The names are those of the tools: a name is recognised exactly when it is the text of a tool, which it
  then names, and the fourteen texts differ.
\<close>

theorem tool_names_roundtrip:
  "(tool_try_from v = Some tool \<longleftrightarrow> tool_as_str tool = v) \<and> distinct (map tool_as_str ALL_TOOLS) \<and>
   set ALL_TOOLS = UNIV"
proof -
  have "distinct (map tool_as_str ALL_TOOLS)" by code_simp
  moreover have "tool \<in> set ALL_TOOLS" for tool by (cases tool) (simp_all add: ALL_TOOLS_def)
  ultimately show ?thesis using tool_try_from_iff by blast
qed

text \<open>
  C25. A search that is accepted is the given one with its texts trimmed, and nothing else changed: it has a
  query or a type to look for, its query, its types and its cursor have neither white space at an end nor
  length zero, and all of it is within the bounds of the protocol.
\<close>

theorem search_input_normalised:
  assumes "uuid_lowercases hyphenated" and "dec_search_tool_input hyphenated j = Some i"
  shows "map_option trimmed_search (dec_search_nodes_input hyphenated j) = Some i \<and> search_trimmed i \<and>
    search_ok hyphenated i"
proof -
  obtain input where "dec_search_nodes_input hyphenated j = Some input" "i = trimmed_search input"
    "search_trimmed i" "search_ok hyphenated input \<longrightarrow> search_ok hyphenated i"
    using assms(2) by (rule normalized_search)
  then show ?thesis using decoded_search [OF assms(1)] by simp
qed

definition sample_search :: json where
  "sample_search = js_obj [(''scope'', js_obj [(''pageId'', js_str ''0:1'')]),
     (''query'', js_str (''  Log in'' @ [CHR 0xC2, CHR 0xA0]))]"

lemma trim_sample: "trim (''  Log in'' @ [CHR 0xC2, CHR 0xA0]) = ''Log in''"
  by code_simp

theorem search_input_normalised_witness:
  "\<exists>i. dec_search_tool_input lower_hyphenated sample_search = Some i \<and> sni_query i = Some ''Log in'' \<and> search_trimmed i"
proof -
  have "lower_hyphenated s = Some (map ascii_lower s)" for s by (simp add: lower_hyphenated_def)
  then have hy: "uuid_lowercases lower_hyphenated" by (simp add: uuid_lowercases_def)
  have "dec_search_nodes_input lower_hyphenated sample_search = Some
      \<lparr>sni_connection_id = None, sni_scope = ScopePage ''0:1'', sni_query = Some (''  Log in'' @ [CHR 0xC2, CHR 0xA0]),
       sni_types = [], sni_match = MatchContains, sni_limit = default_search_limit, sni_cursor = None\<rparr>"
    by (simp add: sample_search_def dec_search_nodes_input_def field_opt_def field_default_def field_req_def
        dec_option_def dec_search_scope_def bounded_deserialize_def bounded_try_from_def validate_boundary_string_def
        newtype_defs limit_defs)
  then have "dec_search_tool_input lower_hyphenated sample_search = Some
      \<lparr>sni_connection_id = None, sni_scope = ScopePage ''0:1'', sni_query = Some ''Log in'',
       sni_types = [], sni_match = MatchContains, sni_limit = default_search_limit, sni_cursor = None\<rparr>"
    by (simp add: dec_search_tool_input_def normalize_query_def normalize_types_def normalize_cursor_def trim_sample [simplified]
        bounded_option_iff [THEN iffD2] bounded_ok_def newtype_defs limit_defs)
  then show ?thesis using search_input_normalised [OF hy, of sample_search] by simp
qed

end
