(* ===== verification/Dispatch.thy ===== *)
theory Dispatch
  imports Contracts Client
begin

text \<open>
  A tool call from its name and arguments to the response (\<open>crates/tools/src/dispatch.rs\<close>, \<open>service.rs\<close>,
  \<open>observability.rs\<close>): the wait on an open call as turns of its \<open>select!\<close>, the branch of each tool, and the
  response with its log record. The broker behind the call and the serializers of the results are
  parameters.
\<close>

section \<open>Waiting for a result\<close>

datatype dispatch_error = InvalidParams | ToolFailure tool_error

type_synonym read_answer = "(list_files_result, read_result) broker_result"

definition map_broker_result :: "(tool_error + read_answer) option \<Rightarrow> dispatch_error + read_result" where
  "map_broker_result received = (case received of
     None \<Rightarrow> Inl (ToolFailure (tool_error_new ConnectionLost True))
   | Some (Inl e) \<Rightarrow> Inl (ToolFailure e)
   | Some (Inr (Invocation result)) \<Rightarrow> Inr result
   | Some (Inr (Files files)) \<Rightarrow> Inl (ToolFailure (tool_error_new InternalError False)))"

record progress_notification =
  pn_token :: string
  pn_completed :: u32
  pn_message :: string
  pn_total :: "u32 option"

definition progress_notification_of :: "string \<Rightarrow> normalized_progress \<Rightarrow> progress_notification" where
  "progress_notification_of token progress =
     \<lparr>pn_token = token, pn_completed = np_completed progress, pn_message = phase_as_str (np_phase progress),
      pn_total = np_total progress\<rparr>"

text \<open>
  What one turn finds: the clock, the result (\<^const>\<open>None\<close> while it is pending, \<^term>\<open>Some None\<close> if its sender
  was dropped), the progress channel (likewise), and the cancellation of the caller.
\<close>

record poll =
  po_now :: instant
  po_result :: "(tool_error + read_answer) option option"
  po_progress :: "normalized_progress option option"
  po_cancelled :: bool

record waiting =
  wt_inactivity :: instant
  wt_sent :: "progress_notification list"

text \<open>Aborting cancels the token of the call, and the request at its owner if the call has one.\<close>

datatype abort_effect = CancelToken | CancelRequest string string

definition dispatch_abort :: "bool \<Rightarrow> open_call \<Rightarrow> abort_effect list" where
  "dispatch_abort owner call = CancelToken #
     (case (oc_connection_id call, oc_request_id call, owner) of
        (Some connection_id, Some request_id, True) \<Rightarrow> [CancelRequest connection_id request_id]
      | _ \<Rightarrow> [])"

type_synonym decision = "(dispatch_error + read_result) \<times> abort_effect list"

text \<open>The arms of the biased \<open>select!\<close>, in their order.\<close>

definition wait_turn ::
    "bool \<Rightarrow> open_call \<Rightarrow> string option \<Rightarrow> waiting \<Rightarrow> poll \<Rightarrow> waiting \<times> decision option" where
  "wait_turn owner call token w p = (case po_result p of
     Some received \<Rightarrow> (w, Some (map_broker_result received, []))
   | None \<Rightarrow> (case po_progress p of
       Some None \<Rightarrow> (w, None)
     | Some (Some progress) \<Rightarrow>
         (\<lparr>wt_inactivity = po_now p + oc_inactivity_timeout call,
           wt_sent = wt_sent w @ (case token of None \<Rightarrow> [] | Some t \<Rightarrow> [progress_notification_of t progress])\<rparr>, None)
     | None \<Rightarrow>
         if po_cancelled p
         then (w, Some (Inl (ToolFailure (tool_error_new Cancelled False)), dispatch_abort owner call))
         else if oc_inactivity_timeout call \<noteq> 0 \<and> wt_inactivity w \<le> po_now p
         then (w, Some (Inl (ToolFailure (tool_error_new Timeout True)), dispatch_abort owner call))
         else if oc_total_deadline call \<le> po_now p
         then (w, Some (Inl (ToolFailure (tool_error_new Timeout True)), dispatch_abort owner call))
         else (w, None)))"

fun wait_turns ::
    "bool \<Rightarrow> open_call \<Rightarrow> string option \<Rightarrow> waiting \<Rightarrow> poll list \<Rightarrow> waiting \<times> decision option" where
  "wait_turns owner call token w [] = (w, None)"
| "wait_turns owner call token w (p # ps) = (case wait_turn owner call token w p of
     (w', Some d) \<Rightarrow> (w', Some d)
   | (w', None) \<Rightarrow> wait_turns owner call token w' ps)"

definition wait_for_result ::
    "bool \<Rightarrow> open_call \<Rightarrow> string option \<Rightarrow> instant \<Rightarrow> poll list \<Rightarrow> waiting \<times> decision option" where
  "wait_for_result owner call token started polls =
     wait_turns owner call token \<lparr>wt_inactivity = started + oc_inactivity_timeout call, wt_sent = []\<rparr> polls"

section \<open>Executing a tool\<close>

text \<open>
  The broker client: opening a call, which gives the call and whether it has an owner, the polls of its
  wait, and the call that waits by itself.
\<close>

record broker_env =
  be_open :: "read_operation broker_call \<Rightarrow> tool_error + (open_call \<times> bool)"
  be_started :: instant
  be_polls :: "poll list"
  be_call :: "read_operation broker_call \<Rightarrow> tool_error + read_answer"

record serializers =
  sz_files :: "list_files_result \<Rightarrow> json option"
  sz_result :: "read_result \<Rightarrow> json option"

definition arguments_object :: "(string \<times> json) list option \<Rightarrow> json" where
  "arguments_object arguments = js_obj (case arguments of None \<Rightarrow> [] | Some kvs \<Rightarrow> kvs)"

text \<open>\<open>input.connection_id.take()\<close>: what is taken, and what is left.\<close>

fun operation_connection :: "read_operation \<Rightarrow> string option" where
  "operation_connection (OpGetMetadata i) = gmi_connection_id i"
| "operation_connection (OpGetSelection i) = gsi_connection_id i"
| "operation_connection (OpGetNodes i) = gni_connection_id i"
| "operation_connection (OpSearchNodes i) = sni_connection_id i"
| "operation_connection (OpGetDesignContext i) = gdi_connection_id i"
| "operation_connection (OpGetStyles i) = gty_connection_id i"
| "operation_connection (OpGetVariables i) = gvi_connection_id i"
| "operation_connection (OpGetComponents i) = sci_connection_id i"
| "operation_connection (OpGetFonts i) = sci_connection_id i"
| "operation_connection (OpGetDevModeData i) = sci_connection_id i"
| "operation_connection (OpGetReactions i) = sci_connection_id i"
| "operation_connection (OpGetMotion i) = gmo_connection_id i"
| "operation_connection (OpGetScreenshot i) = screenshot_connection_id i"

fun without_connection :: "read_operation \<Rightarrow> read_operation" where
  "without_connection (OpGetMetadata i) = OpGetMetadata (i\<lparr>gmi_connection_id := None\<rparr>)"
| "without_connection (OpGetSelection i) = OpGetSelection (i\<lparr>gsi_connection_id := None\<rparr>)"
| "without_connection (OpGetNodes i) = OpGetNodes (i\<lparr>gni_connection_id := None\<rparr>)"
| "without_connection (OpSearchNodes i) = OpSearchNodes (i\<lparr>sni_connection_id := None\<rparr>)"
| "without_connection (OpGetDesignContext i) = OpGetDesignContext (i\<lparr>gdi_connection_id := None\<rparr>)"
| "without_connection (OpGetStyles i) = OpGetStyles (i\<lparr>gty_connection_id := None\<rparr>)"
| "without_connection (OpGetVariables i) = OpGetVariables (i\<lparr>gvi_connection_id := None\<rparr>)"
| "without_connection (OpGetComponents i) = OpGetComponents (i\<lparr>sci_connection_id := None\<rparr>)"
| "without_connection (OpGetFonts i) = OpGetFonts (i\<lparr>sci_connection_id := None\<rparr>)"
| "without_connection (OpGetDevModeData i) = OpGetDevModeData (i\<lparr>sci_connection_id := None\<rparr>)"
| "without_connection (OpGetReactions i) = OpGetReactions (i\<lparr>sci_connection_id := None\<rparr>)"
| "without_connection (OpGetMotion i) = OpGetMotion (i\<lparr>gmo_connection_id := None\<rparr>)"
| "without_connection (OpGetScreenshot i) = OpGetScreenshot i"

fun result_tag :: "read_result \<Rightarrow> read_tag" where
  "result_tag (ResGetMetadata r) = GetMetadata"
| "result_tag (ResGetSelection r) = GetSelection"
| "result_tag (ResGetNodes r) = GetNodes"
| "result_tag (ResSearchNodes r) = SearchNodes"
| "result_tag (ResGetDesignContext r) = GetDesignContext"
| "result_tag (ResGetStyles r) = GetStyles"
| "result_tag (ResGetVariables r) = GetVariables"
| "result_tag (ResGetComponents r) = GetComponents"
| "result_tag (ResGetFonts r) = GetFonts"
| "result_tag (ResGetDevModeData r) = GetDevModeData"
| "result_tag (ResGetReactions r) = GetReactions"
| "result_tag (ResGetMotion r) = GetMotion"
| "result_tag (ResGetScreenshot r) = GetScreenshot"

datatype dispatch_output = ValueOutput json | AccountedOutput accounted

text \<open>
  A run of a tool: the calls made to the broker, and the outcome, which is missing while the wait of the
  call goes on.
\<close>

type_synonym 'a dispatched = "read_operation broker_call list \<times> (dispatch_error + 'a) option"

definition invoke ::
    "broker_env \<Rightarrow> string option \<Rightarrow> string option \<Rightarrow> read_operation \<Rightarrow> read_result dispatched" where
  "invoke env token connection_id operation =
     ([Invoke connection_id operation],
      case be_open env (Invoke connection_id operation) of
        Inl e \<Rightarrow> Some (Inl (ToolFailure e))
      | Inr (call, owner) \<Rightarrow>
          map_option fst (snd (wait_for_result owner call token (be_started env) (be_polls env))))"

definition internal_failure :: dispatch_error where
  "internal_failure = ToolFailure (tool_error_new InternalError False)"

definition result_value :: "json option \<Rightarrow> dispatch_error + json" where
  "result_value v = ok_or internal_failure v"

definition and_answer :: "'a dispatched \<Rightarrow> ('a \<Rightarrow> dispatch_error + 'b) \<Rightarrow> 'b dispatched" where
  "and_answer d f = (fst d, map_option (\<lambda>r. and_then r f) (snd d))"

definition read_branch ::
    "(string \<Rightarrow> string option) \<Rightarrow> serializers \<Rightarrow> broker_env \<Rightarrow> string option \<Rightarrow> read_tag
      \<Rightarrow> (string \<times> json) list option \<Rightarrow> dispatch_output dispatched" where
  "read_branch hyphenated sz env token tag arguments =
     (case dec_tool_input hyphenated tag (arguments_object arguments) of
        None \<Rightarrow> ([], Some (Inl InvalidParams))
      | Some input \<Rightarrow>
          and_answer (invoke env token (operation_connection input) (without_connection input)) (\<lambda>result.
            if result_tag result = tag then map_sum id ValueOutput (result_value (sz_result sz result))
            else Inl internal_failure))"

definition screenshot_branch ::
    "(string \<Rightarrow> string option) \<Rightarrow> rmcp \<Rightarrow> envelope_context \<Rightarrow> broker_env \<Rightarrow> string option
      \<Rightarrow> (string \<times> json) list option \<Rightarrow> dispatch_output dispatched" where
  "screenshot_branch hyphenated rm context env token arguments =
     (case dec_tool_input hyphenated GetScreenshot (arguments_object arguments) of
        None \<Rightarrow> ([], Some (Inl InvalidParams))
      | Some input \<Rightarrow>
          and_answer (invoke env token (operation_connection input) input) (\<lambda>result. case result of
            ResGetScreenshot v \<Rightarrow> map_sum ToolFailure AccountedOutput (account_screenshot_result rm context v)
          | _ \<Rightarrow> Inl internal_failure))"

definition list_files_branch ::
    "serializers \<Rightarrow> broker_env \<Rightarrow> (string \<times> json) list option \<Rightarrow> dispatch_output dispatched" where
  "list_files_branch sz env arguments =
     (case dec_list_files_input (arguments_object arguments) of
        None \<Rightarrow> ([], Some (Inl InvalidParams))
      | Some _ \<Rightarrow>
          ([ListFiles], Some (case be_call env ListFiles of
             Inl e \<Rightarrow> Inl (ToolFailure e)
           | Inr (Files files) \<Rightarrow> map_sum id ValueOutput (result_value (sz_files sz files))
           | Inr (Invocation r) \<Rightarrow> Inl internal_failure)))"

fun execute ::
    "(string \<Rightarrow> string option) \<Rightarrow> rmcp \<Rightarrow> envelope_context \<Rightarrow> serializers \<Rightarrow> broker_env \<Rightarrow> string option
      \<Rightarrow> tool_name \<Rightarrow> (string \<times> json) list option \<Rightarrow> dispatch_output dispatched" where
  "execute hy rm context sz env token ToolListFiles arguments = list_files_branch sz env arguments"
| "execute hy rm context sz env token ToolGetMetadata arguments = read_branch hy sz env token GetMetadata arguments"
| "execute hy rm context sz env token ToolGetSelection arguments = read_branch hy sz env token GetSelection arguments"
| "execute hy rm context sz env token ToolGetNodes arguments = read_branch hy sz env token GetNodes arguments"
| "execute hy rm context sz env token ToolSearchNodes arguments = read_branch hy sz env token SearchNodes arguments"
| "execute hy rm context sz env token ToolGetDesignContext arguments =
     read_branch hy sz env token GetDesignContext arguments"
| "execute hy rm context sz env token ToolGetStyles arguments = read_branch hy sz env token GetStyles arguments"
| "execute hy rm context sz env token ToolGetVariables arguments = read_branch hy sz env token GetVariables arguments"
| "execute hy rm context sz env token ToolGetComponents arguments = read_branch hy sz env token GetComponents arguments"
| "execute hy rm context sz env token ToolGetFonts arguments = read_branch hy sz env token GetFonts arguments"
| "execute hy rm context sz env token ToolGetDevModeData arguments =
     read_branch hy sz env token GetDevModeData arguments"
| "execute hy rm context sz env token ToolGetReactions arguments = read_branch hy sz env token GetReactions arguments"
| "execute hy rm context sz env token ToolGetMotion arguments = read_branch hy sz env token GetMotion arguments"
| "execute hy rm context sz env token ToolGetScreenshot arguments =
     screenshot_branch hy rm context env token arguments"

section \<open>The response\<close>

record tool_observation =
  ob_request_id :: string
  ob_tool_name :: string
  ob_connection_id :: "string option"
  ob_item_count :: nat
  ob_text_bytes :: nat
  ob_envelope_bytes :: nat
  ob_error_code :: string

text \<open>The log's own copy of the wire names.\<close>

fun known_error_code_tag :: "error_code \<Rightarrow> string" where
  "known_error_code_tag NoFigmaConnection = ''NO_FIGMA_CONNECTION''"
| "known_error_code_tag AmbiguousConnection = ''AMBIGUOUS_CONNECTION''"
| "known_error_code_tag ConnectionNotFound = ''CONNECTION_NOT_FOUND''"
| "known_error_code_tag ConnectionLost = ''CONNECTION_LOST''"
| "known_error_code_tag error_code.ProtocolMismatch = ''PROTOCOL_MISMATCH''"
| "known_error_code_tag NodeNotFound = ''NODE_NOT_FOUND''"
| "known_error_code_tag NodeNotVisible = ''NODE_NOT_VISIBLE''"
| "known_error_code_tag PageNotFound = ''PAGE_NOT_FOUND''"
| "known_error_code_tag UnsupportedNode = ''UNSUPPORTED_NODE''"
| "known_error_code_tag EmptyNodeBounds = ''EMPTY_NODE_BOUNDS''"
| "known_error_code_tag CapabilityUnavailable = ''CAPABILITY_UNAVAILABLE''"
| "known_error_code_tag UnsafeSvg = ''UNSAFE_SVG''"
| "known_error_code_tag InvalidCursor = ''INVALID_CURSOR''"
| "known_error_code_tag LimitExceeded = ''LIMIT_EXCEEDED''"
| "known_error_code_tag Timeout = ''TIMEOUT''"
| "known_error_code_tag Cancelled = ''CANCELLED''"
| "known_error_code_tag InternalError = ''INTERNAL_ERROR''"

definition parse_error_code :: "string \<Rightarrow> error_code option" where
  "parse_error_code code = dec_code (js_str code)"

definition tool_result_log_code :: "bool option \<Rightarrow> string option \<Rightarrow> string" where
  "tool_result_log_code is_error structured_code =
     (if is_error \<noteq> Some True then ''OK''
      else case Option.bind structured_code parse_error_code of
        Some code \<Rightarrow> known_error_code_tag code
      | None \<Rightarrow> ''UNKNOWN'')"

definition observe ::
    "envelope_context \<Rightarrow> tool_name \<Rightarrow> string option \<Rightarrow> accounted \<Rightarrow> string \<Rightarrow> tool_observation" where
  "observe context tool connection_id a code =
     \<lparr>ob_request_id = ec_request_id context, ob_tool_name = tool_as_str tool, ob_connection_id = connection_id,
      ob_item_count = ac_item_count a, ob_text_bytes = ac_text_bytes a, ob_envelope_bytes = ac_envelope_bytes a,
      ob_error_code = code\<rparr>"

definition tool_error_response ::
    "rmcp \<Rightarrow> tool_error \<Rightarrow> envelope_context \<Rightarrow> tool_name \<Rightarrow> string option
      \<Rightarrow> call_tool_result \<times> tool_observation" where
  "tool_error_response rm error context tool connection_id =
     (let result = rm_structured_error rm (enc_tool_error error);
          a = (case account_call_tool_result rm result context of
            Inr a \<Rightarrow> a
          | Inl _ \<Rightarrow> \<lparr>ac_result = result, ac_text_bytes = 0, ac_envelope_bytes = 0, ac_item_count = 0\<rparr>) in
      (ac_result a, observe context tool connection_id a (known_error_code_tag (te_code error))))"

text \<open>A value that does not fit is answered by its error, as a structured one.\<close>

fun account_output :: "rmcp \<Rightarrow> envelope_context \<Rightarrow> dispatch_output \<Rightarrow> tool_error + accounted" where
  "account_output rm context (AccountedOutput a) = Inr a"
| "account_output rm context (ValueOutput v) =
     (case account_call_tool_result rm (rm_structured rm v) context of
        Inr a \<Rightarrow> Inr a
      | Inl error \<Rightarrow> account_call_tool_result rm (rm_structured_error rm (enc_tool_error error)) context)"

definition structured_code :: "call_tool_result \<Rightarrow> string option" where
  "structured_code result = do { v \<leftarrow> ct_structured_content result; c \<leftarrow> js_get v ''code''; dec_str c }"

datatype mcp_error = MethodNotFound string | McpInvalidParams

fun outcome_response ::
    "rmcp \<Rightarrow> envelope_context \<Rightarrow> tool_name \<Rightarrow> string option \<Rightarrow> dispatch_error + dispatch_output
      \<Rightarrow> mcp_error + (call_tool_result \<times> tool_observation)" where
  "outcome_response rm context tool connection_id (Inr output) = Inr (case account_output rm context output of
     Inr a \<Rightarrow> (ac_result a, observe context tool connection_id a
         (tool_result_log_code (ct_is_error (ac_result a)) (structured_code (ac_result a))))
   | Inl error \<Rightarrow> tool_error_response rm error context tool connection_id)"
| "outcome_response rm context tool connection_id (Inl InvalidParams) = Inl McpInvalidParams"
| "outcome_response rm context tool connection_id (Inl (ToolFailure error)) =
     Inr (tool_error_response rm error context tool connection_id)"

definition argument_connection :: "(string \<times> json) list option \<Rightarrow> string option" where
  "argument_connection arguments = do { kvs \<leftarrow> arguments; c \<leftarrow> map_of kvs ''connectionId''; dec_str c }"

definition call_tool ::
    "(string \<Rightarrow> string option) \<Rightarrow> rmcp \<Rightarrow> envelope_context \<Rightarrow> serializers \<Rightarrow> broker_env \<Rightarrow> string option
      \<Rightarrow> string \<Rightarrow> (string \<times> json) list option
      \<Rightarrow> read_operation broker_call list \<times> (mcp_error + (call_tool_result \<times> tool_observation)) option" where
  "call_tool hy rm context sz env token name arguments = (case tool_try_from name of
     None \<Rightarrow> ([], Some (Inl (MethodNotFound name)))
   | Some tool \<Rightarrow> (case execute hy rm context sz env token tool arguments of (calls, outcome) \<Rightarrow>
       (calls, map_option (outcome_response rm context tool (argument_connection arguments)) outcome)))"

section \<open>How a wait ends\<close>



text \<open>A turn that must decide: nothing in the progress channel, and a result, a cancellation or the deadline.\<close>

definition must_end :: "open_call \<Rightarrow> poll \<Rightarrow> bool" where
  "must_end call p \<longleftrightarrow> po_result p \<noteq> None \<or>
     po_progress p = None \<and> (po_cancelled p \<or> oc_total_deadline call \<le> po_now p)"


lemma wait_turns_append:
  "wait_turns owner call token w (ps @ qs) = (case wait_turns owner call token w ps of
     (w', Some d) \<Rightarrow> (w', Some d)
   | (w', None) \<Rightarrow> wait_turns owner call token w' qs)"
  by (induction ps arbitrary: w) (auto split: prod.split option.split)




lemma must_end_decides: "must_end call p \<Longrightarrow> snd (wait_turn owner call token w p) \<noteq> None"
  by (auto simp: must_end_def wait_turn_def split: option.splits)

lemma wait_ended:
  "i < length polls \<Longrightarrow> must_end call (polls ! i) \<Longrightarrow> snd (wait_turns owner call token w polls) \<noteq> None"
proof (induction polls arbitrary: w i)
  case (Cons p ps)
  obtain v e where v: "wait_turn owner call token w p = (v, e)" by force
  show ?case
  proof (cases i)
    case 0
    then show ?thesis using Cons.prems must_end_decides [of call p owner token w] v by (auto split: option.split)
  next
    case (Suc k)
    then show ?thesis using Cons.IH [of k v] Cons.prems v by (auto split: option.split)
  qed
qed simp

section \<open>What a tool sends and returns\<close>

fun tool_tag :: "tool_name \<Rightarrow> read_tag option" where
  "tool_tag ToolListFiles = None"
| "tool_tag ToolGetMetadata = Some GetMetadata"
| "tool_tag ToolGetSelection = Some GetSelection"
| "tool_tag ToolGetNodes = Some GetNodes"
| "tool_tag ToolSearchNodes = Some SearchNodes"
| "tool_tag ToolGetDesignContext = Some GetDesignContext"
| "tool_tag ToolGetStyles = Some GetStyles"
| "tool_tag ToolGetVariables = Some GetVariables"
| "tool_tag ToolGetComponents = Some GetComponents"
| "tool_tag ToolGetFonts = Some GetFonts"
| "tool_tag ToolGetDevModeData = Some GetDevModeData"
| "tool_tag ToolGetReactions = Some GetReactions"
| "tool_tag ToolGetMotion = Some GetMotion"
| "tool_tag ToolGetScreenshot = Some GetScreenshot"

lemma execute_tag:
  "tool_tag tool = None \<longleftrightarrow> tool = ToolListFiles"
  "tool_tag tool = Some GetScreenshot \<longleftrightarrow> tool = ToolGetScreenshot"
  "tool_tag tool = Some tag \<Longrightarrow> tag \<noteq> GetScreenshot \<Longrightarrow>
     execute hy rm context sz env token tool arguments = read_branch hy sz env token tag arguments"
  by (cases tool; simp)+

lemma without_connection_ok: "operation_ok hy pf op \<Longrightarrow> operation_ok hy pf (without_connection op)"
  by (cases op) (auto simp: scoped_ok_def search_ok_def)

lemma without_connection_tag: "operation_tag (without_connection op) = operation_tag op"
  by (cases op) simp_all

text \<open>
  The outcome of a read tool, told from its one call: the error of a call that was not opened, the error its
  wait ended with, or what the result of that wait comes to. A result of another kind is an internal error; a
  screenshot is accounted with its images; and any other result is sent as the value it serializes to.
\<close>

definition read_output ::
    "rmcp \<Rightarrow> envelope_context \<Rightarrow> serializers \<Rightarrow> read_tag \<Rightarrow> read_result \<Rightarrow> dispatch_error + dispatch_output" where
  "read_output rm context sz tag result =
     (if result_tag result \<noteq> tag then Inl internal_failure
      else case result of
        ResGetScreenshot shots \<Rightarrow> (case account_screenshot_result rm context shots of
          Inl e \<Rightarrow> Inl (ToolFailure e)
        | Inr a \<Rightarrow> Inr (AccountedOutput a))
      | _ \<Rightarrow> (case sz_result sz result of
          None \<Rightarrow> Inl internal_failure
        | Some v \<Rightarrow> Inr (ValueOutput v)))"

definition call_outcome ::
    "broker_env \<Rightarrow> string option \<Rightarrow> read_operation broker_call \<Rightarrow> (read_result \<Rightarrow> dispatch_error + 'a)
      \<Rightarrow> (dispatch_error + 'a) option" where
  "call_outcome env token call answer = (case be_open env call of
     Inl e \<Rightarrow> Some (Inl (ToolFailure e))
   | Inr (opened, owner) \<Rightarrow>
       (case snd (wait_for_result owner opened token (be_started env) (be_polls env)) of
          None \<Rightarrow> None
        | Some (Inl e, effects) \<Rightarrow> Some (Inl e)
        | Some (Inr result, effects) \<Rightarrow> Some (answer result)))"

lemma answered_branch:
  "and_answer (invoke env token c op) f = ([Invoke c op], call_outcome env token (Invoke c op) f)"
  by (auto simp: and_answer_def invoke_def call_outcome_def split: sum.split option.split prod.split)

lemma read_output_simps:
  "read_output rm context sz GetScreenshot = (\<lambda>result. case result of
     ResGetScreenshot shots \<Rightarrow> map_sum ToolFailure AccountedOutput (account_screenshot_result rm context shots)
   | _ \<Rightarrow> Inl internal_failure)"
  "tag \<noteq> GetScreenshot \<Longrightarrow> read_output rm context sz tag = (\<lambda>result.
     if result_tag result = tag then map_sum id ValueOutput (result_value (sz_result sz result))
     else Inl internal_failure)"
  by (auto simp: read_output_def result_value_def fun_eq_iff split: read_result.split sum.split option.split)

lemma execute_read:
  assumes "tool_tag tool = Some tag"
    and "execute hy rm context sz env token tool arguments = (Invoke c op # calls, outcome)"
  obtains input where "dec_tool_input hy tag (arguments_object arguments) = Some input" "calls = []"
    "c = operation_connection input" "op = (if tag = GetScreenshot then input else without_connection input)"
    "outcome = call_outcome env token (Invoke c op) (read_output rm context sz tag)"
proof (cases "tag = GetScreenshot")
  case True
  then have tool: "tool = ToolGetScreenshot" using assms(1) execute_tag(2) by simp
  obtain input where input: "dec_tool_input hy tag (arguments_object arguments) = Some input"
    using assms(2) True by (auto simp: tool screenshot_branch_def split: option.splits)
  have "execute hy rm context sz env token tool arguments = ([Invoke (operation_connection input) input],
      call_outcome env token (Invoke (operation_connection input) input) (read_output rm context sz tag))"
    by (simp only: tool True execute.simps screenshot_branch_def input [unfolded True] option.case answered_branch
        read_output_simps(1))
  then show thesis using assms(2) input True that by simp
next
  case False
  obtain input where input: "dec_tool_input hy tag (arguments_object arguments) = Some input"
    using assms(2) by (auto simp: execute_tag(3) [OF assms(1) False] read_branch_def split: option.splits)
  have "execute hy rm context sz env token tool arguments =
      ([Invoke (operation_connection input) (without_connection input)],
      call_outcome env token (Invoke (operation_connection input) (without_connection input)) (read_output rm context sz tag))"
    by (simp only: execute_tag(3) [OF assms(1) False] read_branch_def input option.case answered_branch
        read_output_simps(2) [OF False])
  then show thesis using assms(2) input False that by simp
qed

text \<open>The documented flag of the two constructors of a result.\<close>

definition rmcp_flags :: "rmcp \<Rightarrow> bool" where
  "rmcp_flags rm \<longleftrightarrow> (\<forall>v. ct_is_error (rm_structured rm v) \<noteq> Some True \<and>
     ct_is_error (rm_structured_error rm v) = Some True)"

text \<open>The log has the wire name of every code, which parses back to it.\<close>

lemma known_code: "known_error_code_tag c = code_name c" "parse_error_code (code_name c) = Some c"
proof -
  show "known_error_code_tag c = code_name c" by (cases c) simp_all
  show "parse_error_code (code_name c) = Some c"
    by (cases c) (simp_all add: parse_error_code_def dec_code_def code_tags_def ALL_CODES_def)
qed

lemma error_code_of_result:
  "rmcp_structures rm \<Longrightarrow> structured_code (rm_structured_error rm (enc_tool_error e)) = Some (code_name (te_code e))"
  by (simp add: structured_code_def rmcp_structures_def enc_tool_error_def js_get_def enc_code_def)

lemma error_log_code:
  "rmcp_structures rm \<Longrightarrow> rmcp_flags rm \<Longrightarrow>
     tool_result_log_code (ct_is_error (rm_structured_error rm (enc_tool_error e)))
       (structured_code (rm_structured_error rm (enc_tool_error e))) = code_name (te_code e)"
  by (simp add: tool_result_log_code_def error_code_of_result known_code rmcp_flags_def)

text \<open>A response is either a structured error with its code in the log, or it is within the limits.\<close>

definition good_response :: "rmcp \<Rightarrow> envelope_context \<Rightarrow> call_tool_result \<times> tool_observation \<Rightarrow> bool" where
  "good_response rm context r \<longleftrightarrow> (case r of (result, ob) \<Rightarrow>
     if ct_is_error result = Some True
     then (\<exists>e. result = rm_structured_error rm (enc_tool_error e) \<and> ob_error_code ob = code_name (te_code e))
     else ob_error_code ob = ''OK'' \<and> ob_text_bytes ob \<le> MAX_TEXT_BYTES \<and> ob_envelope_bytes ob \<le> MAX_ENVELOPE_BYTES \<and>
       rm_response_len rm (includes_result_type context) (ec_request_id context) result = Some (ob_envelope_bytes ob))"

lemma error_response_good:
  "rmcp_structures rm \<Longrightarrow> rmcp_flags rm \<Longrightarrow> good_response rm context (tool_error_response rm e context tool c)"
  by (auto simp: good_response_def tool_error_response_def Let_def rmcp_flags_def observe_def known_code
      dest: accounted_result(1) split: sum.split)

definition accounted_good :: "rmcp \<Rightarrow> envelope_context \<Rightarrow> accounted \<Rightarrow> bool" where
  "accounted_good rm context a \<longleftrightarrow> ct_is_error (ac_result a) \<noteq> Some True \<and> ac_text_bytes a \<le> MAX_TEXT_BYTES \<and>
     ac_envelope_bytes a \<le> MAX_ENVELOPE_BYTES \<and>
     rm_response_len rm (includes_result_type context) (ec_request_id context) (ac_result a) = Some (ac_envelope_bytes a)"

lemma screenshot_good:
  assumes "rmcp_flags rm" and "account_screenshot_result rm context result = Inr a"
  shows "accounted_good rm context a"
proof -
  obtain v images where a: "account_screenshot_call_tool_result rm (push_images (rm_structured rm v) images) context = Inr a"
    using assms(2) unfolding account_screenshot_result_def mixed_images_closed Let_def by blast
  then show ?thesis
    using accounted_screenshot [OF a] assms(1) by (simp add: accounted_good_def push_images_def rmcp_flags_def)
qed

lemma execute_good:
  assumes "rmcp_flags rm" and "snd (execute hy rm context sz env token tool arguments) = Some (Inr (AccountedOutput a))"
  shows "accounted_good rm context a"
proof -
  have accounted: "map_sum ToolFailure AccountedOutput r = Inr (AccountedOutput a) \<Longrightarrow> r = Inr a" for r
    by (cases r) simp_all
  have no_accounted: "map_sum id ValueOutput r \<noteq> Inr (AccountedOutput a)" for r :: "dispatch_error + json"
    by (cases r) simp_all
  have "tool = ToolGetScreenshot"
  proof (cases "tool_tag tool")
    case None
    then show ?thesis
      using assms(2) no_accounted
      by (auto simp: execute_tag(1) list_files_branch_def split: option.splits sum.splits broker_result.splits)
  next
    case (Some tag)
    then show ?thesis
      using assms(2) no_accounted execute_tag(2,3)
      by (cases "tag = GetScreenshot") (auto simp: read_branch_def and_answer_def and_then_Inr_iff split: option.splits if_splits)
  qed
  then obtain result where "(case result of
      ResGetScreenshot shots \<Rightarrow> map_sum ToolFailure AccountedOutput (account_screenshot_result rm context shots)
    | _ \<Rightarrow> Inl internal_failure) = Inr (AccountedOutput a)"
    using assms(2)
    by (auto simp: screenshot_branch_def and_answer_def and_then_Inr_iff split: option.splits)
  then obtain shots where "account_screenshot_result rm context shots = Inr a"
    by (cases result) (auto dest!: accounted)
  then show ?thesis by (rule screenshot_good [OF assms(1)])
qed

lemma response_good:
  assumes "rmcp_structures rm" and "rmcp_flags rm"
    and "\<And>a. outcome = Inr (AccountedOutput a) \<Longrightarrow> accounted_good rm context a"
    and "outcome_response rm context tool c outcome = Inr r"
  shows "good_response rm context r"
proof (cases outcome)
  case (Inl e)
  then show ?thesis using assms by (cases e) (auto intro: error_response_good)
next
  case (Inr out)
  have ok: "good_response rm context (ac_result a, observe context tool c a
      (tool_result_log_code (ct_is_error (ac_result a)) (structured_code (ac_result a))))"
    if "accounted_good rm context a" for a
    using that by (simp add: good_response_def accounted_good_def observe_def tool_result_log_code_def)
  show ?thesis
  proof (cases out)
    case (AccountedOutput a)
    then show ?thesis using assms(3,4) Inr ok by auto
  next
    case (ValueOutput v)
    show ?thesis
    proof (cases "account_call_tool_result rm (rm_structured rm v) context")
      case (Inr a)
      then have "accounted_good rm context a"
        using accounted_result [OF Inr] assms(2) by (simp add: accounted_good_def rmcp_flags_def)
      then show ?thesis using assms(4) Inr \<open>outcome = Inr out\<close> ValueOutput ok by auto
    next
      case (Inl e)
      have "good_response rm context (ac_result a, observe context tool c a
          (tool_result_log_code (ct_is_error (ac_result a)) (structured_code (ac_result a))))"
        if "account_call_tool_result rm (rm_structured_error rm (enc_tool_error e)) context = Inr a" for a
        using assms(1,2) accounted_result(1) [OF that] error_log_code [OF assms(1,2)]
        by (auto simp: good_response_def observe_def rmcp_flags_def)
      then show ?thesis
        using assms Inl \<open>outcome = Inr out\<close> ValueOutput by (auto intro: error_response_good split: sum.splits)
    qed
  qed
qed

section \<open>Properties\<close>


definition sample_call :: open_call where
  "sample_call = \<lparr>oc_result = 0, oc_progress = 1, oc_total_deadline = 120000, oc_inactivity_timeout = 30000,
     oc_connection_id = Some ''c'', oc_request_id = Some ''r''\<rparr>"

definition sample_polls :: "poll list" where
  "sample_polls =
     [\<lparr>po_now = 10000, po_result = None,
       po_progress = Some (Some \<lparr>np_completed = 3, np_total = None, np_phase = Reading\<rparr>), po_cancelled = True\<rparr>,
      \<lparr>po_now = 40000, po_result = None, po_progress = None, po_cancelled = True\<rparr>]"



text \<open>
  C27. Every wait ends: at the latest with the first turn that finds a result, or finds the progress channel
  empty while the caller has cancelled or the total deadline is over. What comes later changes nothing.
\<close>

theorem wait_ends:
  assumes "i < length polls" and "must_end call (polls ! i)"
  shows "snd (wait_for_result owner call token started (take (Suc i) polls)) \<noteq> None \<and>
    wait_for_result owner call token started polls = wait_for_result owner call token started (take (Suc i) polls)"
proof
  have nth: "take (Suc i) polls ! i = polls ! i" by simp
  show ended: "snd (wait_for_result owner call token started (take (Suc i) polls)) \<noteq> None"
    unfolding wait_for_result_def by (rule wait_ended [of i]) (use assms in \<open>simp_all add: nth\<close>)
  have "polls = take (Suc i) polls @ drop (Suc i) polls" by simp
  then have "wait_for_result owner call token started polls = (case wait_for_result owner call token started (take (Suc i) polls) of
      (w', Some d) \<Rightarrow> (w', Some d)
    | (w', None) \<Rightarrow> wait_turns owner call token w' (drop (Suc i) polls))"
    unfolding wait_for_result_def by (metis wait_turns_append)
  then show "wait_for_result owner call token started polls = wait_for_result owner call token started (take (Suc i) polls)"
    using ended by (cases "wait_for_result owner call token started (take (Suc i) polls)") auto
qed

theorem wait_ends_witness:
  "snd (wait_for_result False sample_call None 0 (take 2 sample_polls)) \<noteq> None"
proof -
  have "1 < length sample_polls" "must_end sample_call (sample_polls ! 1)"
    by (simp_all add: sample_polls_def must_end_def)
  from wait_ends [OF this] show ?thesis by (simp add: numeral_2_eq_2)
qed

text \<open>
  C8. What a tool sends is what it was asked, and what it answers is what it was sent. A read tool makes one
  call: the operation of its name with the input its arguments decode to, addressed to the connection they
  name, and a printed operation is read back by the plugin's side as itself. Its outcome is settled by that
  call alone: it is missing exactly while the wait goes on; it is the error of opening the call or of the
  wait; and when the wait returned a result it is the value that very result serializes to, or for a
  screenshot its accounting, and an internal error for a result of another kind.
\<close>

theorem tool_call_faithful:
  assumes "uuid_lowercases hyphenated" and "tool_tag tool = Some tag"
    and "execute hyphenated rm context sz env token tool arguments = (Invoke c op # calls, outcome)"
  shows "calls = [] \<and> operation_tag op = tag \<and>
    map_option operation_connection (dec_tool_input hyphenated tag (arguments_object arguments)) = Some c \<and>
    map_option without_connection (dec_tool_input hyphenated tag (arguments_object arguments)) =
      Some (without_connection op) \<and>
    (prints_scale print_f64 op \<and> src_len (enc_input print_f64 op) \<le> MAX_ENVELOPE_BYTES \<longrightarrow>
      dec_operation hyphenated (enc_operation print_f64 op) = Some op) \<and>
    outcome = call_outcome env token (Invoke c op) (read_output rm context sz tag)"
proof -
  obtain input where input: "dec_tool_input hyphenated tag (arguments_object arguments) = Some input" "calls = []"
    "c = operation_connection input" "op = (if tag = GetScreenshot then input else without_connection input)"
    "outcome = call_outcome env token (Invoke c op) (read_output rm context sz tag)"
    using assms(2,3) by (rule execute_read)
  have twice: "without_connection (without_connection i) = without_connection i" for i by (cases i) simp_all
  have "operation_tag input = tag" by (rule tool_input_tag [OF input(1)])
  then have tag: "operation_tag op = tag" by (simp add: input(4) without_connection_tag)
  have "dec_operation hyphenated (enc_operation print_f64 op) = Some op"
    if "prints_scale print_f64 op" "src_len (enc_input print_f64 op) \<le> MAX_ENVELOPE_BYTES"
  proof -
    have "prints_scale print_f64 input"
      using that(1) by (cases input) (auto simp: input(4) prints_scale_def split: if_splits)
    then have "operation_ok hyphenated print_f64 input" by (rule tool_input_ok [OF assms(1) _ input(1)])
    then have "operation_ok hyphenated print_f64 op" using without_connection_ok by (simp add: input(4))
    then show ?thesis using that(2) by (rule dec_enc_operation)
  qed
  then show ?thesis
    using input tag by (auto simp: twice)
qed

definition sample_context :: envelope_context where
  "sample_context = \<lparr>ec_request_id = ''1'', ec_protocol_version = ''2026-07-28''\<rparr>"

definition sample_env :: broker_env where
  "sample_env = \<lparr>be_open = (\<lambda>call. Inl (tool_error_new NoFigmaConnection True)), be_started = 0, be_polls = [],
     be_call = (\<lambda>call. Inl (tool_error_new NoFigmaConnection True))\<rparr>"

definition sample_serializers :: serializers where
  "sample_serializers = \<lparr>sz_files = (\<lambda>files. None), sz_result = (\<lambda>result. None)\<rparr>"

abbreviation "metadata_request \<equiv> OpGetMetadata \<lparr>gmi_connection_id = None\<rparr>"

lemma sample_execute:
  "execute lower_hyphenated sample_rmcp sample_context sample_serializers sample_env None ToolGetMetadata None =
     ([Invoke None metadata_request], Some (Inl (ToolFailure (tool_error_new NoFigmaConnection True))))"
  by (simp add: read_branch_def arguments_object_def dec_get_metadata_input_def struct_fields_js_obj field_opt_def
      field_default_def invoke_def and_answer_def sample_env_def)

theorem tool_call_faithful_witness:
  "dec_operation lower_hyphenated (enc_operation print_sample metadata_request) = Some metadata_request \<and>
   call_outcome sample_env None (Invoke None metadata_request)
     (read_output sample_rmcp sample_context sample_serializers GetMetadata) =
     Some (Inl (ToolFailure (tool_error_new NoFigmaConnection True)))"
proof -
  have hy: "uuid_lowercases lower_hyphenated" by (simp add: uuid_lowercases_def lower_hyphenated_def)
  have pf: "prints_scale print_sample metadata_request" by (simp add: prints_scale_def)
  have tag: "tool_tag ToolGetMetadata = Some GetMetadata" by simp
  have short: "src_len (enc_input print_sample metadata_request) \<le> MAX_ENVELOPE_BYTES"
    by (simp add: enc_get_metadata_input_def js_obj_def commas_def MAX_ENVELOPE_BYTES_def)
  show ?thesis using tool_call_faithful [OF hy tag sample_execute] pf short by metis
qed

text \<open>
  C9. Whatever a tool call answers, unless it is refused as unknown or for its arguments, is either a result
  that is no error, within the text and the envelope limit as the log says, or a structured tool error, with
  the wire name of its code in the log. So no result passes a limit, and no failure is logged as a success or
  under another name.
\<close>

theorem response_within_limits:
  assumes "rmcp_structures rm" and "rmcp_flags rm"
    and "call_tool hyphenated rm context sz env token name arguments = (calls, Some (Inr (result, ob)))"
  shows "if ct_is_error result = Some True
    then \<exists>e. result = rm_structured_error rm (enc_tool_error e) \<and> ob_error_code ob = code_name (te_code e)
    else ob_error_code ob = ''OK'' \<and> ob_text_bytes ob \<le> MAX_TEXT_BYTES \<and> ob_envelope_bytes ob \<le> MAX_ENVELOPE_BYTES \<and>
      rm_response_len rm (includes_result_type context) (ec_request_id context) result = Some (ob_envelope_bytes ob)"
proof -
  obtain tool outcome where tool: "execute hyphenated rm context sz env token tool arguments = (calls, Some outcome)"
    "outcome_response rm context tool (argument_connection arguments) outcome = Inr (result, ob)"
    using assms(3) by (auto simp: call_tool_def split: option.splits prod.splits)
  have "good_response rm context (result, ob)"
    by (rule response_good [OF assms(1,2) _ tool(2)]) (use tool(1) execute_good [OF assms(2), of hyphenated "context" sz env token tool arguments] in simp)
  then show ?thesis by (simp add: good_response_def)
qed

theorem response_within_limits_witness:
  "ct_is_error (fst (tool_error_response sample_rmcp (tool_error_new NoFigmaConnection True) sample_context ToolGetMetadata None)) =
     Some True \<and>
   (\<exists>e. fst (tool_error_response sample_rmcp (tool_error_new NoFigmaConnection True) sample_context ToolGetMetadata None) =
       rm_structured_error sample_rmcp (enc_tool_error e) \<and>
     ob_error_code (snd (tool_error_response sample_rmcp (tool_error_new NoFigmaConnection True) sample_context
       ToolGetMetadata None)) = code_name (te_code e))"
proof -
  let ?r = "tool_error_response sample_rmcp (tool_error_new NoFigmaConnection True) sample_context ToolGetMetadata None"
  have rm: "rmcp_structures sample_rmcp" "rmcp_flags sample_rmcp"
    by (simp_all add: rmcp_structures_def rmcp_flags_def sample_rmcp_def)
  have "tool_try_from ''get_metadata'' = Some ToolGetMetadata" by (simp add: tool_try_from_iff)
  then have call: "call_tool lower_hyphenated sample_rmcp sample_context sample_serializers sample_env None ''get_metadata'' None =
      ([Invoke None metadata_request], Some (Inr (fst ?r, snd ?r)))"
    using sample_execute by (simp add: call_tool_def argument_connection_def)
  have err: "ct_is_error (fst ?r) = Some True"
    using rm(2) by (auto simp: tool_error_response_def Let_def rmcp_flags_def dest: accounted_result(1) split: sum.split)
  from response_within_limits [OF rm call] show ?thesis unfolding if_P [OF err] using err by blast
qed

end
