(* ===== verification/Catalog.thy ===== *)
theory Catalog
  imports Dispatch
begin

text \<open>
  What the server offers besides calling tools: the tool catalog (\<open>crates/tools/src/catalog.rs\<close>), the
  prompts and the same texts as resources (\<open>crates/prompts/src\<close>), the requests that list and read them
  (\<open>crates/tools/src/service.rs\<close>), the log filter of the process and the result it ends with
  (\<open>crates/figma-dev-mcp/src/logging.rs\<close>, \<open>runtime.rs\<close>).

  The schemas of a tool come from the schemars crate and the texts of the prompts from Markdown files:
  both are arguments, as is the filter parser of the tracing crate.
\<close>

section \<open>Objects in the order of their keys\<close>

text \<open>Collecting into a \<open>BTreeMap\<close>: each pair is inserted in order, a later one replacing an equal key.\<close>

fun btree_insert :: "'k::linorder \<Rightarrow> 'v \<Rightarrow> ('k \<times> 'v) list \<Rightarrow> ('k \<times> 'v) list" where
  "btree_insert k v [] = [(k, v)]"
| "btree_insert k v ((l, w) # m) =
     (if k < l then (k, v) # (l, w) # m else if k = l then (k, v) # m else (l, w) # btree_insert k v m)"

definition btree_collect :: "('k::linorder \<times> 'v) list \<Rightarrow> ('k \<times> 'v) list" where
  "btree_collect kvs = fold (\<lambda>(k, v). btree_insert k v) kvs []"

lemma btree_insert_keys [simp]: "fst ` set (btree_insert k v m) = insert k (fst ` set m)"
  by (induction k v m rule: btree_insert.induct) auto

lemma btree_insert_sorted:
  "sorted_wrt (<) (map fst m) \<Longrightarrow> sorted_wrt (<) (map fst (btree_insert k v m))"
proof (induction k v m rule: btree_insert.induct)
  case (2 k v l w m)
  have "l < x" if "\<not> k < l" "k \<noteq> l" "x \<in> fst ` set (btree_insert k v m)" for x
    using 2(2) that by auto
  then show ?case using 2 by (auto dest: less_trans)
qed simp

lemma btree_insert_get:
  "sorted_wrt (<) (map fst m) \<Longrightarrow> map_of (btree_insert k v m) = (map_of m)(k \<mapsto> v)"
  by (induction k v m rule: btree_insert.induct) (auto simp: fun_eq_iff)

lemma btree_fold:
  "sorted_wrt (<) (map fst m) \<Longrightarrow>
     sorted_wrt (<) (map fst (fold (\<lambda>(k, v). btree_insert k v) kvs m)) \<and>
     map_of (fold (\<lambda>(k, v). btree_insert k v) kvs m) = map_of m ++ map_of (rev kvs)"
  by (induction kvs arbitrary: m)
    (auto simp: btree_insert_sorted btree_insert_get map_add_def fun_eq_iff split: option.split)

lemma btree_collect_sorted: "sorted_wrt (<) (map fst (btree_collect kvs))"
  and btree_collect_get: "map_of (btree_collect kvs) = map_of (rev kvs)"
  using btree_fold [of "[]" kvs] by (simp_all add: btree_collect_def)

text \<open>Pairs in the order of distinct keys are collected as they are.\<close>

lemma btree_insert_last: "list_all (\<lambda>l. l < k) (map fst m) \<Longrightarrow> btree_insert k v m = m @ [(k, v)]"
  by (induction k v m rule: btree_insert.induct) auto

lemma btree_collect_same: "sorted_wrt (<) (map fst kvs) \<Longrightarrow> btree_collect kvs = kvs"
proof (induction kvs rule: rev_induct)
  case (snoc kv kvs)
  then have "list_all (\<lambda>l. l < fst kv) (map fst kvs)" and "btree_collect kvs = kvs"
    by (simp_all add: sorted_wrt_append list_all_iff)
  then show ?case by (cases kv) (simp add: btree_collect_def btree_insert_last)
qed (simp add: btree_collect_def)

lemma btree_collect_values:
  "btree_collect (map (\<lambda>(k, v). (k, f v)) kvs) = map (\<lambda>(k, v). (k, f v)) (btree_collect kvs)"
proof -
  have insert: "btree_insert k (f v) (map (\<lambda>(k, v). (k, f v)) m) = map (\<lambda>(k, v). (k, f v)) (btree_insert k v m)"
    for k v m by (induction k v m rule: btree_insert.induct) auto
  have "fold (\<lambda>(k, v). btree_insert k v) (map (\<lambda>(k, v). (k, f v)) kvs) (map (\<lambda>(k, v). (k, f v)) m) =
      map (\<lambda>(k, v). (k, f v)) (fold (\<lambda>(k, v). btree_insert k v) kvs m)" for m
    by (induction kvs arbitrary: m) (auto simp: insert)
  from this [of "[]"] show ?thesis by (simp add: btree_collect_def)
qed

lemma sort_value_smaller:
  "v \<in> set vs \<Longrightarrow> size v < Suc (Suc (size_list size vs))"
  "(k, v) \<in> set kvs \<Longrightarrow> size v < Suc (Suc (size_list (size_prod (\<lambda>_. 0) size) kvs))"
proof -
  show "v \<in> set vs \<Longrightarrow> size v < Suc (Suc (size_list size vs))"
    by (induction vs) auto
  show "(k, v) \<in> set kvs \<Longrightarrow> size v < Suc (Suc (size_list (size_prod (\<lambda>_. 0) size) kvs))"
    by (induction kvs) auto
qed

function sort_value :: "json \<Rightarrow> json" where
  "sort_value (Json n b) = Json n (case b of
     JArr values \<Rightarrow> JArr (map sort_value values)
   | JObj members \<Rightarrow> JObj (btree_collect (map (\<lambda>(k, v). (k, sort_value v)) members))
   | scalar \<Rightarrow> scalar)"
  by pat_completeness auto
termination sort_value
  by (relation "measure size") (auto simp: sort_value_smaller)

declare sort_value.simps [simp del]

definition sort_object :: "(string \<times> json) list \<Rightarrow> (string \<times> json) list" where
  "sort_object members = btree_collect (map (\<lambda>(k, v). (k, sort_value v)) members)"

lemma sort_value_forms [simp]:
  "sort_value (Json n JNull) = Json n JNull" "sort_value (Json n (JBool b)) = Json n (JBool b)"
  "sort_value (Json n (JNum x)) = Json n (JNum x)" "sort_value (Json n (JStr s)) = Json n (JStr s)"
  "sort_value (Json n (JArr vs)) = Json n (JArr (map sort_value vs))"
  "sort_value (Json n (JObj members)) = Json n (JObj (sort_object members))"
  by (simp_all add: sort_value.simps sort_object_def)

lemma sort_object_get: "map_of (sort_object members) k = map_option sort_value (map_of (rev members) k)"
  by (simp add: sort_object_def btree_collect_get rev_map map_of_map)

text \<open>An object without repeated keys keeps its members; its keys are in order, at every level.\<close>

lemma sort_object_lookup:
  "distinct (map fst members) \<Longrightarrow> map_of (sort_object members) k = map_option sort_value (map_of members k)"
  using map_of_inject_set [of "rev members" members]
  by (simp add: sort_object_get rev_map [symmetric] del: map_of_eq_Some_iff)

lemma sort_object_sorted: "sorted_wrt (<) (map fst (sort_object members))"
  unfolding sort_object_def by (rule btree_collect_sorted)

fun sorted_value :: "json \<Rightarrow> bool" where
  "sorted_value (Json n b) = (case b of
     JArr values \<Rightarrow> list_all sorted_value values
   | JObj members \<Rightarrow> sorted_wrt (<) (map fst members) \<and> list_all (\<lambda>(k, v). sorted_value v) members
   | scalar \<Rightarrow> True)"

lemma btree_collect_mem: "kv \<in> set (btree_collect kvs) \<Longrightarrow> kv \<in> set kvs"
proof -
  have insert: "kv \<in> set (btree_insert k v m) \<Longrightarrow> kv = (k, v) \<or> kv \<in> set m" for k v and m :: "('a \<times> 'b) list"
    by (induction k v m rule: btree_insert.induct) (auto split: if_splits)
  have "kv \<in> set (fold (\<lambda>(k, v). btree_insert k v) kvs m) \<Longrightarrow> kv \<in> set kvs \<or> kv \<in> set m" for m
    by (induction kvs arbitrary: m) (auto dest: insert)
  from this [of "[]"] show "kv \<in> set (btree_collect kvs) \<Longrightarrow> kv \<in> set kvs" by (simp add: btree_collect_def)
qed

lemma sort_value_sorted: "sorted_value (sort_value v)"
proof (induction v rule: sort_value.induct)
  case (1 n b)
  show ?case
  proof (cases b)
    case (JObj members)
    have "sorted_value w" if "(k, w) \<in> set (sort_object members)" for k w
      using btree_collect_mem [OF that [unfolded sort_object_def]] 1(2) [OF JObj] by auto
    then show ?thesis using sort_object_sorted by (auto simp: JObj list_all_iff)
  qed (use 1(1) in \<open>auto simp: list_all_iff\<close>)
qed

lemma sort_value_same: "sorted_value v \<Longrightarrow> sort_value v = v"
proof (induction v rule: sort_value.induct)
  case (1 n b)
  show ?case
  proof (cases b)
    case (JArr vs)
    then show ?thesis using 1(1) [OF JArr] 1(3) by (simp add: list_all_iff map_idI)
  next
    case (JObj members)
    have "map (\<lambda>(k, v). (k, sort_value v)) members = members"
      using 1(2) [OF JObj _ refl] 1(3) JObj by (intro map_idI) (auto simp: list_all_iff)
    then show ?thesis using 1(3) JObj by (simp add: sort_object_def btree_collect_same)
  qed simp_all
qed

lemma sort_value_idem: "sort_value (sort_value v) = sort_value v"
  by (rule sort_value_same [OF sort_value_sorted])

section \<open>The tool catalog\<close>

definition CACHE_TTL_MS :: u64 where "CACHE_TTL_MS = 86400000"

fun tool_description :: "tool_name \<Rightarrow> string" where
  "tool_description ToolGetComponents =
     ''Return components and component sets in a bounded node or page scope.''"
| "tool_description ToolGetDesignContext =
     ''Return an implementation-oriented bounded design tree.''"
| "tool_description ToolGetDevModeData =
     ''Return annotations, documentation, resources, and ownership metadata.''"
| "tool_description ToolGetFonts =
     ''Return fonts used by a bounded scope and their availability.''"
| "tool_description ToolGetMetadata =
     ''Return file, page, editor, and plugin capability metadata without descendants.''"
| "tool_description ToolGetMotion =
     ''Return bounded motion data for nodes when the Figma motion API is available.''"
| "tool_description ToolGetNodes =
     ''Fetch one or more nodes by opaque ID while preserving input order.''"
| "tool_description ToolGetReactions =
     ''Return prototype reactions and explicit target references.''"
| "tool_description ToolGetScreenshot =
     ''Render bounded nodes or the captured selection as raster or SVG assets. `format` picks `png`, `jpeg`, or `svg`; `scale` applies to the raster formats only, and `svgOutlineText`, `svgIdAttribute`, and `svgSimplifyStroke` to `svg` only. Passing a field that belongs to another format is rejected. SVG source is always returned, with a `safe` verdict and, when unsafe, a `rejection` naming the rule that fired; safety never withholds the source. The verdict lives only in structured content: the `image/svg+xml` content block is emitted for every SVG asset, safe or not, so a client that previews that block renders an unsafe SVG unlabelled. Treat an unsafe verdict as a caller decision: writing such source to disk can execute a `<script>` element if a browser later opens it. A node the host reports as putting no ink on the page fails with `EMPTY_NODE_BOUNDS` in every format rather than returning an empty asset.''"
| "tool_description ToolGetSelection =
     ''Return the current selection with a requested detail level and bounded depth.''"
| "tool_description ToolGetStyles =
     ''Return styles referenced by a bounded scope, and the document's local styles. `selector` constrains only the `referenced` half; the `local` half is document-wide and ignores it. The default `both` therefore mixes a document-wide list with a scoped one.''"
| "tool_description ToolGetVariables =
     ''Return variable collections, modes, aliases, scopes, and code syntax.''"
| "tool_description ToolListFiles =
     ''List live Figma connections; connection IDs expire when plugin sockets reconnect.''"
| "tool_description ToolSearchNodes =
     ''Search exactly one explicit page or node scope with bounded predicates. At least one of `query` or `types` is required; a call with neither is rejected.''"

definition CONNECTION_NOTE :: string where
  "CONNECTION_NOTE = '' A connectionId is ephemeral and expires when its plugin socket reconnects.''"

record tool =
  tl_name :: string
  tl_description :: string
  tl_input_schema :: "(string \<times> json) list"
  tl_output_schema :: "(string \<times> json) list option"
  tl_read_only :: bool
  tl_destructive :: bool
  tl_open_world :: bool

text \<open>A result of a list request: its items, how long it may be cached, and whether for everybody.\<close>

record 'a listing =
  li_items :: "'a list"
  li_ttl_ms :: u64
  li_cache_public :: bool

definition with_all_items :: "'a list \<Rightarrow> 'a listing" where
  "with_all_items xs = \<lparr>li_items = xs, li_ttl_ms = CACHE_TTL_MS, li_cache_public = True\<rparr>"

text \<open>The schemas of a tool are what the schemars crate derives from its input and result types.\<close>

record schemas =
  sc_input :: "tool_name \<Rightarrow> (string \<times> json) list"
  sc_output :: "tool_name \<Rightarrow> (string \<times> json) list"

definition tool_definition :: "schemas \<Rightarrow> tool_name \<Rightarrow> tool" where
  "tool_definition sc name =
     \<lparr>tl_name = tool_as_str name,
      tl_description = (if name = ToolListFiles then tool_description name
        else tool_description name @ CONNECTION_NOTE),
      tl_input_schema = sc_input sc name, tl_output_schema = Some (sc_output sc name),
      tl_read_only = True, tl_destructive = False, tl_open_world = False\<rparr>"

definition canonicalize_tool :: "tool \<Rightarrow> tool" where
  "canonicalize_tool t = t\<lparr>tl_input_schema := sort_object (tl_input_schema t),
     tl_output_schema := map_option sort_object (tl_output_schema t)\<rparr>"

definition CATALOG_ORDER :: "tool_name list" where
  "CATALOG_ORDER = [ToolGetComponents, ToolGetDesignContext, ToolGetDevModeData, ToolGetFonts, ToolGetMetadata, ToolGetMotion, ToolGetNodes,
     ToolGetReactions, ToolGetScreenshot, ToolGetSelection, ToolGetStyles, ToolGetVariables, ToolListFiles, ToolSearchNodes]"

definition tools_catalog :: "schemas \<Rightarrow> tool listing" where
  "tools_catalog sc =
     with_all_items (map canonicalize_tool (sort_key tl_name (map (tool_definition sc) CATALOG_ORDER)))"

definition get_tool :: "schemas \<Rightarrow> string \<Rightarrow> tool option" where
  "get_tool sc name = find (\<lambda>t. tl_name t = name) (li_items (tools_catalog sc))"

text \<open>The definitions stand in the order of the tool names, so sorting leaves them in place.\<close>

lemma catalog_strict: "sorted_wrt (<) (map tool_as_str CATALOG_ORDER)"
  by code_simp

lemma catalog_order: "sorted (map tool_as_str CATALOG_ORDER)"
  using catalog_strict by (rule strict_sorted_imp_sorted)

lemma catalog_items: "li_items (tools_catalog sc) = map (canonicalize_tool \<circ> tool_definition sc) ALL_TOOLS"
proof -
  have "map tl_name (map (tool_definition sc) CATALOG_ORDER) = map tool_as_str CATALOG_ORDER"
    by (simp add: tool_definition_def)
  then have "sort_key tl_name (map (tool_definition sc) CATALOG_ORDER) = map (tool_definition sc) CATALOG_ORDER"
    using catalog_order by (simp only: sort_key_id_if_sorted)
  moreover have "CATALOG_ORDER = ALL_TOOLS" by (simp add: CATALOG_ORDER_def ALL_TOOLS_def)
  ultimately show ?thesis by (simp add: tools_catalog_def with_all_items_def)
qed

text \<open>The tools that are listed are the ones a call is accepted for, each read-only and with ordered schemas.\<close>

lemma listed_name: "tl_name (canonicalize_tool (tool_definition sc name)) = tool_as_str name"
  by (simp add: canonicalize_tool_def tool_definition_def)

lemma get_tool_called:
  "get_tool sc name = map_option (canonicalize_tool \<circ> tool_definition sc) (tool_try_from name)"
proof -
  have "find (\<lambda>t. tl_name t = name) (map (canonicalize_tool \<circ> tool_definition sc) tools) =
      map_option (canonicalize_tool \<circ> tool_definition sc) (find (\<lambda>n. tool_as_str n = name) tools)" for tools
    by (induction tools) (simp_all add: listed_name)
  then show ?thesis by (simp only: get_tool_def tool_try_from_def catalog_items)
qed

lemma listed_schema:
  "sorted_value (Json n (JObj (sort_object members)))"
  using sort_value_sorted [of "Json n (JObj members)"] by simp

lemma response_known: "outcome_response rm context tool c outcome \<noteq> Inl (MethodNotFound name)"
  by (cases "(rm, context, tool, c, outcome)" rule: outcome_response.cases) simp_all

lemma called_tool:
  "call_tool hy rm context sz env token name arguments = ([], Some (Inl (MethodNotFound name))) \<longleftrightarrow>
     tool_try_from name = None"
  by (auto simp: call_tool_def response_known split: option.splits prod.splits)

text \<open>
  C28. The catalog and the calls agree. A name is listed exactly when a call under it is not refused as an
  unknown method; the listed names stand in strict order; and a listed tool says of itself that it is read-only,
  not destructive and closed-world, and shows the schemas of the very tool that a call under its name runs, with
  the keys in strict order at every level and, where keys are distinct, every member kept under its key.
\<close>

theorem catalog_matches_calls:
  "sorted_wrt (<) (map tl_name (li_items (tools_catalog sc))) \<and>
   (get_tool sc name = None \<longleftrightarrow>
      call_tool hyphenated rm context sz env token name arguments = ([], Some (Inl (MethodNotFound name)))) \<and>
   (\<forall>t. get_tool sc name = Some t \<longrightarrow> t \<in> set (li_items (tools_catalog sc)) \<and> (\<exists>tool schema.
      tool_try_from name = Some tool \<and> tl_name t = name \<and>
      tl_read_only t \<and> \<not> tl_destructive t \<and> \<not> tl_open_world t \<and> tl_output_schema t = Some schema \<and>
      sorted_value (Json 0 (JObj (tl_input_schema t))) \<and> sorted_value (Json 0 (JObj schema)) \<and>
      (distinct (map fst (sc_input sc tool)) \<longrightarrow> (\<forall>k.
        map_of (tl_input_schema t) k = map_option sort_value (map_of (sc_input sc tool) k))) \<and>
      (distinct (map fst (sc_output sc tool)) \<longrightarrow> (\<forall>k.
        map_of schema k = map_option sort_value (map_of (sc_output sc tool) k)))))"
  (is "?sorted \<and> ?same \<and> ?described")
proof (intro conjI)
  have "map tl_name (li_items (tools_catalog sc)) = map tool_as_str CATALOG_ORDER"
    by (simp add: catalog_items listed_name ALL_TOOLS_def CATALOG_ORDER_def)
  then show ?sorted using catalog_strict by simp
  show ?same by (simp add: called_tool get_tool_called)
  show ?described
  proof (intro allI impI)
    fix t
    assume t: "get_tool sc name = Some t"
    then obtain tool where tool: "tool_try_from name = Some tool" "t = canonicalize_tool (tool_definition sc tool)"
      by (auto simp: get_tool_called)
    have "t \<in> set (li_items (tools_catalog sc))" using t by (auto simp: get_tool_def find_Some_iff)
    moreover have "tl_name t = name" using t by (auto simp: get_tool_def find_Some_iff)
    ultimately show "t \<in> set (li_items (tools_catalog sc)) \<and> (\<exists>tool schema.
      tool_try_from name = Some tool \<and> tl_name t = name \<and>
      tl_read_only t \<and> \<not> tl_destructive t \<and> \<not> tl_open_world t \<and> tl_output_schema t = Some schema \<and>
      sorted_value (Json 0 (JObj (tl_input_schema t))) \<and> sorted_value (Json 0 (JObj schema)) \<and>
      (distinct (map fst (sc_input sc tool)) \<longrightarrow> (\<forall>k.
        map_of (tl_input_schema t) k = map_option sort_value (map_of (sc_input sc tool) k))) \<and>
      (distinct (map fst (sc_output sc tool)) \<longrightarrow> (\<forall>k.
        map_of schema k = map_option sort_value (map_of (sc_output sc tool) k))))"
      using tool listed_schema sort_object_lookup
      by (simp add: canonicalize_tool_def tool_definition_def del: sorted_value.simps map_of_eq_Some_iff)
  qed
qed

definition sample_schemas :: schemas where
  "sample_schemas =
     \<lparr>sc_input = (\<lambda>tool. [(''type'', js_str ''object''), (''properties'', js_obj [])]),
      sc_output = (\<lambda>tool. [(''type'', js_str ''object'')])\<rparr>"

theorem catalog_matches_calls_witness:
  "\<exists>t. get_tool sample_schemas ''get_fonts'' = Some t \<and> tl_read_only t \<and> \<not> tl_destructive t \<and>
     map_of (tl_input_schema t) ''type'' = Some (sort_value (js_str ''object'')) \<and>
     sorted_value (Json 0 (JObj (tl_input_schema t)))"
proof -
  have name: "tool_try_from ''get_fonts'' = Some ToolGetFonts" by (simp add: tool_try_from_iff)
  then obtain t where t: "get_tool sample_schemas ''get_fonts'' = Some t" by (simp add: get_tool_called)
  have "distinct (map fst (sc_input sample_schemas tool))"
    "map_of (sc_input sample_schemas tool) ''type'' = Some (js_str ''object'')" for tool
    by (simp_all add: sample_schemas_def)
  then show ?thesis
    using t catalog_matches_calls [THEN conjunct2, THEN conjunct2, THEN spec, THEN mp, OF t]
    by (auto simp del: sorted_value.simps map_of_eq_Some_iff)
qed


section \<open>Prompts and resources\<close>

record prompt_definition =
  pd_name :: string
  pd_description :: string
  pd_body :: string

text \<open>The bodies are the Markdown files of the crate, by their paths.\<close>

definition PROMPTS :: "(string \<Rightarrow> string) \<Rightarrow> prompt_definition list" where
  "PROMPTS file =
     [\<lparr>pd_name = ''prototype_flow_strategy'',
       pd_description = ''Read-only prototype journey analysis using reactions, optional motion, and targeted node context.'',
       pd_body = file ''../bodies/prototype_flow_strategy.md''\<rparr>,
      \<lparr>pd_name = ''read_design_strategy'',
       pd_description = ''Token-efficient, read-only sequence for inspecting a Figma file with the 14-tool catalog.'',
       pd_body = file ''../bodies/read_design_strategy.md''\<rparr>,
      \<lparr>pd_name = ''style_audit_strategy'',
       pd_description = ''Bounded, report-only audit of raw values versus linked styles and variables.'',
       pd_body = file ''../bodies/style_audit_strategy.md''\<rparr>]"

definition prompt_by_name :: "(string \<Rightarrow> string) \<Rightarrow> string \<Rightarrow> prompt_definition option" where
  "prompt_by_name file name = find (\<lambda>prompt. pd_name prompt = name) (PROMPTS file)"

record prompt_entry =
  pe_name :: string
  pe_description :: string

definition prompts_catalog :: "(string \<Rightarrow> string) \<Rightarrow> prompt_entry listing" where
  "prompts_catalog file =
     with_all_items (map (\<lambda>prompt. \<lparr>pe_name = pd_name prompt, pe_description = pd_description prompt\<rparr>) (PROMPTS file))"

text \<open>One message of the user with the body.\<close>

record prompt_result =
  pr_user_message :: string
  pr_description :: string

definition get_prompt_result :: "(string \<Rightarrow> string) \<Rightarrow> string \<Rightarrow> prompt_result option" where
  "get_prompt_result file name = map_option
     (\<lambda>prompt. \<lparr>pr_user_message = pd_body prompt, pr_description = pd_description prompt\<rparr>) (prompt_by_name file name)"

definition RESOURCE_URI_PREFIX :: string where "RESOURCE_URI_PREFIX = ''figma://strategy/''"
definition RESOURCE_MIME_TYPE :: string where "RESOURCE_MIME_TYPE = ''text/markdown''"

definition resource_uri :: "string \<Rightarrow> string" where
  "resource_uri name = RESOURCE_URI_PREFIX @ name"

record resource_entry =
  re_uri :: string
  re_name :: string
  re_description :: string
  re_mime_type :: string
  re_size :: nat

definition resources_catalog :: "(string \<Rightarrow> string) \<Rightarrow> resource_entry listing" where
  "resources_catalog file = with_all_items (map (\<lambda>prompt.
     \<lparr>re_uri = resource_uri (pd_name prompt), re_name = pd_name prompt, re_description = pd_description prompt,
      re_mime_type = RESOURCE_MIME_TYPE, re_size = length (pd_body prompt)\<rparr>) (PROMPTS file))"

record resource_contents =
  rc_content :: string
  rc_uri :: string
  rc_mime_type :: string

definition strip_prefix :: "string \<Rightarrow> string \<Rightarrow> string option" where
  "strip_prefix p s = (if prefix p s then Some (drop (length p) s) else None)"

definition read_resource_result :: "(string \<Rightarrow> string) \<Rightarrow> string \<Rightarrow> resource_contents listing option" where
  "read_resource_result file uri =
     do { name \<leftarrow> strip_prefix RESOURCE_URI_PREFIX uri;
          prompt \<leftarrow> prompt_by_name file name;
          Some (with_all_items [\<lparr>rc_content = pd_body prompt, rc_uri = uri, rc_mime_type = RESOURCE_MIME_TYPE\<rparr>]) }"

text \<open>The requests of the service; the message of a failed one is not kept.\<close>

definition get_prompt :: "(string \<Rightarrow> string) \<Rightarrow> string \<Rightarrow> mcp_error + prompt_result" where
  "get_prompt file name = (case get_prompt_result file name of Some r \<Rightarrow> Inr r | None \<Rightarrow> Inl McpInvalidParams)"

definition read_resource :: "(string \<Rightarrow> string) \<Rightarrow> string \<Rightarrow> mcp_error + resource_contents listing" where
  "read_resource file uri = (case read_resource_result file uri of Some r \<Rightarrow> Inr r | None \<Rightarrow> Inl McpInvalidParams)"

lemma prompt_named: "prompt \<in> set (PROMPTS file) \<Longrightarrow> prompt_by_name file (pd_name prompt) = Some prompt"
proof -
  have found: "find (\<lambda>y. f y = f x) xs = Some x" if "distinct (map f xs)" "x \<in> set xs" for f :: "'a \<Rightarrow> string" and x xs
    using that by (induction xs) auto
  have "distinct (map pd_name (PROMPTS file))" by (simp add: PROMPTS_def)
  then show "prompt \<in> set (PROMPTS file) \<Longrightarrow> ?thesis" unfolding prompt_by_name_def by (rule found)
qed

lemma prompt_by_name_Some: "prompt_by_name file name = Some prompt \<longleftrightarrow> prompt \<in> set (PROMPTS file) \<and> pd_name prompt = name"
  using prompt_named by (auto simp: prompt_by_name_def find_Some_iff)

lemma strip_resource_uri: "strip_prefix RESOURCE_URI_PREFIX uri = Some name \<longleftrightarrow> uri = resource_uri name"
  by (auto simp: strip_prefix_def resource_uri_def prefix_def)

text \<open>A resource is read exactly when it is listed, and then is the body of its prompt, as long as the catalog says.\<close>

lemma read_listed:
  "entry \<in> set (li_items (resources_catalog file)) \<Longrightarrow>
     \<exists>r c. read_resource file (re_uri entry) = Inr r \<and> li_items r = [c] \<and> rc_uri c = re_uri entry \<and>
       length (rc_content c) = re_size entry \<and>
       map_option pr_user_message (get_prompt_result file (re_name entry)) = Some (rc_content c)"
proof -
  assume "entry \<in> set (li_items (resources_catalog file))"
  then obtain prompt where "prompt \<in> set (PROMPTS file)" and entry: "re_uri entry = resource_uri (pd_name prompt)"
    "re_size entry = length (pd_body prompt)" "re_name entry = pd_name prompt"
    unfolding resources_catalog_def with_all_items_def by fastforce
  then have "prompt_by_name file (pd_name prompt) = Some prompt" by (simp only: prompt_named)
  moreover have "strip_prefix RESOURCE_URI_PREFIX (resource_uri (pd_name prompt)) = Some (pd_name prompt)"
    by (simp only: strip_resource_uri)
  ultimately show ?thesis
    by (simp add: read_resource_def read_resource_result_def with_all_items_def get_prompt_result_def entry)
qed

lemma read_unlisted:
  assumes "uri \<notin> re_uri ` set (li_items (resources_catalog file))"
  shows "read_resource file uri = Inl McpInvalidParams"
proof -
  have "read_resource_result file uri = None"
  proof (rule ccontr)
    assume "read_resource_result file uri \<noteq> None"
    then obtain name prompt where "uri = resource_uri name" "prompt_by_name file name = Some prompt"
      by (auto simp: read_resource_result_def strip_resource_uri bind_eq_Some_conv)
    then have "uri \<in> re_uri ` set (li_items (resources_catalog file))"
      by (force simp: resources_catalog_def with_all_items_def prompt_by_name_Some image_image)
    then show False using assms by blast
  qed
  then show ?thesis by (simp add: read_resource_def)
qed

section \<open>Tool names in a prompt\<close>

definition TOOL_LIKE_VERBS :: "string list" where
  "TOOL_LIKE_VERBS = [''add'', ''apply'', ''bind'', ''call'', ''convert'', ''create'', ''delete'', ''edit'', ''export'',
     ''generate'', ''get'', ''import'', ''insert'', ''install'', ''list'', ''load'', ''move'', ''patch'', ''put'',
     ''remove'', ''rename'', ''replace'', ''run'', ''save'', ''scan'', ''search'', ''set'', ''substitute'', ''swap'',
     ''update'', ''write'']"

definition ident_char :: "char \<Rightarrow> bool" where
  "ident_char c \<longleftrightarrow> byte_in CHR ''a'' CHR ''z'' c \<or> byte_in CHR ''0'' CHR ''9'' c \<or> c = CHR ''_''"

definition tool_like_identifier :: "string \<Rightarrow> string option" where
  "tool_like_identifier token =
     (let ident = takeWhile ident_char token;
          verb = takeWhile (\<lambda>c. c \<noteq> CHR ''_'') ident
      in if verb \<in> set TOOL_LIKE_VERBS \<and> CHR ''_'' \<in> set ident \<and> take 1 ident \<noteq> ''_'' \<and>
           \<not> suffix ''_'' ident \<and> \<not> sublist ''__'' ident \<and> list_all ident_char ident
         then Some ident else None)"

abbreviation tick :: char where "tick \<equiv> CHR 0x60"

function extracted_tool_references :: "string \<Rightarrow> string set" where
  "extracted_tool_references rest = (case dropWhile (\<lambda>c. c \<noteq> tick) rest of
     [] \<Rightarrow> {}
   | _ # rest \<Rightarrow> (case dropWhile (\<lambda>c. c \<noteq> tick) rest of
       [] \<Rightarrow> {}
     | _ # rest' \<Rightarrow> set_option (tool_like_identifier (takeWhile (\<lambda>c. c \<noteq> tick) rest)) \<union>
         extracted_tool_references rest'))"
  by auto
termination extracted_tool_references
proof (relation "measure length")
  fix rest c rest1 d rest2
  assume "dropWhile (\<lambda>c. c \<noteq> tick) rest = c # rest1" and "dropWhile (\<lambda>c. c \<noteq> tick) rest1 = d # rest2"
  then have "Suc (length rest1) \<le> length rest" "Suc (length rest2) \<le> length rest1"
    by (metis length_Cons length_dropWhile_le)+
  then show "(rest2, rest) \<in> measure length" by simp
qed simp

declare extracted_tool_references.simps [simp del]

text \<open>What stands between the first two backticks of a text, and what follows.\<close>

lemma references_quoted:
  assumes "tick \<notin> set before" and "tick \<notin> set token"
  shows "extracted_tool_references (before @ tick # token @ tick # rest) =
    set_option (tool_like_identifier token) \<union> extracted_tool_references rest"
proof -
  have upto: "takeWhile (\<lambda>c. c \<noteq> tick) (xs @ tick # ys) = xs" "dropWhile (\<lambda>c. c \<noteq> tick) (xs @ tick # ys) = tick # ys"
    if "tick \<notin> set xs" for xs ys
    using that by (induction xs) auto
  show ?thesis
    by (subst extracted_tool_references.simps) (simp add: upto assms)
qed

lemma references_unquoted:
  "tick \<notin> set before \<Longrightarrow> tick \<notin> set token \<Longrightarrow> extracted_tool_references (before @ tick # token) = {}"
  "tick \<notin> set before \<Longrightarrow> extracted_tool_references before = {}"
proof -
  have none: "dropWhile (\<lambda>c. c \<noteq> tick) xs = []" if "tick \<notin> set xs" for xs
    using that by (auto simp: dropWhile_eq_Nil_conv)
  have upto: "dropWhile (\<lambda>c. c \<noteq> tick) (xs @ tick # ys) = tick # ys" if "tick \<notin> set xs" for xs ys
    using that by (induction xs) auto
  show "tick \<notin> set before \<Longrightarrow> tick \<notin> set token \<Longrightarrow> extracted_tool_references (before @ tick # token) = {}"
    by (subst extracted_tool_references.simps) (simp add: upto none)
  show "tick \<notin> set before \<Longrightarrow> extracted_tool_references before = {}"
    by (subst extracted_tool_references.simps) (simp add: none)
qed

text \<open>The name of every tool is recognised where it is quoted.\<close>

lemma tool_name_recognised: "tool_like_identifier (tool_as_str name) = Some (tool_as_str name)"
proof (cases name)
qed (simp only:, code_simp)+

lemma tool_name_unquoted: "tick \<notin> set (tool_as_str name)"
  by (cases name) simp_all

lemma tool_mentioned:
  "tick \<notin> set before \<Longrightarrow>
     tool_as_str name \<in> extracted_tool_references (before @ tick # tool_as_str name @ tick # rest)"
  by (simp add: references_quoted tool_name_unquoted tool_name_recognised)

section \<open>The process\<close>

definition FAMILY :: "string list" where
  "FAMILY = [''figma_dev_mcp'', ''figma_dev_mcp_broker'', ''figma_dev_mcp_tools'', ''figma_dev_mcp_protocol'',
     ''figma_dev_mcp_prompts'']"

definition is_bare_level :: "string \<Rightarrow> bool" where
  "is_bare_level v \<longleftrightarrow> map ascii_lower v \<in> set [''error'', ''warn'', ''info'', ''debug'', ''trace'', ''off'']"

definition crate_family_filter :: "string \<Rightarrow> string" where
  "crate_family_filter level =
     fold (\<lambda>target s. s @ '','' @ target @ ''='' @ level) FAMILY ''info'' @ '',rmcp=info''"

text \<open>The two constructors of the filter are the tracing crate's: the second refuses a directive it cannot parse.\<close>

definition filter_from_directive :: "(string \<Rightarrow> 'f) \<Rightarrow> (string \<Rightarrow> 'f option) \<Rightarrow> string option \<Rightarrow> 'f" where
  "filter_from_directive new try_new directive = (case Option.bind directive (\<lambda>d. if trim d = [] then None else Some (trim d)) of
     None \<Rightarrow> new ''info''
   | Some v \<Rightarrow> if is_bare_level v then new (crate_family_filter v)
       else case try_new v of Some f \<Rightarrow> f | None \<Rightarrow> new ''info'')"

text \<open>A bare level never raises the level of the rmcp crate.\<close>

lemma bare_level_pins_rmcp:
  "is_bare_level (trim d) \<Longrightarrow>
     \<exists>directives. filter_from_directive new try_new (Some d) = new (directives @ '',rmcp=info'')"
proof -
  assume level: "is_bare_level (trim d)"
  have "\<not> is_bare_level []" by (simp add: is_bare_level_def)
  with level have "trim d \<noteq> []" by metis
  then have "filter_from_directive new try_new (Some d) = new (crate_family_filter (trim d))"
    using level by (simp add: filter_from_directive_def)
  then show ?thesis unfolding crate_family_filter_def by blast
qed

text \<open>The result of the process, and the error of the shutdown it logs where another is returned.\<close>

datatype ('s, 'b) run_error = ServiceFailed 's | ShutdownFailed 'b

definition run_result :: "'s + unit \<Rightarrow> 'b + unit \<Rightarrow> (('s, 'b) run_error + unit) \<times> 'b option" where
  "run_result service shutdown = (case shutdown of
     Inl error \<Rightarrow> (case service of
         Inr _ \<Rightarrow> (Inl (ShutdownFailed error), None)
       | Inl e \<Rightarrow> (Inl (ServiceFailed e), Some error))
   | Inr _ \<Rightarrow> (map_sum ServiceFailed id service, None))"

lemma run_result_ok: "fst (run_result service shutdown) = Inr () \<longleftrightarrow> service = Inr () \<and> shutdown = Inr ()"
  by (cases service; cases shutdown; simp add: run_result_def)

lemma run_result_cause:
  "fst (run_result (Inl e) shutdown) = Inl (ServiceFailed e)"
  "run_result service (Inl error) = (case service of
     Inr u \<Rightarrow> (Inl (ShutdownFailed error), None) | Inl e \<Rightarrow> (Inl (ServiceFailed e), Some error))"
  by (simp_all add: run_result_def split: sum.split)

end
