(* ===== verification/Spec2Isabelle.thy ===== *)
theory Spec2Isabelle
  imports Liveness Delivery Scenario Supervisor Remote Catalog
begin

text \<open>
  A verification library for the Rust workspace under \<open>src/crates/\<close>: the broker that stands between a
  Figma plugin and the processes that serve its design data as MCP tools.

  \<^bold>\<open>The program.\<close> A plugin instance connects to the broker over a web socket and registers a session
  under a connection identifier. A tool call becomes one read operation for one connection. The
  broker resolves the connection, takes a slot of the socket's admission queue, enters the request
  in the pending map, writes it to the socket and waits for the plugin's answer, its progress
  messages, a cancellation or a deadline. Several processes may run on one machine: they elect one
  leader, which owns the plugin port; the others are front ends that forward their calls to the
  leader over a framed stream. The answer is turned into the content of a tool result, bounded in
  size, and logged.

  \<^bold>\<open>Theories, in the order of their imports.\<close>

  \<^item> \<open>Prelude\<close>: results \<open>'e + 'a\<close>, the hash maps of the code as association lists with distinct keys
    (\<open>hm_get\<close>, \<open>hm_insert\<close>, \<open>hm_remove\<close>), saturating and wrapping words, and the locales \<open>keyed_table\<close>
    (what the code relies on of a map; interpreted on the association lists as \<open>hash\<close>), \<open>machine\<close> and
    \<open>guarded_machine\<close> (a one-step invariant lifted to runs; the first is a sublocale of the second).
  \<^item> \<open>Config\<close> (\<open>protocol/limits.rs\<close>, \<open>broker/config.rs\<close>): the limits, the transport limits and their check.
  \<^item> \<open>Json\<close> (serde as \<open>protocol/domain/common.rs\<close> uses it): JSON values with objects as field lists, so that
    repeated keys can be seen and refused; derived struct decoders, optional fields, unit enums,
    bounded strings and lists. A decoder has the type \<open>json \<Rightarrow> 'a option\<close>; the text of a serde error
    is not kept.
  \<^item> \<open>Errors\<close> (\<open>protocol/error.rs\<close>), \<open>Deferred\<close> (\<open>protocol/deferred.rs\<close>), \<open>Identifiers\<close>, \<open>Values\<close> and \<open>Nodes\<close>
    (\<open>protocol/domain/common.rs\<close>): error codes with their canonical messages; the field buffer that
    waits for a tag; identifiers and selectors; paints, effects, layout, text, styles; node details
    and the tree decoder that consumes a budget on the way.
  \<^item> \<open>Navigation\<close>, \<open>Handoff\<close>, \<open>Prototype\<close>, \<open>Visual\<close> (\<open>protocol/domain/\<close>, a file each): the inputs and results
    of the read operations with their decoders, and the encoders of all inputs.
  \<^item> \<open>Wire\<close> and \<open>Operations\<close> (\<open>protocol/wire.rs\<close>): the closed messages of the plugin socket with their
    hand-written visitors, generic in the payload decoders; then the thirteen operations with the
    payloads they carry.
  \<^item> \<open>Queue\<close>, \<open>Pending\<close>, \<open>Registry\<close>, \<open>Lifecycle\<close> (\<open>broker/queue.rs\<close>, \<open>pending.rs\<close>, \<open>registry.rs\<close>,
    \<open>lifecycle.rs\<close>): the four parts of a broker's state. A record per struct, a function per method,
    and what the method sends on channels as its outputs. \<open>admission\<close> is the contract the pending map
    and the broker have with a queue; it is interpreted on \<open>try_enqueue\<close> and \<open>queue_release\<close>.
  \<^item> \<open>Broker\<close> (\<open>broker/lib.rs\<close>): \<open>broker_invoke\<close>, \<open>broker_cancel\<close>, \<open>broker_resolve_connection\<close>, shutdown, and each of
    their sections under a lock as an operation of its own.
  \<^item> \<open>Frames\<close> (\<open>protocol/rpc.rs\<close>): the messages between front end and leader, the capped writer and the
    length framing. The locale \<open>message_codec\<close> is what a message type owes its stream; it is
    interpreted on five message types here and on the operations in \<open>Operations\<close>.
  \<^item> \<open>Socket\<close> (\<open>broker/ws.rs\<close>): handshake, what a frame, a tick and a cleanup do.
  \<^item> \<open>Slots\<close>, \<open>System\<close>, \<open>Ownership\<close>, \<open>Liveness\<close>, \<open>Delivery\<close>, \<open>Scenario\<close>: the broker as a whole. The state \<open>system\<close>
    holds the broker, the calls in progress, the sockets being registered and served, and the cancel messages
    still to be sent; an event lets one task do the work up to its next wait for a lock or a channel, so
    that every interleaving of the tasks is a list of events. Each section under a lock is an event of its
    own: finding a queue and entering it; the lease, the session and the queue of a new socket; touching a
    session and handling the message; the sweep and each message that follows it; cancelling a request and
    telling the plugin; the three parts of a cleanup; raising the shutdown and losing what is pending. A
    request that leaves the pending map releases its slot in the same event, since the code drops its
    ticket before it gives up that lock. Three pairs of steps are one event though no lock spans them: taking a
    message from a channel and writing it to the socket, receiving a grant and dispatching under the lock of
    the pending map (a grant once made stays), and the ends of a channel and of a lease when a socket is
    closed. \<open>sys_inv\<close> is the invariant, \<open>Delivery\<close> compares the histories of a run with each other, and
    \<open>Scenario\<close> is a concrete run that instantiates it.
  \<^item> \<open>Frontend\<close> and \<open>Client\<close> (\<open>broker/rpc.rs\<close>, \<open>client.rs\<close>): the two ends of the front-end protocol, the
    backend cell and calls on a local broker; \<open>Remote\<close> joins both ends by a stream that may break.
  \<^item> \<open>Election\<close> and \<open>Supervisor\<close> (\<open>broker/election.rs\<close>, \<open>supervisor.rs\<close>): who leads, and what happens when a
    role dies. The locale \<open>backoff\<close> is the capped doubling delay, interpreted on the two constants.
  \<^item> \<open>Content\<close>, \<open>Contracts\<close>, \<open>Dispatch\<close> (\<open>tools/content.rs\<close>, \<open>contracts/\<close>, \<open>names.rs\<close>, \<open>dispatch.rs\<close>,
    \<open>service.rs\<close>, \<open>observability.rs\<close>): the blocks and images of a result with their accounting, the names
    and inputs of the tools, the wait on a call, the response and its log record.
  \<^item> \<open>Catalog\<close> (\<open>tools/catalog.rs\<close>, the prompts crate, \<open>figma-dev-mcp/logging.rs\<close> and \<open>runtime.rs\<close>): the listed
    tools, prompts and resources, the log filter, and the result the process ends with.

  \<^bold>\<open>What the lemmas show.\<close>

  \<^item> One component: its invariant holds in every run (queue bounds, pending requests answered once,
    registry maps inverse to each other, lease counts exact), and each operation is characterised
    on every branch, errors included.
  \<^item> The whole broker: no slot leaks, a request is answered at most once and dispatched at most once, what
    is written to a socket is what was dispatched to it, in order, for the connection its callers named, a
    frame touches only its own socket's requests, and a sweep late enough ends every pending request. This theory adds the properties that
    need both the invariant of the slots and the invariant of the requests.
  \<^item> Codecs: what is encoded is decoded back; what decodes is within its bounds and came from an
    object with exactly the fields of its type; the budgeted tree decoder equals decoding followed
    by validation.
  \<^item> Front ends: a caller receives what the leader computed for that very call or an error that says
    why not; each request is answered at most once; and one way the teardown of a connection can
    hang for ever.
  \<^item> Tools: what is called, what is returned, how large it may be, and when the wait on a call ends.
  \<^item> Roles: an election ends, with the result of its last turn; the retry loop enters a role exactly when
    some attempt does; starts of a role are spaced.

  \<^bold>\<open>Bounds and fuel.\<close> Lengths of runs are bounded only where a counter could wrap: the tickets of a
  queue are 64-bit words, so properties of whole runs assume fewer than \<open>2 ^ 64 - 1\<close> events. An
  election and the retry loop are partial functions that return \<open>None\<close> when the loop does not end; that
  they return is proved (within 401 turns for an election whose clock advances by the sleeps, since
  the timeout of two seconds is 400 times the least delay of 5 ms). Nothing else needs fuel: the
  other loops are recursions on the events, frames, items or trees they consume. Numbers of the code
  are \<open>nat\<close> where the checks before their use rule out overflow, and words where the code wraps or
  saturates.

  \<^bold>\<open>Parameters.\<close> Code outside the workspace is an argument of the definitions that use it: the uuid
  crate (\<open>hyphenated\<close>, of which the encoders need \<open>uuid_lowercases\<close>), the printer of floating-point numbers
  (\<open>prints_scale\<close> asks of it that the one number an operation holds is read back as it was), the rmcp crate (the record \<open>rmcp\<close>, with \<open>rmcp_structures\<close> and \<open>rmcp_flags\<close>), the JSON
  serializer and parser of frames, the network an election meets turn by turn, and the results of
  waiting on several futures at once, of which \<open>tokio::select!\<close> may choose any; also the
  schemas of the schemars crate, the bodies of the prompts and the filter parser of the tracing crate. Time
  is a number of milliseconds given with each event.

  \<^bold>\<open>Not modelled.\<close> JSON Schema documents: no operation of the broker or of a tool call reads them. The start-up
  of the process and its argument parsing. The plugin: TypeScript. The serializers of the results
  other than screenshots (a parameter of \<open>Dispatch\<close>), and the tracing calls other than the log record of
  a response. The supervisor names the broker handles and the tasks of a role without holding them.
\<close>

section \<open>Slots of the whole broker\<close>

lemma run_slots:
  assumes "length es < 2 ^ 64 - 1"
  shows "sys_slots (sy_broker (system_run ei hyphenated dr config start es))
    (sy_calls (system_run ei hyphenated dr config start es))"
  using system_run_bounded [OF assms] sys_invD(1) by blast

lemma held_ticketI:
  "(k, p) \<in> set m \<Longrightarrow> pr_ticket p = Some tk \<Longrightarrow> tk \<in> set (held_tickets m)"
  by (auto simp: held_tickets_def intro!: bexI [of _ "(k, p)"])

text \<open>A call between the queue and the pending map, or one abandoned there.\<close>

definition in_admission :: "'i call \<Rightarrow> bool" where
  "in_admission call \<longleftrightarrow> at_owned (cl_at call) \<noteq> [] \<or> at_loose (cl_at call) \<noteq> []"

lemma slots_free:
  assumes "sys_inv sy"
    and "\<forall>(k, p) \<in> set (bk_pending (sy_broker sy)). pr_socket p \<noteq> s"
    and "\<forall>(c, call) \<in> set (sy_calls sy). cl_socket call = s \<longrightarrow> \<not> in_admission call"
  shows "queue_snapshot (bk_queue (sy_broker sy) s) = (0, 0)"
proof -
  note inv = sys_invD [OF assms(1)]
  note slots = inv(1) [unfolded sys_slots_def]
  have "t \<notin> tickets (bk_queue (sy_broker sy) s)" for t
  proof
    assume "t \<in> tickets (bk_queue (sy_broker sy) s)"
    from slots_okD(5) [OF slots this]
    consider (pending) k p where "(k, p) \<in> set (bk_pending (sy_broker sy))" "pr_ticket p = Some (s, t)"
      | (call) c call where "(c, call) \<in> set (sy_calls sy)"
          "(s, t) \<in> set (at_owned (cl_at call)) \<union> set (at_loose (cl_at call))"
      by (auto simp: held_tickets_collect set_collect opt_list_def split: option.splits)
    then show False
    proof cases
      case pending
      then show False using inv(2) assms(2) by (fastforce simp: pend_ok_def)
    next
      case call
      have "hm_get (sy_calls sy) c = Some call"
        using call(1) inv(5) by (simp add: calls_ok_def)
      then have "call_ok (sy_identity sy) (sy_next_socket sy) call"
        using inv(5) by (simp add: calls_ok_def)
      then have "cl_socket call = s" using call(2) by (cases "cl_at call") (auto simp: call_ok_def)
      then show False using call assms(3) by (auto simp: in_admission_def)
    qed
  qed
  then have "tickets (bk_queue (sy_broker sy) s) = {}" by blast
  moreover have "queue_inv (bk_queue (sy_broker sy) s)" using slots_okD(1) [OF slots] .
  ultimately show ?thesis
    by (auto simp: tickets_def queue_snapshot_def queue_inv_def queue_core_def)
qed

text \<open>
  C1. No slot leaks in the whole broker, whatever its tasks do in whatever order: the ticket of
  every pending request is in the queue of its socket, no two requests share one, and a socket with
  no pending request and no call in admission has an empty queue, so that its four slots are free.
\<close>

theorem no_slot_leaks:
  fixes es :: "('i, 'w) event list" and dr :: "json \<Rightarrow> 'r option"
  assumes "length es < 2 ^ 64 - 1"
  shows "let sy = system_run ei hyphenated dr config start es; m = bk_pending (sy_broker sy) in
     distinct (held_tickets m) \<and>
     (\<forall>(k, p) \<in> set m. \<exists>t. pr_ticket p = Some (pr_socket p, t) \<and>
        t \<in> tickets (bk_queue (sy_broker sy) (pr_socket p))) \<and>
     (\<forall>s. (\<forall>(k, p) \<in> set m. pr_socket p \<noteq> s) \<longrightarrow>
          (\<forall>(c, call) \<in> set (sy_calls sy). cl_socket call = s \<longrightarrow> \<not> in_admission call) \<longrightarrow>
          queue_snapshot (bk_queue (sy_broker sy) s) = (0, 0))"
proof -
  let ?sy = "system_run ei hyphenated dr config start es :: ('i, 'r) system"
  let ?b = "sy_broker ?sy"
  have run: "sys_inv ?sy" using system_run_bounded [OF assms] by blast
  note slots = sys_invD(1) [OF run, unfolded sys_slots_def]
  have "distinct (held_tickets (bk_pending ?b))" using slots_okD(2) [OF slots] by simp
  moreover have "\<exists>t. pr_ticket p = Some (pr_socket p, t) \<and> t \<in> tickets (bk_queue ?b (pr_socket p))"
    if p: "(k, p) \<in> set (bk_pending ?b)" for k p
  proof -
    obtain t where t: "pr_ticket p = Some (pr_socket p, t)"
      using sys_invD(2) [OF run] p by (auto simp: pend_ok_def)
    then have "(pr_socket p, t) \<in> set (held_tickets (bk_pending ?b))"
      by (rule held_ticketI [OF p])
    then show ?thesis using slots_okD(4) [OF slots, of "pr_socket p" t] t by simp
  qed
  ultimately show ?thesis using slots_free [OF run] by (auto simp: Let_def)
qed

theorem no_slot_leaks_witness:
  "queue_snapshot (bk_queue (sy_broker (scenario (connecting @ calling 0 ''r'' @ answering))) 0) = (0, 0)"
  using no_slot_leaks [of "connecting @ calling 0 ''r'' @ answering" "Some \<circ> js_bool" Some dec_bool
      config_production 0] scenario_answering
  by (simp add: Let_def scenario_def [symmetric])
    (simp add: connecting_def calling_def answering_def)

lemma held_unique:
  assumes "distinct (held_tickets m)" and "(k, p) \<in> set m" and "(k', p') \<in> set m"
    and "pr_ticket p = Some tk" and "pr_ticket p' = Some tk"
  shows "(k, p) = (k', p')"
  using assms
proof (induction m)
  case (Cons kv m)
  have "tk \<in> set (opt_list (pr_ticket (snd kv))) \<Longrightarrow> tk \<notin> set (held_tickets m)"
    using Cons.prems(1) by (auto simp: held_tickets_def)
  moreover have "distinct (held_tickets m)" using Cons.prems(1) by (simp add: held_tickets_def)
  ultimately show ?case
    using Cons.IH Cons.prems(2-) held_ticketI [of _ _ m tk] by (cases kv; cases k; cases k') auto
qed simp

text \<open>The identifiers of the requests of a socket that are pending, and those that were dispatched.\<close>

definition pending_of :: "('i, 'r) system \<Rightarrow> uuid \<Rightarrow> string set" where
  "pending_of sy s = {r. hm_contains (bk_pending (sy_broker sy)) (s, r)}"

definition outstanding :: "('i, 'r) system \<Rightarrow> uuid \<Rightarrow> string set" where
  "outstanding sy s = {r. \<exists>p tk. hm_get (bk_pending (sy_broker sy)) (s, r) = Some p \<and>
     pr_ticket p = Some tk \<and> tk \<in> fst ` set (sy_dispatched sy)}"

lemma tickets_of_pending:
  assumes "sys_inv sy"
  shows "\<exists>f. inj_on f (pending_of sy s) \<and> f ` pending_of sy s \<subseteq> tickets (bk_queue (sy_broker sy) s) \<and>
    f ` outstanding sy s \<subseteq> set (active_ids (bk_queue (sy_broker sy) s))"
proof -
  let ?m = "bk_pending (sy_broker sy)" and ?q = "bk_queue (sy_broker sy) s"
  note inv = sys_invD [OF assms]
  note slots = inv(1) [unfolded sys_slots_def]
  have ok: "hm_ok ?m" using inv(7) by (simp add: keyed_ok_def)
  define f where "f r = snd (the (pr_ticket (the (hm_get ?m (s, r)))))" for r
  have ticket: "((s, r), p) \<in> set ?m \<and> pr_ticket p = Some (s, f r)"
    if p: "hm_get ?m (s, r) = Some p" for r p
  proof
    show mem: "((s, r), p) \<in> set ?m" using p by (rule map_of_SomeD)
    have "pr_socket p = s" using keyed_ok_get [OF inv(7) p] by simp
    then show "pr_ticket p = Some (s, f r)"
      using inv(2) mem p by (auto simp: pend_ok_def f_def simp del: map_of_eq_Some_iff)
  qed
  have pending: "\<exists>p. hm_get ?m (s, r) = Some p" if "r \<in> pending_of sy s" for r
    using that by (simp add: pending_of_def not_None_eq del: map_of_eq_Some_iff)
  have "inj_on f (pending_of sy s)"
  proof (rule inj_onI)
    fix r r'
    assume *: "r \<in> pending_of sy s" "r' \<in> pending_of sy s" "f r = f r'"
    obtain p p' where "hm_get ?m (s, r) = Some p" "hm_get ?m (s, r') = Some p'"
      using pending [OF *(1)] pending [OF *(2)] by blast
    note tk = ticket [OF this(1)] ticket [OF this(2)]
    have "distinct (held_tickets ?m)" using slots_okD(2) [OF slots] by simp
    from held_unique [OF this, of "(s, r)" p "(s, r')" p' "(s, f r)"] tk *(3) show "r = r'" by simp
  qed
  moreover have held: "f r \<in> tickets ?q" if r: "r \<in> pending_of sy s" for r
  proof -
    obtain p where "hm_get ?m (s, r) = Some p" using pending [OF r] by blast
    from ticket [OF this] have "(s, f r) \<in> set (held_tickets ?m)" using held_ticketI by blast
    then show ?thesis using slots_okD(4) [OF slots, of s "f r"] by simp
  qed
  moreover have "f r \<in> set (active_ids ?q)" if r: "r \<in> outstanding sy s" for r
  proof -
    obtain p tk where p: "hm_get ?m (s, r) = Some p" "pr_ticket p = Some tk"
      "tk \<in> fst ` set (sy_dispatched sy)" using r by (auto simp: outstanding_def)
    then have tk: "tk = (s, f r)" using ticket [OF p(1)] by simp
    have "tk \<in> set (bk_granted (sy_broker sy))" using inv(6) p(3) by (auto simp: dispatched_ok_def)
    then show ?thesis
      using slots_okD(7) [OF slots, of s "f r"] held [of r] p(1) tk
      by (auto simp: tickets_def pending_of_def)
  qed
  moreover have "f ` pending_of sy s \<subseteq> tickets ?q" using held by blast
  ultimately show ?thesis by blast
qed

text \<open>
  C4. A plugin is never asked for more than four things at once, and never has more than twenty
  requests pending: whatever the calls and their timing, at most four of a socket's pending requests
  have been written to its channel and not been answered yet.
\<close>

theorem outstanding_bounded:
  assumes "length es < 2 ^ 64 - 1"
  shows "card (outstanding (system_run ei hyphenated dr config start es) s) \<le> 4 \<and>
    card (pending_of (system_run ei hyphenated dr config start es) s) \<le> 20"
proof -
  let ?sy = "system_run ei hyphenated dr config start es"
  let ?q = "bk_queue (sy_broker ?sy) s"
  have run: "sys_inv ?sy" using system_run_bounded [OF assms] by blast
  have q: "queue_inv ?q" using slots_okD(1) [OF sys_invD(1) [OF run, unfolded sys_slots_def]] .
  obtain f where f: "inj_on f (pending_of ?sy s)" "f ` pending_of ?sy s \<subseteq> tickets ?q"
    "f ` outstanding ?sy s \<subseteq> set (active_ids ?q)" using tickets_of_pending [OF run] by blast
  have sub: "outstanding ?sy s \<subseteq> pending_of ?sy s" by (auto simp: outstanding_def pending_of_def)
  have "card (outstanding ?sy s) \<le> card (set (active_ids ?q))"
    using card_inj_on_le [OF inj_on_subset [OF f(1) sub] f(3)] by simp
  also have "\<dots> \<le> 4" using q card_length [of "active_ids ?q"]
    by (simp add: queue_inv_def queue_core_def limit_defs)
  finally have "card (outstanding ?sy s) \<le> 4" .
  moreover have "card (pending_of ?sy s) \<le> card (tickets ?q)"
    by (rule card_inj_on_le [OF f(1,2)]) (simp add: tickets_def)
  moreover have "card (tickets ?q) \<le> length (active_ids ?q) + length (waiting_ids ?q)"
    unfolding tickets_def by (intro card_Un_le [THEN order_trans] add_mono card_length)
  moreover have "\<dots> \<le> 20" using q by (simp add: queue_inv_def queue_core_def limit_defs)
  ultimately show ?thesis by linarith
qed

theorem outstanding_bounded_witness:
  "outstanding (scenario (connecting @ calling 0 ''r'')) 0 = {''r''} \<and>
   card (outstanding (scenario (connecting @ calling 0 ''r'')) 0) \<le> 4"
proof
  show "outstanding (scenario (connecting @ calling 0 ''r'')) 0 = {''r''}"
    by (auto simp: scenario_calling outstanding_def called_def pending_r_def)
  show "card (outstanding (scenario (connecting @ calling 0 ''r'')) 0) \<le> 4"
    unfolding scenario_def
    by (rule outstanding_bounded [THEN conjunct1]) (simp add: connecting_def calling_def)
qed

text \<open>
  C5. A request goes to the plugin it was made for, at most once and in order. What is dispatched is dispatched
  on a slot that was granted to it alone, for a call that was made and named the connection the slot's socket
  registered as, even if the connection moved to another socket while the request was queued; no call is
  dispatched twice. What then stands in the channel of a socket or was written to it is, in the same order,
  what was dispatched on the slots of that very socket: nothing else reaches it and nothing reaches it twice.
  Nothing is lost either, as long as the socket is served and no write to it is abandoned.
\<close>

theorem dispatched_once_to_its_connection:
  assumes "length es < 2 ^ 64 - 1"
  shows "let sy = system_run ei hyphenated dr config start es in
     distinct (map fst (sy_dispatched sy)) \<and>
     (\<forall>(tk, connection_id, request) \<in> set (sy_dispatched sy).
        tk \<in> set (bk_granted (sy_broker sy)) \<and> sy_identity sy (fst tk) = connection_id) \<and>
     mset (map snd (sy_dispatched sy)) \<subseteq># mset (concat (map invocation es)) \<and>
     (\<forall>s. subseq (sent_to s sy) (requests_dispatched s (sy_dispatched sy)) \<and>
       (serving s sy \<and> (\<forall>e \<in> set es. \<not> abandons s e) \<longrightarrow>
          sent_to s sy = requests_dispatched s (sy_dispatched sy)))"
proof -
  let ?sy = "system_run ei hyphenated dr config start es"
  have "dispatched_ok (sy_dispatched ?sy) (receivers (sy_calls ?sy)) (bk_granted (sy_broker ?sy))
      (sy_identity ?sy) (sy_next_socket ?sy)"
    using system_run_bounded [OF assms] sys_invD(6) by blast
  then have "distinct (map fst (sy_dispatched ?sy)) \<and>
     (\<forall>(tk, connection_id, request) \<in> set (sy_dispatched ?sy).
        tk \<in> set (bk_granted (sy_broker ?sy)) \<and> sy_identity ?sy (fst tk) = connection_id)"
    by (auto simp: dispatched_ok_def)
  moreover have "mset (map snd (sy_dispatched ?sy)) \<subseteq># mset (concat (map invocation es))"
    using run_origin [OF assms] subset_mset.order_trans mset_subset_eq_add_left by blast
  ultimately show ?thesis using run_delivers [OF assms] unfolding Let_def by blast
qed

theorem dispatched_once_to_its_connection_witness:
  "let sy = scenario (connecting @ calling 0 ''r'') in
     sy_dispatched sy = [((0, 1), plugin_uuid, boolean_request ''r'')] \<and> sy_identity sy 0 = plugin_uuid \<and>
     sent_to 0 sy = [boolean_request ''r''] \<and> sent_to 1 sy = []"
proof -
  let ?es = "connecting @ calling 0 ''r''"
  have all: "sy_dispatched called = [((0, 1), plugin_uuid, boolean_request ''r'')]" "serving 0 called"
    by (simp_all add: called_def connected_def serving_def)
  have "length ?es < 2 ^ 64 - 1" by (simp add: connecting_def calling_def)
  note run = dispatched_once_to_its_connection [OF this, of "Some \<circ> js_bool" Some dec_bool config_production 0,
      folded scenario_def, unfolded scenario_calling Let_def]
  have "\<forall>e \<in> set ?es. \<not> abandons 0 e" by (simp add: connecting_def calling_def ready_def)
  then have "sent_to 0 called = [boolean_request ''r'']"
    using run all by (simp add: requests_dispatched_def)
  moreover have "subseq (sent_to 1 called) (requests_dispatched 1 (sy_dispatched called))" using run by blast
  then have "sent_to 1 called = []" by (simp add: all(1) requests_dispatched_def)
  moreover have "sy_identity called 0 = plugin_uuid" using run all(1) by simp
  ultimately show ?thesis using all by (simp add: scenario_calling Let_def)
qed

text \<open>
  C2. In the whole broker, whatever interleaving of calls, frames, losses, sweeps and shutdown:
  every request admitted is answered at most once, and until it is answered it is pending.
\<close>

theorem answered_exactly_once:
  assumes "length es < 2 ^ 64 - 1"
  shows "let b = sy_broker (system_run ei hyphenated dr config start es) in
     distinct (map fst (bk_results b) @ senders (bk_pending b)) \<and>
     set (map fst (bk_results b) @ senders (bk_pending b)) = {0..<bk_channels b}"
proof -
  let ?b = "sy_broker (system_run ei hyphenated dr config start es)"
  have inv: "sys_inv (system_run ei hyphenated dr config start es)"
    using system_run_bounded [OF assms] by blast
  have eq: "mset (map fst (bk_results ?b) @ senders (bk_pending ?b)) = mset [0..<bk_channels ?b]"
    using sys_invD(2) [OF inv] by (simp add: pend_ok_def add.commute)
  show ?thesis
    unfolding Let_def using mset_eq_imp_distinct_iff [OF eq] mset_eq_setD [OF eq] by simp
qed

theorem answered_exactly_once_witness:
  "map fst (bk_results (sy_broker (scenario (connecting @ calling 0 ''r'' @ answering)))) = [0] \<and>
   bk_channels (sy_broker (scenario (connecting @ calling 0 ''r'' @ answering))) = 1"
proof -
  let ?b = "sy_broker (scenario (connecting @ calling 0 ''r'' @ answering))"
  have "map fst (bk_results ?b) = [0]" "bk_pending ?b = []"
    using scenario_answering by (simp_all add: Let_def)
  moreover have "set (map fst (bk_results ?b) @ senders (bk_pending ?b)) = {0..<bk_channels ?b}"
    unfolding scenario_def
    by (rule answered_exactly_once [unfolded Let_def, THEN conjunct2])
      (simp add: connecting_def calling_def answering_def)
  then have "card (set (map fst (bk_results ?b) @ senders (bk_pending ?b))) = bk_channels ?b" by simp
  ultimately show ?thesis by (simp add: senders_def)
qed

text \<open>
  C3. No request waits for ever: once the serve loop ticks two minutes after the last admission,
  every pending request has been told \<open>TIMEOUT\<close>, retryable, whatever the plugins did or did not do,
  and each socket without a call in admission has all its slots back.
\<close>

theorem requests_end:
  fixes es :: "('i, 'w) event list" and dr :: "json \<Rightarrow> 'r option"
  assumes "length es < 2 ^ 64 - 2"
    and "\<forall>e \<in> set es. \<forall>t \<in> admission_time e. t \<le> latest" and "latest + 120000 \<le> now"
  shows "let sy = system_run ei hyphenated dr config start es;
             sy' = system_step ei hyphenated dr sy (EvServe (Tick now) :: ('i, 'w) event) in
     bk_pending (sy_broker sy') = [] \<and>
     bk_results (sy_broker sy') = bk_results (sy_broker sy) @
       map (\<lambda>c. (c, Inl (tool_error_new Timeout True))) (senders (bk_pending (sy_broker sy))) \<and>
     (\<forall>s. (\<forall>(c, call) \<in> set (sy_calls sy). cl_socket call = s \<longrightarrow> \<not> in_admission call) \<longrightarrow>
        queue_snapshot (bk_queue (sy_broker sy') s) = (0, 0))"
proof -
  let ?sy = "system_run ei hyphenated dr config start es :: ('i, 'r) system"
  let ?sy' = "system_step ei hyphenated dr ?sy (EvServe (Tick now) :: ('i, 'w) event)"
  have len: "length es < 2 ^ 64 - 1" using assms(1) by simp
  have inv: "sys_inv ?sy" using system_run_bounded [OF len] by blast
  then have inv': "sys_inv ?sy'" by (rule system_step_inv) simp
  have "\<forall>d \<in> deadlines (bk_pending (sy_broker ?sy)). d \<le> now"
    using run_deadlines [OF len assms(2), of ei hyphenated dr config start] assms(3)
    by (fastforce simp: from_secs_def limit_defs)
  note sweep = expiry_sweep_empties [OF sys_invD(7) [OF inv] this]
  have "queue_snapshot (bk_queue (sy_broker ?sy') s) = (0, 0)"
    if "\<forall>(c, call) \<in> set (sy_calls ?sy). cl_socket call = s \<longrightarrow> \<not> in_admission call" for s
    using slots_free [OF inv', of s] that sweep(1) by (simp add: case_prod_unfold)
  then show ?thesis by (simp add: Let_def sweep case_prod_unfold)
qed

theorem requests_end_witness:
  "bk_results (sy_broker (system_step (Some \<circ> js_bool) Some dec_bool
      (scenario (connecting @ calling 0 ''r'')) (EvServe (Tick 120010) :: (bool, unit) event))) =
   [(0, Inl (tool_error_new Timeout True))]"
proof -
  have "\<forall>e \<in> set (connecting @ calling 0 ''r''). \<forall>t \<in> admission_time e. t \<le> 10"
    by (simp add: connecting_def calling_def)
  from requests_end [OF _ this, of 120010 "Some \<circ> js_bool" Some dec_bool config_production 0]
  show ?thesis
    by (simp add: Let_def scenario_def [symmetric] scenario_calling)
      (simp add: called_def connected_def system_new_def broker_new_def pending_r_def senders_def
        connecting_def calling_def)
qed

end
